(* ===== verification/Wahoo_Base.thy ===== *)
theory Wahoo_Base
  imports Main "HOL-Library.State_Monad" "HOL-Library.Word"
begin

text \<open>
  The prelude of the development: how a component talks to the platform it runs on.

  The services of this repository are glue between HIDL clients and kernel nodes, so most of what
  they do is a call to something that is not in the repository: the C library and the kernel behind
  it, \<open>android-base\<close>, the HIDL runtime.  Such a call is an event of the component's own datatype
  \<open>'c\<close>.  The answers are a parameter, the environment \<open>'c env\<close>: it may answer each call as it likes,
  depending on everything that happened before (the history), so a theorem proved for every
  environment holds whatever the kernel, the other processes and the clock do.  Every call and its
  answer is appended to the history, and the properties are statements about that history.

  A C++ function is a computation of the library's state monad over a record that extends
  \<open>'c world\<close>.  An early \<open>return\<close> is the left summand of a sum, sequenced by \<open>or_return\<close>.
  The collections: \<open>wp_rules\<close> pushes a postcondition through a function body, \<open>emits_intros\<close> derives
  which events a function can cause from the functions it calls.
\<close>

named_theorems wp_rules
named_theorems emits_intros

section \<open>Calls, answers and the history\<close>

datatype answer =
    Void                                     \<comment> \<open>nothing is returned, or what is returned is ignored\<close>
  | Num int                                  \<comment> \<open>an integer result\<close>
  | Flag bool                                \<comment> \<open>a boolean result\<close>
  | Text "string option"                     \<comment> \<open>file contents or a property value\<close>
  | Entries "(string \<times> bool) list option"    \<comment> \<open>a directory: names, and whether each is a link\<close>

type_synonym 'c history = "('c \<times> answer) list"

record 'c env =
  e_num :: "'c history \<Rightarrow> 'c \<Rightarrow> int"
  e_flag :: "'c history \<Rightarrow> 'c \<Rightarrow> bool"
  e_text :: "'c history \<Rightarrow> 'c \<Rightarrow> string option"
  e_entries :: "'c history \<Rightarrow> 'c \<Rightarrow> (string \<times> bool) list option"

record 'c world =
  hist :: "'c history"

abbreviation ret :: "'a \<Rightarrow> ('s, 'a) state" where
  "ret \<equiv> State_Monad.return"

definition gets :: "('s \<Rightarrow> 'a) \<Rightarrow> ('s, 'a) state" where
  "gets f = State (\<lambda>s. (f s, s))"

definition modify :: "('s \<Rightarrow> 's) \<Rightarrow> ('s, unit) state" where
  "modify f = State (\<lambda>s. ((), f s))"

definition call_void :: "'c \<Rightarrow> (('c, 'm) world_scheme, unit) state" where
  "call_void c = State (\<lambda>s. ((), s\<lparr>hist := hist s @ [(c, Void)]\<rparr>))"

definition call_num :: "'c env \<Rightarrow> 'c \<Rightarrow> (('c, 'm) world_scheme, int) state" where
  "call_num E c = State (\<lambda>s. let r = e_num E (hist s) c in (r, s\<lparr>hist := hist s @ [(c, Num r)]\<rparr>))"

definition call_flag :: "'c env \<Rightarrow> 'c \<Rightarrow> (('c, 'm) world_scheme, bool) state" where
  "call_flag E c = State (\<lambda>s. let r = e_flag E (hist s) c in (r, s\<lparr>hist := hist s @ [(c, Flag r)]\<rparr>))"

definition call_text :: "'c env \<Rightarrow> 'c \<Rightarrow> (('c, 'm) world_scheme, string option) state" where
  "call_text E c = State (\<lambda>s. let r = e_text E (hist s) c in (r, s\<lparr>hist := hist s @ [(c, Text r)]\<rparr>))"

definition call_entries ::
  "'c env \<Rightarrow> 'c \<Rightarrow> (('c, 'm) world_scheme, (string \<times> bool) list option) state" where
  "call_entries E c =
     State (\<lambda>s. let r = e_entries E (hist s) c in (r, s\<lparr>hist := hist s @ [(c, Entries r)]\<rparr>))"

section \<open>Early returns\<close>

definition or_return ::
  "('s, 'e + 'a) state \<Rightarrow> ('a \<Rightarrow> ('s, 'e + 'b) state) \<Rightarrow> ('s, 'e + 'b) state" where
  "or_return m f = do { r \<leftarrow> m; case r of Inl e \<Rightarrow> ret (Inl e) | Inr x \<Rightarrow> f x }"

text \<open>\<open>if (!m) return e;\<close>\<close>

definition require :: "'e \<Rightarrow> ('s, bool) state \<Rightarrow> ('s, 'e + unit) state" where
  "require e m = do { b \<leftarrow> m; ret (if b then Inr () else Inl e) }"

text \<open>The value of a function body, whichever \<open>return\<close> it left by.\<close>

definition returned :: "('s, 'a + 'a) state \<Rightarrow> ('s, 'a) state" where
  "returned m = do { r \<leftarrow> m; ret (case r of Inl e \<Rightarrow> e | Inr x \<Rightarrow> x) }"

section \<open>Running a body under a postcondition\<close>

definition wp :: "('s, 'a) state \<Rightarrow> ('a \<Rightarrow> 's \<Rightarrow> bool) \<Rightarrow> 's \<Rightarrow> bool" where
  "wp m Q s = (case run_state m s of (a, s') \<Rightarrow> Q a s')"

lemma wp_iff: "wp m Q s \<longleftrightarrow> Q (fst (run_state m s)) (snd (run_state m s))"
  by (simp add: wp_def split: prod.split)

lemma wpI: "(\<And>a s'. run_state m s = (a, s') \<Longrightarrow> Q a s') \<Longrightarrow> wp m Q s"
  by (simp add: wp_def split: prod.split)

lemma wpD: "wp m Q s \<Longrightarrow> run_state m s = (a, s') \<Longrightarrow> Q a s'"
  by (simp add: wp_def)

lemma wp_mono: "wp m Q s \<Longrightarrow> (\<And>a s'. Q a s' \<Longrightarrow> R a s') \<Longrightarrow> wp m R s"
  by (simp add: wp_iff)

lemma wp_return [wp_rules]: "wp (State_Monad.return a) Q = Q a"
  by (simp add: wp_def fun_eq_iff)

lemma wp_bind [wp_rules]: "wp (State_Monad.bind m f) Q = wp m (\<lambda>a. wp (f a) Q)"
  by (simp add: wp_def fun_eq_iff split: prod.split)

lemma wp_gets [wp_rules]: "wp (gets f) Q = (\<lambda>s. Q (f s) s)"
  by (simp add: wp_def gets_def fun_eq_iff)

lemma wp_modify [wp_rules]: "wp (modify f) Q = (\<lambda>s. Q () (f s))"
  by (simp add: wp_def modify_def fun_eq_iff)

lemma wp_if [wp_rules]: "wp (if b then m else n) Q = (if b then wp m Q else wp n Q)"
  by simp

lemma wp_call_void [wp_rules]: "wp (call_void c) Q = (\<lambda>s. Q () (s\<lparr>hist := hist s @ [(c, Void)]\<rparr>))"
  by (simp add: wp_def call_void_def fun_eq_iff)

lemma wp_call_num [wp_rules]:
  "wp (call_num E c) Q =
     (\<lambda>s. let r = e_num E (hist s) c in Q r (s\<lparr>hist := hist s @ [(c, Num r)]\<rparr>))"
  by (simp add: wp_def call_num_def Let_def fun_eq_iff)

lemma wp_call_flag [wp_rules]:
  "wp (call_flag E c) Q =
     (\<lambda>s. let r = e_flag E (hist s) c in Q r (s\<lparr>hist := hist s @ [(c, Flag r)]\<rparr>))"
  by (simp add: wp_def call_flag_def Let_def fun_eq_iff)

lemma wp_call_text [wp_rules]:
  "wp (call_text E c) Q =
     (\<lambda>s. let r = e_text E (hist s) c in Q r (s\<lparr>hist := hist s @ [(c, Text r)]\<rparr>))"
  by (simp add: wp_def call_text_def Let_def fun_eq_iff)

lemma wp_call_entries [wp_rules]:
  "wp (call_entries E c) Q =
     (\<lambda>s. let r = e_entries E (hist s) c in Q r (s\<lparr>hist := hist s @ [(c, Entries r)]\<rparr>))"
  by (simp add: wp_def call_entries_def Let_def fun_eq_iff)

lemma wp_or_return [wp_rules]:
  "wp (or_return m f) Q = wp m (\<lambda>r. case r of Inl e \<Rightarrow> Q (Inl e) | Inr x \<Rightarrow> wp (f x) Q)"
  by (simp add: or_return_def wp_def fun_eq_iff split: prod.split sum.split)

lemma wp_require [wp_rules]:
  "wp (require e m) Q = wp m (\<lambda>b. Q (if b then Inr () else Inl e))"
  by (simp add: require_def wp_bind wp_return)

lemma wp_returned [wp_rules]:
  "wp (returned m) Q = wp m (\<lambda>r. Q (case r of Inl e \<Rightarrow> e | Inr x \<Rightarrow> x))"
  by (simp add: returned_def wp_bind wp_return)

text \<open>Evaluating a concrete run.\<close>

lemma run_gets [simp]: "run_state (gets f) s = (f s, s)"
  by (simp add: gets_def)

lemma run_modify [simp]: "run_state (modify f) s = ((), f s)"
  by (simp add: modify_def)

lemmas run_calls = call_void_def call_num_def call_flag_def call_text_def call_entries_def
  or_return_def require_def returned_def Let_def

section \<open>What a function appends to the history\<close>

text \<open>\<open>emits P m\<close>: \<open>m\<close> only appends to the history, and every event it appends satisfies \<open>P\<close>.\<close>

definition emits :: "('c \<times> answer \<Rightarrow> bool) \<Rightarrow> (('c, 'm) world_scheme, 'a) state \<Rightarrow> bool" where
  "emits P m \<longleftrightarrow> (\<forall>s. \<exists>t. hist (snd (run_state m s)) = hist s @ t \<and> list_all P t)"

definition emitted :: "(('c, 'm) world_scheme, 'a) state \<Rightarrow> ('c, 'm) world_scheme \<Rightarrow> 'c history" where
  "emitted m s = drop (length (hist s)) (hist (snd (run_state m s)))"

lemma emitsI:
  "(\<And>s. \<exists>t. hist (snd (run_state m s)) = hist s @ t \<and> list_all P t) \<Longrightarrow> emits P m"
  by (simp add: emits_def)

lemma hist_emitted: "hist (snd (run_state m s)) = hist s @ t \<Longrightarrow> emitted m s = t"
  by (simp add: emitted_def)

lemma emits_mono: "emits P m \<Longrightarrow> (\<And>e. P e \<Longrightarrow> Q e) \<Longrightarrow> emits Q m"
  unfolding emits_def list_all_iff by meson

lemma emits_all: "emits P m \<Longrightarrow> list_all P (emitted m s)"
  by (auto simp: emits_def emitted_def dest: spec [where x = s])

lemma emits_hist: "emits P m \<Longrightarrow> hist (snd (run_state m s)) = hist s @ emitted m s"
  by (auto simp: emits_def emitted_def dest: spec [where x = s])

lemma emitsE:
  assumes "emits P m" and "run_state m s = (a, s')"
  obtains t where "hist s' = hist s @ t" and "list_all P t"
  using assms by (metis emits_def snd_conv)

lemma emits_return [emits_intros]: "emits P (State_Monad.return a)"
  by (simp add: emits_def)

lemma emits_gets [emits_intros]: "emits P (gets f)"
  by (simp add: emits_def)

lemma emits_modify [emits_intros]: "(\<And>s. hist (f s) = hist s) \<Longrightarrow> emits P (modify f)"
  by (simp add: emits_def)

lemma emits_bind [emits_intros]:
  assumes m: "emits P m" and f: "\<And>a. emits P (f a)"
  shows "emits P (State_Monad.bind m f)"
proof (rule emitsI)
  fix s
  obtain a s1 where r1: "run_state m s = (a, s1)" by (cases "run_state m s")
  obtain t1 where t1: "hist s1 = hist s @ t1" "list_all P t1" by (rule emitsE [OF m r1])
  obtain b s2 where r2: "run_state (f a) s1 = (b, s2)" by (cases "run_state (f a) s1")
  obtain t2 where t2: "hist s2 = hist s1 @ t2" "list_all P t2" by (rule emitsE [OF f r2])
  show "\<exists>t. hist (snd (run_state (State_Monad.bind m f) s)) = hist s @ t \<and> list_all P t"
    using r1 r2 t1 t2 by (auto intro!: exI [of _ "t1 @ t2"])
qed

lemma emits_if [emits_intros]: "(b \<Longrightarrow> emits P m) \<Longrightarrow> (\<not> b \<Longrightarrow> emits P n) \<Longrightarrow> emits P (if b then m else n)"
  by simp

lemma emits_case_option [emits_intros]:
  "(x = None \<Longrightarrow> emits P m) \<Longrightarrow> (\<And>y. x = Some y \<Longrightarrow> emits P (f y)) \<Longrightarrow>
     emits P (case x of None \<Rightarrow> m | Some y \<Rightarrow> f y)"
  by (simp split: option.split)

lemma emits_case_sum [emits_intros]:
  "(\<And>y. x = Inl y \<Longrightarrow> emits P (f y)) \<Longrightarrow> (\<And>y. x = Inr y \<Longrightarrow> emits P (g y)) \<Longrightarrow>
     emits P (case x of Inl y \<Rightarrow> f y | Inr y \<Rightarrow> g y)"
  by (simp split: sum.split)

lemma emits_case_prod [emits_intros]:
  "(\<And>a b. x = (a, b) \<Longrightarrow> emits P (f a b)) \<Longrightarrow> emits P (case x of (a, b) \<Rightarrow> f a b)"
  by (simp split: prod.split)

lemma emits_call_void [emits_intros]: "P (c, Void) \<Longrightarrow> emits P (call_void c)"
  by (simp add: emits_def call_void_def)

lemma emits_call_num [emits_intros]: "(\<And>r. P (c, Num r)) \<Longrightarrow> emits P (call_num E c)"
  by (simp add: emits_def call_num_def Let_def)

lemma emits_call_flag [emits_intros]: "(\<And>r. P (c, Flag r)) \<Longrightarrow> emits P (call_flag E c)"
  by (simp add: emits_def call_flag_def Let_def)

lemma emits_call_text [emits_intros]: "(\<And>r. P (c, Text r)) \<Longrightarrow> emits P (call_text E c)"
  by (simp add: emits_def call_text_def Let_def)

lemma emits_call_entries [emits_intros]: "(\<And>r. P (c, Entries r)) \<Longrightarrow> emits P (call_entries E c)"
  by (simp add: emits_def call_entries_def Let_def)

lemma emits_or_return [emits_intros]:
  "emits P m \<Longrightarrow> (\<And>x. emits P (f x)) \<Longrightarrow> emits P (or_return m f)"
  unfolding or_return_def by (intro emits_intros)

lemma emits_require [emits_intros]: "emits P m \<Longrightarrow> emits P (require e m)"
  unfolding require_def by (intro emits_intros)

lemma emits_returned [emits_intros]: "emits P m \<Longrightarrow> emits P (returned m)"
  unfolding returned_def by (intro emits_intros)

text \<open>The events of a sequence are the events of its parts, in order.\<close>

lemma emitted_bind:
  assumes "emits P m" and "\<And>a. emits P (f a)"
  shows "emitted (State_Monad.bind m f) s =
           emitted m s @ emitted (f (fst (run_state m s))) (snd (run_state m s))"
proof -
  have "hist (snd (run_state (State_Monad.bind m f) s))
      = hist s @ emitted m s @ emitted (f (fst (run_state m s))) (snd (run_state m s))"
    using emits_hist [OF assms(1)] emits_hist [OF assms(2)] by (simp add: split_beta)
  then show ?thesis by (simp add: emitted_def)
qed

section \<open>Loops over a list\<close>

text \<open>\<open>for (x : xs) body\<close>, with no early exit.\<close>

fun for_each :: "'a list \<Rightarrow> ('a \<Rightarrow> ('s, unit) state) \<Rightarrow> ('s, unit) state" where
  "for_each [] f = ret ()"
| "for_each (x # xs) f = do { f x; for_each xs f }"

lemma emits_for_each [emits_intros]:
  "(\<And>x. x \<in> set xs \<Longrightarrow> emits P (f x)) \<Longrightarrow> emits P (for_each xs f)"
  by (induction xs) (auto intro!: emits_intros)

lemma for_each_append:
  "for_each (xs @ ys) f = do { for_each xs f; for_each ys f }"
  by (induction xs) auto

section \<open>What a function does not change\<close>

text \<open>
  \<open>preserves f m\<close>: the function \<open>f\<close> of the state, a field or a part of the history, is the same
  after \<open>m\<close>.
\<close>

named_theorems preserves_intros

definition preserves :: "('s \<Rightarrow> 'x) \<Rightarrow> ('s, 'a) state \<Rightarrow> bool" where
  "preserves f m \<longleftrightarrow> (\<forall>s. f (snd (run_state m s)) = f s)"

lemma preservesD: "preserves f m \<Longrightarrow> run_state m s = (a, s') \<Longrightarrow> f s' = f s"
  unfolding preserves_def by (metis snd_conv)

lemma preserves_snd: "preserves f m \<Longrightarrow> f (snd (run_state m s)) = f s"
  by (simp add: preserves_def)

lemma preserves_return [preserves_intros]: "preserves f (State_Monad.return a)"
  by (simp add: preserves_def)

lemma preserves_gets [preserves_intros]: "preserves f (gets h)"
  by (simp add: preserves_def)

lemma preserves_modify [preserves_intros]: "(\<And>s. f (h s) = f s) \<Longrightarrow> preserves f (modify h)"
  by (simp add: preserves_def)

lemma preserves_bind [preserves_intros]:
  "preserves f m \<Longrightarrow> (\<And>a. preserves f (h a)) \<Longrightarrow> preserves f (State_Monad.bind m h)"
  by (simp add: preserves_def split_beta)

lemma preserves_if [preserves_intros]:
  "(b \<Longrightarrow> preserves f m) \<Longrightarrow> (\<not> b \<Longrightarrow> preserves f n) \<Longrightarrow> preserves f (if b then m else n)"
  by simp

lemma preserves_case_option [preserves_intros]:
  "(x = None \<Longrightarrow> preserves f m) \<Longrightarrow> (\<And>y. x = Some y \<Longrightarrow> preserves f (h y)) \<Longrightarrow>
     preserves f (case x of None \<Rightarrow> m | Some y \<Rightarrow> h y)"
  by (simp split: option.split)

lemma preserves_case_sum [preserves_intros]:
  "(\<And>y. x = Inl y \<Longrightarrow> preserves f (g y)) \<Longrightarrow> (\<And>y. x = Inr y \<Longrightarrow> preserves f (h y)) \<Longrightarrow>
     preserves f (case x of Inl y \<Rightarrow> g y | Inr y \<Rightarrow> h y)"
  by (simp split: sum.split)

lemma preserves_case_prod [preserves_intros]:
  "(\<And>a b. x = (a, b) \<Longrightarrow> preserves f (h a b)) \<Longrightarrow> preserves f (case x of (a, b) \<Rightarrow> h a b)"
  by (simp split: prod.split)

lemma preserves_call_void [preserves_intros]:
  "(\<And>s. f (s\<lparr>hist := hist s @ [(c, Void)]\<rparr>) = f s) \<Longrightarrow> preserves f (call_void c)"
  by (simp add: preserves_def call_void_def)

lemma preserves_call_num [preserves_intros]:
  "(\<And>s r. f (s\<lparr>hist := hist s @ [(c, Num r)]\<rparr>) = f s) \<Longrightarrow> preserves f (call_num E c)"
  by (simp add: preserves_def call_num_def Let_def)

lemma preserves_call_flag [preserves_intros]:
  "(\<And>s r. f (s\<lparr>hist := hist s @ [(c, Flag r)]\<rparr>) = f s) \<Longrightarrow> preserves f (call_flag E c)"
  by (simp add: preserves_def call_flag_def Let_def)

lemma preserves_call_text [preserves_intros]:
  "(\<And>s r. f (s\<lparr>hist := hist s @ [(c, Text r)]\<rparr>) = f s) \<Longrightarrow> preserves f (call_text E c)"
  by (simp add: preserves_def call_text_def Let_def)

lemma preserves_call_entries [preserves_intros]:
  "(\<And>s r. f (s\<lparr>hist := hist s @ [(c, Entries r)]\<rparr>) = f s) \<Longrightarrow> preserves f (call_entries E c)"
  by (simp add: preserves_def call_entries_def Let_def)

lemma preserves_or_return [preserves_intros]:
  "preserves f m \<Longrightarrow> (\<And>x. preserves f (h x)) \<Longrightarrow> preserves f (or_return m h)"
  unfolding or_return_def by (intro preserves_intros)

lemma preserves_require [preserves_intros]: "preserves f m \<Longrightarrow> preserves f (require e m)"
  unfolding require_def by (intro preserves_intros)

lemma preserves_returned [preserves_intros]: "preserves f m \<Longrightarrow> preserves f (returned m)"
  unfolding returned_def by (intro preserves_intros)

lemma preserves_for_each [preserves_intros]:
  "(\<And>x. x \<in> set xs \<Longrightarrow> preserves f (h x)) \<Longrightarrow> preserves f (for_each xs h)"
  by (induction xs) (auto intro!: preserves_intros)

lemma wp_preserves: "preserves f m \<Longrightarrow> (\<And>a s'. f s' = f s \<Longrightarrow> Q a s') \<Longrightarrow> wp m Q s"
  by (simp add: wp_iff preserves_def)


section \<open>Result and history together\<close>

text \<open>
  \<open>yields R m\<close>: from every state, \<open>m\<close> appends some \<open>t\<close> to the history and returns some \<open>a\<close> with
  \<open>R a t\<close>.
\<close>

definition yields :: "('a \<Rightarrow> 'c history \<Rightarrow> bool) \<Rightarrow> (('c, 'm) world_scheme, 'a) state \<Rightarrow> bool" where
  "yields R m \<longleftrightarrow> (\<forall>s. \<exists>t. hist (snd (run_state m s)) = hist s @ t \<and> R (fst (run_state m s)) t)"

lemma yieldsI:
  "(\<And>s. \<exists>t. hist (snd (run_state m s)) = hist s @ t \<and> R (fst (run_state m s)) t) \<Longrightarrow> yields R m"
  by (simp add: yields_def)

lemma yields_emitted:
  "yields R m \<Longrightarrow> hist (snd (run_state m s)) = hist s @ emitted m s \<and> R (fst (run_state m s)) (emitted m s)"
  by (auto simp: yields_def emitted_def dest!: spec [where x = s])

lemma yieldsE:
  assumes "yields R m" and "run_state m s = (a, s')"
  obtains t where "hist s' = hist s @ t" and "R a t"
  using assms by (metis yields_def fst_conv snd_conv)

lemma yields_mono: "yields R m \<Longrightarrow> (\<And>a t. R a t \<Longrightarrow> Q a t) \<Longrightarrow> yields Q m"
  unfolding yields_def by meson

lemma emits_yields: "emits P m \<Longrightarrow> (\<And>a t. list_all P t \<Longrightarrow> R a t) \<Longrightarrow> yields R m"
  unfolding emits_def yields_def by meson

lemma yields_return: "R a [] \<Longrightarrow> yields R (State_Monad.return a)"
  by (simp add: yields_def)

lemma yields_gets: "(\<And>s. R (f s) []) \<Longrightarrow> yields R (gets f)"
  by (simp add: yields_def)

lemma yields_modify: "(\<And>s. hist (f s) = hist s) \<Longrightarrow> R () [] \<Longrightarrow> yields R (modify f)"
  by (simp add: yields_def)

lemma yields_if: "(b \<Longrightarrow> yields R m) \<Longrightarrow> (\<not> b \<Longrightarrow> yields R n) \<Longrightarrow> yields R (if b then m else n)"
  by simp

lemma yields_case_option:
  "(x = None \<Longrightarrow> yields R m) \<Longrightarrow> (\<And>y. x = Some y \<Longrightarrow> yields R (f y)) \<Longrightarrow>
     yields R (case x of None \<Rightarrow> m | Some y \<Rightarrow> f y)"
  by (simp split: option.split)

lemma yields_bind:
  assumes m: "yields R m" and f: "\<And>a t. R a t \<Longrightarrow> yields (\<lambda>b u. Q b (t @ u)) (f a)"
  shows "yields Q (State_Monad.bind m f)"
proof (rule yieldsI)
  fix s
  obtain a s1 where r1: "run_state m s = (a, s1)" by (cases "run_state m s")
  obtain t where t: "hist s1 = hist s @ t" "R a t" by (rule yieldsE [OF m r1])
  obtain b s2 where r2: "run_state (f a) s1 = (b, s2)" by (cases "run_state (f a) s1")
  obtain u where "hist s2 = hist s1 @ u" "Q b (t @ u)" by (rule yieldsE [OF f [OF t(2)] r2])
  with t r1 r2 show "\<exists>t. hist (snd (run_state (State_Monad.bind m f) s)) = hist s @ t \<and>
      Q (fst (run_state (State_Monad.bind m f) s)) t"
    by (auto intro!: exI [of _ "t @ u"])
qed

lemma yields_call_void: "R () [(c, Void)] \<Longrightarrow> yields R (call_void c)"
  by (simp add: yields_def call_void_def)

lemma yields_call_num: "(\<And>r. R r [(c, Num r)]) \<Longrightarrow> yields R (call_num E c)"
  by (simp add: yields_def call_num_def Let_def)

lemma yields_call_flag: "(\<And>r. R r [(c, Flag r)]) \<Longrightarrow> yields R (call_flag E c)"
  by (simp add: yields_def call_flag_def Let_def)

lemma yields_call_text: "(\<And>r. R r [(c, Text r)]) \<Longrightarrow> yields R (call_text E c)"
  by (simp add: yields_def call_text_def Let_def)

lemma yields_or_return:
  assumes "yields R m" and "\<And>e t. R (Inl e) t \<Longrightarrow> Q (Inl e) t"
    and "\<And>x t. R (Inr x) t \<Longrightarrow> yields (\<lambda>b u. Q b (t @ u)) (f x)"
  shows "yields Q (or_return m f)"
  unfolding or_return_def
  by (rule yields_bind [OF assms(1)]) (auto split: sum.split intro!: yields_return assms(2,3))

lemma yields_returned:
  "yields (\<lambda>r t. R (case r of Inl e \<Rightarrow> e | Inr x \<Rightarrow> x) t) m \<Longrightarrow> yields R (returned m)"
  unfolding returned_def by (erule yields_bind) (auto intro!: yields_return)


text \<open>Walking through a body call by call: the events so far move into the relation.\<close>

lemma yields_step_void: "yields (\<lambda>b u. Q b ((c, Void) # u)) (f ()) \<Longrightarrow> yields Q (State_Monad.bind (call_void c) f)"
  by (rule yields_bind [OF yields_call_void [of "\<lambda>r t. t = [(c, Void)]"]]) simp_all

lemma yields_step_num:
  "(\<And>r. yields (\<lambda>b u. Q b ((c, Num r) # u)) (f r)) \<Longrightarrow> yields Q (State_Monad.bind (call_num E c) f)"
  by (rule yields_bind [OF yields_call_num [of "\<lambda>r t. t = [(c, Num r)]"]]) simp_all

lemma yields_step_flag:
  "(\<And>r. yields (\<lambda>b u. Q b ((c, Flag r) # u)) (f r)) \<Longrightarrow> yields Q (State_Monad.bind (call_flag E c) f)"
  by (rule yields_bind [OF yields_call_flag [of "\<lambda>r t. t = [(c, Flag r)]"]]) simp_all

lemma yields_step_text:
  "(\<And>r. yields (\<lambda>b u. Q b ((c, Text r) # u)) (f r)) \<Longrightarrow> yields Q (State_Monad.bind (call_text E c) f)"
  by (rule yields_bind [OF yields_call_text [of "\<lambda>r t. t = [(c, Text r)]"]]) simp_all

lemma yields_step_if:
  "(b \<Longrightarrow> yields Q (State_Monad.bind m f)) \<Longrightarrow> (\<not> b \<Longrightarrow> yields Q (State_Monad.bind n f)) \<Longrightarrow>
     yields Q (State_Monad.bind (if b then m else n) f)"
  by simp

lemma yields_step_return: "yields Q (f a) \<Longrightarrow> yields Q (State_Monad.bind (State_Monad.return a) f)"
  by simp

lemma yields_step_assoc:
  "yields Q (State_Monad.bind m (\<lambda>a. State_Monad.bind (f a) g)) \<Longrightarrow> yields Q (State_Monad.bind (State_Monad.bind m f) g)"
  by simp

lemmas yields_steps = yields_step_void yields_step_num yields_step_flag yields_step_text yields_step_if
  yields_step_return yields_step_assoc yields_if yields_return


text \<open>A part of the body whose calls a filter drops.\<close>

lemma yields_quiet:
  assumes "emits (\<lambda>e. \<not> P e) m" and "\<And>a. yields (\<lambda>b u. Q b (filter P u)) (f a)"
  shows "yields (\<lambda>b u. Q b (filter P u)) (State_Monad.bind m f)"
proof (rule yields_bind [OF emits_yields [OF assms(1)]])
  fix t assume "list_all (\<lambda>e. \<not> P e) t"
  then have "filter P t = []" by (simp add: list_all_iff filter_empty_conv)
  then show "yields (\<lambda>b u. Q b (filter P (t @ u))) (f a)" for a using assms(2) by simp
qed


text \<open>What a function returns, whatever it appends.\<close>

named_theorems results_intros

definition results :: "('a \<Rightarrow> bool) \<Rightarrow> ('s, 'a) state \<Rightarrow> bool" where
  "results P m \<longleftrightarrow> (\<forall>s. P (fst (run_state m s)))"

lemma results_return [results_intros]: "P a \<Longrightarrow> results P (State_Monad.return a)"
  by (simp add: results_def)

lemma results_bind [results_intros]: "(\<And>a. results P (f a)) \<Longrightarrow> results P (State_Monad.bind m f)"
  by (simp add: results_def split_beta)

lemma results_if [results_intros]:
  "(b \<Longrightarrow> results P m) \<Longrightarrow> (\<not> b \<Longrightarrow> results P n) \<Longrightarrow> results P (if b then m else n)"
  by simp

lemma results_case_option [results_intros]:
  "(x = None \<Longrightarrow> results P m) \<Longrightarrow> (\<And>y. x = Some y \<Longrightarrow> results P (h y)) \<Longrightarrow>
     results P (case x of None \<Rightarrow> m | Some y \<Rightarrow> h y)"
  by (simp split: option.split)

lemma results_require [results_intros]: "P (Inl e) \<Longrightarrow> P (Inr ()) \<Longrightarrow> results P (require e m)"
  by (simp add: results_def require_def split_beta)

lemma results_or_return [results_intros]:
  "results (\<lambda>r. \<forall>e. r = Inl e \<longrightarrow> P (Inl e)) m \<Longrightarrow> (\<And>x. results P (f x)) \<Longrightarrow> results P (or_return m f)"
  by (auto simp: results_def or_return_def split_beta split: sum.split)

lemma results_returned [results_intros]:
  "results (\<lambda>r. P (case r of Inl e \<Rightarrow> e | Inr x \<Rightarrow> x)) m \<Longrightarrow> results P (returned m)"
  by (simp add: results_def returned_def split_beta)

lemma results_mono: "results P m \<Longrightarrow> (\<And>a. P a \<Longrightarrow> Q a) \<Longrightarrow> results Q m"
  by (simp add: results_def)

lemma yields_emits_results: "emits P m \<Longrightarrow> results Q m \<Longrightarrow> yields (\<lambda>a t. list_all P t \<and> Q a) m"
  by (simp add: yields_def emits_def results_def)


section \<open>Loops that may not end\<close>

text \<open>
  \<open>while (true) body\<close>, where the body tells whether to leave the loop and with what.  \<open>None\<close> is a loop
  that is never left.
\<close>

partial_function (option) repeat_op :: "('s, 'a option) state \<Rightarrow> 's \<Rightarrow> ('a \<times> 's) option" where
  "repeat_op m s = (case run_state m s of (r, s') \<Rightarrow>
     (case r of Some a \<Rightarrow> Some (a, s') | None \<Rightarrow> repeat_op m s'))"

text \<open>What holds before every round and leads to \<open>Q\<close> when the loop is left, gives \<open>Q\<close> after it.\<close>

lemma repeat_op_rule:
  assumes "repeat_op m s = Some (a, s')" and "P s"
    and next_round: "\<And>s s'. P s \<Longrightarrow> run_state m s = (None, s') \<Longrightarrow> P s'"
    and leave: "\<And>s a s'. P s \<Longrightarrow> run_state m s = (Some a, s') \<Longrightarrow> Q a s'"
  shows "Q a s'"
proof -
  have "P s \<longrightarrow> Q (fst x) (snd x)" if "repeat_op m s = Some x" for s x
  proof (rule repeat_op.raw_induct [where P = "\<lambda>m0 s x. m0 = m \<longrightarrow> P s \<longrightarrow> Q (fst x) (snd x)",
        THEN mp, OF _ that refl], goal_cases)
    case (1 f m0 s x)
    then show ?case
      by (auto split: prod.splits option.splits dest: next_round leave)
  qed
  from this [OF assms(1)] assms(2) show ?thesis by simp
qed

definition rounds :: "('s, 'a option) state \<Rightarrow> nat \<Rightarrow> 's \<Rightarrow> 's" where
  "rounds m n = (\<lambda>s. snd (run_state m s)) ^^ n"

lemma rounds_simps [simp]: "rounds m 0 s = s" "rounds m (Suc n) s = rounds m n (snd (run_state m s))"
  by (simp_all add: rounds_def funpow_Suc_right del: funpow.simps)

lemma repeat_op_ends: "repeat_op m s \<noteq> None \<longleftrightarrow> (\<exists>n. fst (run_state m (rounds m n s)) \<noteq> None)"
proof
  assume "repeat_op m s \<noteq> None"
  then obtain a s' where "repeat_op m s = Some (a, s')" by auto
  then show "\<exists>n. fst (run_state m (rounds m n s)) \<noteq> None"
  proof (rule repeat_op_rule [where P = "\<lambda>t. (\<exists>n. fst (run_state m (rounds m n t)) \<noteq> None) \<longrightarrow>
      (\<exists>n. fst (run_state m (rounds m n s)) \<noteq> None)"])
    fix t t' assume "(\<exists>n. fst (run_state m (rounds m n t)) \<noteq> None) \<longrightarrow> (\<exists>n. fst (run_state m (rounds m n s)) \<noteq> None)"
      and "run_state m t = (None, t')"
    then show "(\<exists>n. fst (run_state m (rounds m n t')) \<noteq> None) \<longrightarrow> (\<exists>n. fst (run_state m (rounds m n s)) \<noteq> None)"
      by (metis rounds_simps(2) snd_conv)
  next
    fix t a t' assume "(\<exists>n. fst (run_state m (rounds m n t)) \<noteq> None) \<longrightarrow> (\<exists>n. fst (run_state m (rounds m n s)) \<noteq> None)"
      and "run_state m t = (Some a, t')"
    then show "\<exists>n. fst (run_state m (rounds m n s)) \<noteq> None"
      by (metis rounds_simps(1) fst_conv option.discI)
  qed simp
next
  assume "\<exists>n. fst (run_state m (rounds m n s)) \<noteq> None"
  then obtain n where "fst (run_state m (rounds m n s)) \<noteq> None" ..
  then show "repeat_op m s \<noteq> None"
  proof (induction n arbitrary: s)
    case 0
    then show ?case by (subst repeat_op.simps) (auto split: prod.split)
  next
    case (Suc n)
    then show ?case by (subst repeat_op.simps) (auto split: prod.split option.split)
  qed
qed


lemma repeat_op_emits:
  assumes "repeat_op m s = Some (a, s')" and m: "emits P m"
  obtains t where "hist s' = hist s @ t" and "list_all P t"
proof -
  have step: "\<exists>t. hist v = hist s @ t \<and> list_all P t"
    if "\<exists>t. hist u = hist s @ t \<and> list_all P t" and run: "run_state m u = (r, v)" for u r v
  proof -
    from that(1) obtain t where t: "hist u = hist s @ t" "list_all P t" by auto
    obtain w where "hist v = hist u @ w" "list_all P w" by (rule emitsE [OF m run])
    with t have "hist v = hist s @ (t @ w) \<and> list_all P (t @ w)" by simp
    then show ?thesis by blast
  qed
  have "\<exists>t. hist s' = hist s @ t \<and> list_all P t"
    by (rule repeat_op_rule [where P = "\<lambda>u. \<exists>t. hist u = hist s @ t \<and> list_all P t", OF assms(1)])
      (auto intro: step)
  with that show thesis by blast
qed

end
