(* ===== verification/CText.thy ===== *)
theory CText
  imports Wahoo_Base "HOL-Library.Sublist"
begin

text \<open>
  The text functions of the C and C++ standard libraries that the services use, written out:
  \<open>printf("%d")\<close> and \<open>sscanf("%d")\<close>, the buffer of \<open>snprintf\<close>, \<open>std::string::find\<close> and
  \<open>substr\<close>, \<open>strtok\<close>, \<open>strchr\<close> truncation, C strings.  A string is the list of its bytes.

  The round trip "what \<open>printf\<close> printed is what \<open>sscanf\<close> reads" is stated once as the locale
  \<open>text_codec\<close>, which every component that stores numbers in a file interprets.
\<close>

section \<open>Characters\<close>

abbreviation NUL :: char where "NUL \<equiv> CHR 0x00"
abbreviation LF :: char where "LF \<equiv> CHR 0x0A"
abbreviation CR :: char where "CR \<equiv> CHR 0x0D"

definition isdigit :: "char \<Rightarrow> bool" where
  "isdigit c \<longleftrightarrow> 48 \<le> (of_char c :: nat) \<and> (of_char c :: nat) \<le> 57"

definition isspace :: "char \<Rightarrow> bool" where
  "isspace c \<longleftrightarrow> (of_char c :: nat) = 32 \<or> 9 \<le> (of_char c :: nat) \<and> (of_char c :: nat) \<le> 13"

definition digit_char :: "nat \<Rightarrow> char" where
  "digit_char d = char_of (48 + d)"

lemma of_digit_char [simp]: "d < 10 \<Longrightarrow> (of_char (digit_char d) :: nat) = 48 + d"
  by (simp add: digit_char_def)

lemma isdigit_digit_char [simp]: "d < 10 \<Longrightarrow> isdigit (digit_char d)"
  by (simp add: isdigit_def)

lemma isspace_not_isdigit: "isdigit c \<Longrightarrow> \<not> isspace c"
  by (auto simp: isdigit_def isspace_def)

text \<open>The bytes before the first NUL: a \<open>char*\<close> read as a C string.\<close>

definition c_str :: "string \<Rightarrow> string" where
  "c_str s = takeWhile (\<lambda>c. c \<noteq> NUL) s"

section \<open>Printing integers\<close>

fun print_nat :: "nat \<Rightarrow> string" where
  "print_nat n = (if n < 10 then [digit_char n] else print_nat (n div 10) @ [digit_char (n mod 10)])"

declare print_nat.simps [simp del]

definition print_int :: "int \<Rightarrow> string" where
  "print_int i = (if i < 0 then CHR ''-'' # print_nat (nat (- i)) else print_nat (nat i))"

text \<open>What \<open>snprintf\<close> leaves in a buffer of \<open>n\<close> bytes: the text, cut to make room for the NUL.\<close>

definition snprintf_buf :: "nat \<Rightarrow> string \<Rightarrow> string" where
  "snprintf_buf n s = take (n - 1) s"

lemma snprintf_buf_fits: "length s < n \<Longrightarrow> snprintf_buf n s = s"
  by (simp add: snprintf_buf_def)

lemma print_nat_nonempty [simp]: "print_nat n \<noteq> []"
  by (subst print_nat.simps) simp

lemma print_nat_digits: "list_all isdigit (print_nat n)"
proof (induction n rule: print_nat.induct)
  case (1 n)
  then show ?case by (subst print_nat.simps) (auto simp: list_all_iff)
qed

lemma print_nat_length: "n < 10 ^ k \<Longrightarrow> 0 < k \<Longrightarrow> length (print_nat n) \<le> k"
proof (induction n arbitrary: k rule: print_nat.induct)
  case (1 n)
  show ?case
  proof (cases "n < 10")
    case True
    with "1.prems" show ?thesis by (subst print_nat.simps) auto
  next
    case False
    with "1.prems" obtain j where k: "k = Suc j" and j: "0 < j"
      by (cases k; cases "k - 1") auto
    from "1.prems" k have "n div 10 < 10 ^ j" by auto
    with False j "1.IH" have "length (print_nat (n div 10)) \<le> j" by blast
    with False k show ?thesis by (subst print_nat.simps) auto
  qed
qed

text \<open>A 32-bit \<open>int\<close> prints in at most 11 bytes.\<close>

definition int32 :: "int \<Rightarrow> bool" where
  "int32 i \<longleftrightarrow> - (2 ^ 31) \<le> i \<and> i < 2 ^ 31"

lemma print_int_length: "int32 i \<Longrightarrow> length (print_int i) \<le> 11"
proof -
  assume i: "int32 i"
  have "nat (- i) < 10 ^ 10" and "nat i < 10 ^ 10"
    using i by (auto simp: int32_def)
  then have "length (print_nat (nat (- i))) \<le> 10" and "length (print_nat (nat i)) \<le> 10"
    by (simp_all add: print_nat_length)
  then show ?thesis by (simp add: print_int_def)
qed

section \<open>Scanning integers\<close>

definition digits_val :: "string \<Rightarrow> nat" where
  "digits_val ds = foldl (\<lambda>n d. 10 * n + (of_char d - 48)) 0 ds"

text \<open>
  One \<open>%d\<close> of \<open>sscanf\<close>: skip white space, an optional sign, at least one digit.  \<open>None\<close> is a
  matching failure; otherwise the value and the rest of the input.
\<close>

definition scan_int :: "string \<Rightarrow> (int \<times> string) option" where
  "scan_int s =
     (let s1 = dropWhile isspace s;
          neg = (s1 \<noteq> [] \<and> hd s1 = CHR ''-'');
          s2 = (if s1 \<noteq> [] \<and> (hd s1 = CHR ''-'' \<or> hd s1 = CHR ''+'') then tl s1 else s1);
          ds = takeWhile isdigit s2
      in if ds = [] then None
         else Some (if neg then - int (digits_val ds) else int (digits_val ds), dropWhile isdigit s2))"

text \<open>The conversions of \<open>sscanf(s, "%d %d ... %d", ...)\<close> that succeed, in order, at most \<open>n\<close>.\<close>

fun scan_ints :: "nat \<Rightarrow> string \<Rightarrow> int list" where
  "scan_ints 0 s = []"
| "scan_ints (Suc n) s =
     (case scan_int s of None \<Rightarrow> [] | Some (i, rest) \<Rightarrow> i # scan_ints n rest)"

text \<open>
  The value \<open>%d\<close> stores: a number that does not fit an \<open>int\<close> is undefined behaviour of the
  standard, so which 32 bits are stored then is the parameter \<open>ovf\<close>.
\<close>

definition stored_int :: "(int \<Rightarrow> 32 word) \<Rightarrow> int \<Rightarrow> int" where
  "stored_int ovf i = (if int32 i then i else sint (ovf i))"

lemma stored_int_fits [simp]: "int32 i \<Longrightarrow> stored_int ovf i = i"
  by (simp add: stored_int_def)

lemma int32_stored [simp]: "int32 (stored_int ovf i)"
  using sint_greater_eq [of "ovf i"] sint_lt [of "ovf i"] by (simp add: stored_int_def int32_def)

lemma digits_val_snoc: "digits_val (ds @ [d]) = 10 * digits_val ds + (of_char d - 48)"
  by (simp add: digits_val_def)

lemma digits_val_print: "digits_val (print_nat n) = n"
proof (induction n rule: print_nat.induct)
  case (1 n)
  show ?case
  proof (cases "n < 10")
    case True
    then have "print_nat n = [digit_char n]" by (subst print_nat.simps) simp
    with True show ?thesis by (simp add: digits_val_def)
  next
    case False
    then have "print_nat n = print_nat (n div 10) @ [digit_char (n mod 10)]"
      by (subst print_nat.simps) simp
    with False "1.IH" show ?thesis by (simp add: digits_val_snoc)
  qed
qed

lemma takeWhile_dropWhile_all:
  "list_all P xs \<Longrightarrow> ys = [] \<or> \<not> P (hd ys) \<Longrightarrow>
     takeWhile P (xs @ ys) = xs \<and> dropWhile P (xs @ ys) = ys"
  by (induction xs) (cases ys; auto)+

lemma scan_print_nat:
  assumes "rest = [] \<or> \<not> isdigit (hd rest)"
  shows "scan_int (print_nat n @ rest) = Some (int n, rest)"
proof -
  obtain d ds where ds: "print_nat n = d # ds"
    by (cases "print_nat n") auto
  from ds print_nat_digits [of n] have d: "isdigit d" by simp
  then have "\<not> isspace d" and "d \<noteq> CHR ''-''" and "d \<noteq> CHR ''+''"
    by (auto simp: isspace_not_isdigit isdigit_def)
  moreover note takeWhile_dropWhile_all [OF print_nat_digits [of n] assms]
  ultimately show ?thesis
    using ds digits_val_print [of n] by (simp add: scan_int_def Let_def)
qed

lemma scan_print_neg:
  assumes "rest = [] \<or> \<not> isdigit (hd rest)"
  shows "scan_int (CHR ''-'' # print_nat n @ rest) = Some (- int n, rest)"
  using takeWhile_dropWhile_all [OF print_nat_digits [of n] assms] digits_val_print [of n]
  by (simp add: scan_int_def Let_def isspace_def)

lemma scan_print_int:
  "rest = [] \<or> \<not> isdigit (hd rest) \<Longrightarrow> scan_int (print_int i @ rest) = Some (i, rest)"
  by (simp add: print_int_def scan_print_nat scan_print_neg)

lemma scan_int_space: "isspace c \<Longrightarrow> scan_int (c # s) = scan_int s"
  by (simp add: scan_int_def)

text \<open>The text \<open>"%d %d ... %d"\<close>: the numbers separated by one blank.\<close>

fun print_ints :: "int list \<Rightarrow> string" where
  "print_ints [] = []"
| "print_ints [i] = print_int i"
| "print_ints (i # j # is) = print_int i @ CHR '' '' # print_ints (j # is)"

lemma isspace_blank [simp]: "isspace (CHR '' '')" and isdigit_blank [simp]: "\<not> isdigit (CHR '' '')"
  by (simp_all add: isspace_def isdigit_def)

lemma scan_print_ints: "scan_ints (length is) (print_ints is) = is"
proof (induction "is" rule: print_ints.induct)
  case (2 i)
  then show ?case using scan_print_int [of "[]" i] by simp
next
  case (3 i j "is")
  have skip: "scan_ints (Suc n) (CHR '' '' # s) = scan_ints (Suc n) s" for n s
    by (simp add: scan_int_space)
  have "scan_int (print_ints (i # j # is)) = Some (i, CHR '' '' # print_ints (j # is))"
    using scan_print_int [of "CHR '' '' # print_ints (j # is)" i] by simp
  then have "scan_ints (Suc (Suc (length is))) (print_ints (i # j # is))
      = i # scan_ints (Suc (length is)) (CHR '' '' # print_ints (j # is))"
    by (simp only: scan_ints.simps(2) [of "Suc (length is)" "print_ints (i # j # is)"]
        option.case prod.case)
  with 3 show ?case by (simp only: skip list.size add_Suc_right add_0_right)
qed simp

lemma print_ints_length:
  "list_all int32 is \<Longrightarrow> length (print_ints is) \<le> 12 * length is"
  by (induction "is" rule: print_ints.induct) (auto dest!: print_int_length)

lemma print_int_printable: "list_all (\<lambda>c. isdigit c \<or> c = CHR ''-'') (print_int i)"
  using print_nat_digits by (auto simp: print_int_def list_all_iff)

section \<open>Stream extraction\<close>

text \<open>\<open>ss >> x\<close> for a 64-bit \<open>x\<close> with value \<open>old\<close>; \<open>None\<close> is a stream in a failed state.\<close>

definition extract_u64 :: "64 word \<Rightarrow> string option \<Rightarrow> 64 word \<times> string option" where
  "extract_u64 old ss =
     (case ss of
        None \<Rightarrow> (old, None)
      | Some s \<Rightarrow>
          let s1 = dropWhile isspace s;
              neg = (s1 \<noteq> [] \<and> hd s1 = CHR ''-'');
              s2 = (if s1 \<noteq> [] \<and> (hd s1 = CHR ''-'' \<or> hd s1 = CHR ''+'') then tl s1 else s1);
              ds = takeWhile isdigit s2;
              v = digits_val ds
          in if s1 = [] then (old, None)
             else if ds = [] then (0, None)
             else if v \<ge> 2 ^ 64 then (-1, None)
             else (if neg then - of_nat v else of_nat v, Some (dropWhile isdigit s2)))"

section \<open>Searching and splitting\<close>

text \<open>\<open>std::string::find\<close> and \<open>strstr\<close>: the position of the first occurrence.\<close>

fun find_sub :: "string \<Rightarrow> string \<Rightarrow> nat option" where
  "find_sub needle [] = (if needle = [] then Some 0 else None)"
| "find_sub needle (c # cs) =
     (if prefix needle (c # cs) then Some 0 else map_option Suc (find_sub needle cs))"

definition contains :: "string \<Rightarrow> string \<Rightarrow> bool" where
  "contains s needle \<longleftrightarrow> find_sub needle s \<noteq> None"

text \<open>\<open>strtok(s, delims)\<close>: skip delimiters, then the bytes up to the next one; \<open>NULL\<close> if none is left.\<close>

definition strtok_first :: "char list \<Rightarrow> string \<Rightarrow> string option" where
  "strtok_first delims s =
     (let t = dropWhile (\<lambda>c. c \<in> set delims) s
      in if t = [] then None else Some (takeWhile (\<lambda>c. c \<notin> set delims) t))"

text \<open>All the tokens that repeated calls of \<open>strtok\<close> return.\<close>

function strtok_all :: "char list \<Rightarrow> string \<Rightarrow> string list" where
  "strtok_all delims s =
     (let t = dropWhile (\<lambda>c. c \<in> set delims) s
      in if t = [] then []
         else takeWhile (\<lambda>c. c \<notin> set delims) t #
              strtok_all delims (dropWhile (\<lambda>c. c \<notin> set delims) t))"
  by pat_completeness auto
termination
proof (relation "measure (\<lambda>(d, s). length s)", goal_cases)
  case (2 delims s t)
  then have t: "t = dropWhile (\<lambda>c. c \<in> set delims) s" and "t \<noteq> []" by simp_all
  then have "hd t \<notin> set delims" by (metis hd_dropWhile)
  with \<open>t \<noteq> []\<close> have "length (dropWhile (\<lambda>c. c \<notin> set delims) t) < length t"
    by (cases t) (auto simp: le_imp_less_Suc length_dropWhile_le)
  moreover have "length t \<le> length s" by (simp add: t length_dropWhile_le)
  ultimately show ?case by simp
qed simp

declare strtok_all.simps [simp del]

lemma find_sub_char_none: "c \<notin> set s \<Longrightarrow> find_sub [c] s = None"
  by (induction s) auto

lemma find_sub_char_some: "c \<notin> set a \<Longrightarrow> find_sub [c] (a @ c # b) = Some (length a)"
  by (induction a) auto

section \<open>Numbers stored as text\<close>

text \<open>
  A value that a component prints into a buffer of \<open>size\<close> bytes, writes to a file and later loads
  over an old value.  The provider promises that loading the printed text gives the value back and
  that the text of a valid value fits the buffer; the client learns that storing loses nothing.
\<close>

locale text_codec =
  fixes print_val :: "'v \<Rightarrow> string"
    and load_val :: "string \<Rightarrow> 'v \<Rightarrow> 'v"
    and valid :: "'v \<Rightarrow> bool"
    and buflen :: nat
  assumes load_print: "valid v \<Longrightarrow> valid old \<Longrightarrow> load_val (print_val v) old = v"
    and print_fits: "valid v \<Longrightarrow> length (print_val v) < buflen"
begin

lemma buffer_complete: "valid v \<Longrightarrow> snprintf_buf buflen (print_val v) = print_val v"
  by (simp add: print_fits snprintf_buf_fits)

lemma store_load: "valid v \<Longrightarrow> valid old \<Longrightarrow> load_val (snprintf_buf buflen (print_val v)) old = v"
  by (simp add: buffer_complete load_print)

lemma print_inj: "valid v \<Longrightarrow> valid w \<Longrightarrow> print_val v = print_val w \<Longrightarrow> v = w"
  by (metis load_print)

end

end
