(* ===== verification/GadgetIds.thy ===== *)
theory GadgetIds
  imports CText
begin

text \<open>
  \<open>usb/UsbGadget.cpp\<close>, first part: the node paths, the calls the gadget service makes, the vendor
  functions of the build (\<open>getVendorFunctions\<close>) and the choice of the USB vendor and product id
  (\<open>setVidPid\<close>, \<open>validateAndSetVidPid\<close>).

  The bit of each gadget function is a constant of the HIDL interface, which is generated and not
  in the repository: the record \<open>gadget_functions\<close> is a parameter.  The abstract specification is a
  table of rows (functions, vendor profile, vendor id, product id); the code is proved to be the
  lookup in that table, and the table to give every configuration its own ids.
\<close>

unbundle bit_operations_syntax

section \<open>Paths, properties, statuses and calls\<close>

definition BUILD_TYPE :: string where "BUILD_TYPE = ''ro.build.type''"
definition GADGET_PATH :: string where "GADGET_PATH = ''/config/usb_gadget/g1/''"
definition PULLUP_PATH :: string where "PULLUP_PATH = GADGET_PATH @ ''UDC''"
definition GADGET_NAME :: string where "GADGET_NAME = ''a800000.dwc3''"
definition PERSISTENT_BOOT_MODE :: string where "PERSISTENT_BOOT_MODE = ''ro.bootmode''"
definition VENDOR_ID_PATH :: string where "VENDOR_ID_PATH = GADGET_PATH @ ''idVendor''"
definition PRODUCT_ID_PATH :: string where "PRODUCT_ID_PATH = GADGET_PATH @ ''idProduct''"
definition DEVICE_CLASS_PATH :: string where "DEVICE_CLASS_PATH = GADGET_PATH @ ''bDeviceClass''"
definition DEVICE_SUB_CLASS_PATH :: string where
  "DEVICE_SUB_CLASS_PATH = GADGET_PATH @ ''bDeviceSubClass''"
definition DEVICE_PROTOCOL_PATH :: string where
  "DEVICE_PROTOCOL_PATH = GADGET_PATH @ ''bDeviceProtocol''"
definition DESC_USE_PATH :: string where "DESC_USE_PATH = GADGET_PATH @ ''os_desc/use''"
definition OS_DESC_PATH :: string where "OS_DESC_PATH = GADGET_PATH @ ''os_desc/b.1''"
definition CONFIG_PATH :: string where "CONFIG_PATH = GADGET_PATH @ ''configs/b.1/''"
definition FUNCTIONS_PATH :: string where "FUNCTIONS_PATH = GADGET_PATH @ ''functions/''"
definition FUNCTION_NAME :: string where "FUNCTION_NAME = ''function''"
definition FUNCTION_PATH :: string where "FUNCTION_PATH = CONFIG_PATH @ FUNCTION_NAME"
definition PERSISTENT_VENDOR_CONFIG :: string where
  "PERSISTENT_VENDOR_CONFIG = ''persist.vendor.usb.usbradio.config''"
definition VENDOR_CONFIG :: string where "VENDOR_CONFIG = ''vendor.usb.config''"

lemmas gadget_paths = GADGET_PATH_def PULLUP_PATH_def VENDOR_ID_PATH_def PRODUCT_ID_PATH_def
  DEVICE_CLASS_PATH_def DEVICE_SUB_CLASS_PATH_def DEVICE_PROTOCOL_PATH_def DESC_USE_PATH_def
  OS_DESC_PATH_def CONFIG_PATH_def FUNCTIONS_PATH_def FUNCTION_NAME_def FUNCTION_PATH_def

datatype gadget_status =
    SUCCESS
  | ERROR
  | FUNCTIONS_APPLIED
  | FUNCTIONS_NOT_APPLIED
  | CONFIGURATION_NOT_SUPPORTED

text \<open>Everything the service asks of \<open>android-base\<close>, the C library, the kernel and its client.\<close>

datatype gadget_call =
    WriteStringToFile string string          \<comment> \<open>content, path\<close>
  | GetProperty string
  | SetProperty string string
  | Access string
  | Opendir string
  | Closedir string
  | Remove string
  | Symlink string string                    \<comment> \<open>target, link\<close>
  | Inotify_init
  | Inotify_add_watch int string
  | Eventfd
  | Epoll_create
  | Epoll_ctl_add int int
  | Close int
  | Write_event int "64 word"
  | Thread_create
  | Thread_join
  | Notify_all
  | Cv_wait_for "64 word"
  | Usleep nat
  | SetCurrentUsbFunctionsCb "64 word" gadget_status
  | GetCurrentUsbFunctionsCb "64 word" gadget_status

text \<open>The bits of \<open>V1_0::GadgetFunction\<close>, generated from the HIDL interface.\<close>

record gadget_functions =
  NONE :: "64 word"
  ADB :: "64 word"
  ACCESSORY :: "64 word"
  MTP :: "64 word"
  MIDI :: "64 word"
  PTP :: "64 word"
  RNDIS :: "64 word"
  AUDIO_SOURCE :: "64 word"

definition write_file ::
  "gadget_call env \<Rightarrow> string \<Rightarrow> string \<Rightarrow> ((gadget_call, 'm) world_scheme, bool) state" where
  "write_file E content path = call_flag E (WriteStringToFile content path)"

definition get_property ::
  "gadget_call env \<Rightarrow> string \<Rightarrow> ((gadget_call, 'm) world_scheme, string) state" where
  "get_property E key =
     do { v \<leftarrow> call_text E (GetProperty key); ret (case v of None \<Rightarrow> [] | Some s \<Rightarrow> s) }"

section \<open>Vendor functions\<close>

definition getVendorFunctions :: "gadget_call env \<Rightarrow> ((gadget_call, 'm) world_scheme, string) state" where
  "getVendorFunctions E = do {
     build \<leftarrow> get_property E BUILD_TYPE;
     if build = ''user'' then ret ''user''
     else do {
       bootMode \<leftarrow> get_property E PERSISTENT_BOOT_MODE;
       persistVendorFunctions \<leftarrow> get_property E PERSISTENT_VENDOR_CONFIG;
       vendorFunctions \<leftarrow> get_property E VENDOR_CONFIG;
       if vendorFunctions \<noteq> [] then ret vendorFunctions
       else if bootMode = ''usbradio'' then do {
         let r = (if persistVendorFunctions \<noteq> [] then persistVendorFunctions else ''diag'');
         call_void (SetProperty VENDOR_CONFIG r);
         ret r
       }
       else ret []
     }
   }"

section \<open>Vendor and product id\<close>

definition setVidPid ::
  "gadget_call env \<Rightarrow> string \<Rightarrow> string \<Rightarrow> ((gadget_call, 'm) world_scheme, gadget_status) state" where
  "setVidPid E vid pid = returned (
     or_return (require ERROR (write_file E vid VENDOR_ID_PATH)) (\<lambda>_.
     or_return (require ERROR (write_file E pid PRODUCT_ID_PATH)) (\<lambda>_.
     ret (Inr SUCCESS))))"

text \<open>The branch of a case that accepts no vendor functions but \<open>user\<close> or none.\<close>

definition user_ids ::
  "gadget_call env \<Rightarrow> string \<Rightarrow> string \<Rightarrow> string \<Rightarrow> ((gadget_call, 'm) world_scheme, gadget_status) state"
  where
  "user_ids E vf vid pid =
     (if \<not> (vf = ''user'' \<or> vf = []) then ret CONFIGURATION_NOT_SUPPORTED else setVidPid E vid pid)"

definition validateAndSetVidPid ::
  "gadget_functions \<Rightarrow> gadget_call env \<Rightarrow> 64 word \<Rightarrow>
     ((gadget_call, 'm) world_scheme, gadget_status) state" where
  "validateAndSetVidPid K E functions = do {
     vf \<leftarrow> getVendorFunctions E;
     if functions = MTP K then
       (if vf = ''diag'' then setVidPid E ''0x05C6'' ''0x901B''
        else user_ids E vf ''0x18d1'' ''0x4ee1'')
     else if functions = ADB K OR MTP K then
       (if vf = ''diag'' then setVidPid E ''0x05C6'' ''0x903A''
        else user_ids E vf ''0x18d1'' ''0x4ee2'')
     else if functions = RNDIS K then
       (if vf = ''diag'' then setVidPid E ''0x05C6'' ''0x902C''
        else if vf = ''serial_cdev,diag'' then setVidPid E ''0x05C6'' ''0x90B5''
        else user_ids E vf ''0x18d1'' ''0x4ee3'')
     else if functions = ADB K OR RNDIS K then
       (if vf = ''diag'' then setVidPid E ''0x05C6'' ''0x902D''
        else if vf = ''serial_cdev,diag'' then setVidPid E ''0x05C6'' ''0x90B6''
        else user_ids E vf ''0x18d1'' ''0x4ee4'')
     else if functions = PTP K then user_ids E vf ''0x18d1'' ''0x4ee5''
     else if functions = ADB K OR PTP K then user_ids E vf ''0x18d1'' ''0x4ee6''
     else if functions = ADB K then
       (if vf = ''diag'' then setVidPid E ''0x05C6'' ''0x901D''
        else if vf = ''diag,serial_cdev,rmnet_gsi'' then setVidPid E ''0x05C6'' ''0x9091''
        else if vf = ''diag,serial_cdev'' then setVidPid E ''0x05C6'' ''0x901F''
        else user_ids E vf ''0x18d1'' ''0x4ee7'')
     else if functions = MIDI K then user_ids E vf ''0x18d1'' ''0x4ee8''
     else if functions = ADB K OR MIDI K then user_ids E vf ''0x18d1'' ''0x4ee9''
     else if functions = ACCESSORY K then setVidPid E ''0x18d1'' ''0x2d00''
     else if functions = ADB K OR ACCESSORY K then setVidPid E ''0x18d1'' ''0x2d01''
     else if functions = AUDIO_SOURCE K then setVidPid E ''0x18d1'' ''0x2d02''
     else if functions = ADB K OR AUDIO_SOURCE K then setVidPid E ''0x18d1'' ''0x2d03''
     else if functions = ACCESSORY K OR AUDIO_SOURCE K then setVidPid E ''0x18d1'' ''0x2d04''
     else if functions = ADB K OR ACCESSORY K OR AUDIO_SOURCE K then setVidPid E ''0x18d1'' ''0x2d05''
     else ret CONFIGURATION_NOT_SUPPORTED
   }"

section \<open>The specification: a table of configurations\<close>

datatype gfn = F_ADB | F_ACCESSORY | F_MTP | F_MIDI | F_PTP | F_RNDIS | F_AUDIO_SOURCE

primrec bit_of :: "gadget_functions \<Rightarrow> gfn \<Rightarrow> 64 word" where
  "bit_of K F_ADB = ADB K"
| "bit_of K F_ACCESSORY = ACCESSORY K"
| "bit_of K F_MTP = MTP K"
| "bit_of K F_MIDI = MIDI K"
| "bit_of K F_PTP = PTP K"
| "bit_of K F_RNDIS = RNDIS K"
| "bit_of K F_AUDIO_SOURCE = AUDIO_SOURCE K"

text \<open>The bit mask of a set of functions, listed in any order.\<close>

definition mask_of :: "gadget_functions \<Rightarrow> gfn list \<Rightarrow> 64 word" where
  "mask_of K fs = fold (\<lambda>f w. w OR bit_of K f) fs 0"

text \<open>
  A row: the functions, the vendor profile it needs (\<open>None\<close>: any), and the ids.  The profile of a
  device is its vendor functions, with none counted as \<open>user\<close>.
\<close>

definition supported :: "(gfn list \<times> (string option \<times> (string \<times> string)) list) list" where
  "supported =
    [([F_MTP], [(Some ''diag'', (''0x05C6'', ''0x901B'')), (Some ''user'', (''0x18d1'', ''0x4ee1''))]),
     ([F_ADB, F_MTP],
       [(Some ''diag'', (''0x05C6'', ''0x903A'')), (Some ''user'', (''0x18d1'', ''0x4ee2''))]),
     ([F_RNDIS],
       [(Some ''diag'', (''0x05C6'', ''0x902C'')), (Some ''serial_cdev,diag'', (''0x05C6'', ''0x90B5'')),
        (Some ''user'', (''0x18d1'', ''0x4ee3''))]),
     ([F_ADB, F_RNDIS],
       [(Some ''diag'', (''0x05C6'', ''0x902D'')), (Some ''serial_cdev,diag'', (''0x05C6'', ''0x90B6'')),
        (Some ''user'', (''0x18d1'', ''0x4ee4''))]),
     ([F_PTP], [(Some ''user'', (''0x18d1'', ''0x4ee5''))]),
     ([F_ADB, F_PTP], [(Some ''user'', (''0x18d1'', ''0x4ee6''))]),
     ([F_ADB],
       [(Some ''diag'', (''0x05C6'', ''0x901D'')),
        (Some ''diag,serial_cdev,rmnet_gsi'', (''0x05C6'', ''0x9091'')),
        (Some ''diag,serial_cdev'', (''0x05C6'', ''0x901F'')), (Some ''user'', (''0x18d1'', ''0x4ee7''))]),
     ([F_MIDI], [(Some ''user'', (''0x18d1'', ''0x4ee8''))]),
     ([F_ADB, F_MIDI], [(Some ''user'', (''0x18d1'', ''0x4ee9''))]),
     ([F_ACCESSORY], [(None, (''0x18d1'', ''0x2d00''))]),
     ([F_ADB, F_ACCESSORY], [(None, (''0x18d1'', ''0x2d01''))]),
     ([F_AUDIO_SOURCE], [(None, (''0x18d1'', ''0x2d02''))]),
     ([F_ADB, F_AUDIO_SOURCE], [(None, (''0x18d1'', ''0x2d03''))]),
     ([F_ACCESSORY, F_AUDIO_SOURCE], [(None, (''0x18d1'', ''0x2d04''))]),
     ([F_ADB, F_ACCESSORY, F_AUDIO_SOURCE], [(None, (''0x18d1'', ''0x2d05''))])]"

definition profile :: "string \<Rightarrow> string" where
  "profile vf = (if vf = [] then ''user'' else vf)"

fun row_ids :: "string \<Rightarrow> (string option \<times> (string \<times> string)) list \<Rightarrow> (string \<times> string) option" where
  "row_ids p [] = None"
| "row_ids p ((v, ids) # rows) = (if v = None \<or> v = Some p then Some ids else row_ids p rows)"

fun find_row ::
  "gadget_functions \<Rightarrow> 64 word \<Rightarrow> (gfn list \<times> 'r) list \<Rightarrow> (gfn list \<times> 'r) option" where
  "find_row K functions [] = None"
| "find_row K functions ((fs, r) # rows) =
     (if functions = mask_of K fs then Some (fs, r) else find_row K functions rows)"

definition usb_ids :: "gadget_functions \<Rightarrow> 64 word \<Rightarrow> string \<Rightarrow> (string \<times> string) option" where
  "usb_ids K functions vf =
     (case find_row K functions supported of None \<Rightarrow> None | Some (_, r) \<Rightarrow> row_ids (profile vf) r)"

lemma profile_user: "''user'' = profile vf \<longleftrightarrow> vf = ''user'' \<or> vf = []"
  and profile_other:
    "''diag'' = profile vf \<longleftrightarrow> vf = ''diag''"
    "''serial_cdev,diag'' = profile vf \<longleftrightarrow> vf = ''serial_cdev,diag''"
    "''diag,serial_cdev'' = profile vf \<longleftrightarrow> vf = ''diag,serial_cdev''"
    "''diag,serial_cdev,rmnet_gsi'' = profile vf \<longleftrightarrow> vf = ''diag,serial_cdev,rmnet_gsi''"
  by (auto simp: profile_def)

text \<open>Writing the ids a lookup found, pushed through the table row by row.\<close>

definition write_ids ::
  "gadget_call env \<Rightarrow> (string \<times> string) option \<Rightarrow> ((gadget_call, 'm) world_scheme, gadget_status) state"
  where
  "write_ids E ids =
     (case ids of None \<Rightarrow> ret CONFIGURATION_NOT_SUPPORTED | Some (vid, pid) \<Rightarrow> setVidPid E vid pid)"

definition row_of :: "string \<Rightarrow> (gfn list \<times> (string option \<times> string \<times> string) list) option \<Rightarrow>
    (string \<times> string) option" where
  "row_of vf r = (case r of None \<Rightarrow> None | Some (_, r) \<Rightarrow> row_ids (profile vf) r)"

lemma write_ids_rows:
  "write_ids E (row_of vf (find_row K functions [])) = ret CONFIGURATION_NOT_SUPPORTED"
  "write_ids E (row_of vf (find_row K functions ((fs, r) # rows))) =
     (if functions = mask_of K fs then write_ids E (row_ids (profile vf) r)
      else write_ids E (row_of vf (find_row K functions rows)))"
  "write_ids E (row_ids p []) = ret CONFIGURATION_NOT_SUPPORTED"
  "write_ids E (row_ids p ((Some v, (vid, pid)) # r)) =
     (if v = p then setVidPid E vid pid else write_ids E (row_ids p r))"
  "write_ids E (row_ids p ((None, (vid, pid)) # r)) = setVidPid E vid pid"
  by (simp_all add: write_ids_def row_of_def)

lemma mask_of_list:
  "mask_of K [f] = bit_of K f"
  "mask_of K [f, g] = (bit_of K f OR bit_of K g)"
  "mask_of K [f, g, h] = (bit_of K f OR bit_of K g OR bit_of K h)"
  by (simp_all add: mask_of_def or.assoc)

lemma user_ids_eq:
  "user_ids E vf vid pid =
     (if vf = ''user'' \<or> vf = [] then setVidPid E vid pid else ret CONFIGURATION_NOT_SUPPORTED)"
  by (simp add: user_ids_def)

lemma usb_ids_row_of: "usb_ids K functions vf = row_of vf (find_row K functions supported)"
  by (simp add: usb_ids_def row_of_def)

text \<open>
  C1. \<open>validateAndSetVidPid\<close> implements the table: it asks for the vendor functions once, looks the
  requested mask and the vendor profile up, and either reports \<open>CONFIGURATION_NOT_SUPPORTED\<close>
  without touching a node or writes exactly the row's vendor id and product id.
\<close>

theorem validate_refines_table:
  "validateAndSetVidPid K E functions =
     do { vf \<leftarrow> getVendorFunctions E;
          case usb_ids K functions vf of
            None \<Rightarrow> ret CONFIGURATION_NOT_SUPPORTED
          | Some (vid, pid) \<Rightarrow> setVidPid E vid pid }"
  unfolding validateAndSetVidPid_def user_ids_eq usb_ids_row_of supported_def
    write_ids_def [symmetric]
  by (simp only: write_ids_rows mask_of_list bit_of.simps profile_user profile_other)

text \<open>Concrete bits, as a generated interface gives them: the witnesses use these.\<close>

definition sample_bits :: gadget_functions where
  "sample_bits = \<lparr>NONE = 0, ADB = 1, ACCESSORY = 2, MTP = 4, MIDI = 8, PTP = 16, RNDIS = 32,
     AUDIO_SOURCE = 64\<rparr>"

section \<open>Every configuration has its own ids\<close>

lemma find_row_Some:
  "find_row K functions rows = Some (fs, r) \<Longrightarrow> functions = mask_of K fs \<and> (fs, r) \<in> set rows"
  by (induction rows) (auto split: if_splits)

lemma row_ids_Some:
  "row_ids p r = Some ids \<Longrightarrow> \<exists>v. (v, ids) \<in> set r \<and> (v = None \<or> v = Some p)"
  by (induction r) (auto split: if_splits)

lemma supported_rows_disjoint:
  "list_all (\<lambda>(fs, r). list_all (\<lambda>(fs', r'). fs = fs' \<and> r = r' \<or>
      list_all (\<lambda>(v, i). list_all (\<lambda>(v', i'). i \<noteq> i') r') r) supported) supported"
  by code_simp

lemma supported_rows_distinct:
  "list_all (\<lambda>(fs, r). length r = 1 \<or> distinct (map snd r) \<and> list_all (\<lambda>(v, i). v \<noteq> None) r) supported"
  by code_simp

lemma same_row:
  assumes "(fs, r) \<in> set supported" "(fs', r') \<in> set supported" "(v, ids) \<in> set r" "(v', ids) \<in> set r'"
  shows "fs = fs' \<and> r = r'"
  using supported_rows_disjoint assms unfolding list_all_iff by fast

text \<open>
  The ids identify the configuration: when two requests are answered with the same vendor and
  product id, they are for the same functions, and for the same vendor profile unless the
  configuration is offered under every profile.
\<close>

theorem usb_ids_identify:
  assumes "usb_ids K functions vf = Some ids" and "usb_ids K functions' vf' = Some ids"
  shows "functions = functions' \<and>
    (profile vf = profile vf' \<or> (\<forall>any. usb_ids K functions any = Some ids))"
proof -
  from assms obtain fs r fs' r' where
    row: "find_row K functions supported = Some (fs, r)" "row_ids (profile vf) r = Some ids" and
    row': "find_row K functions' supported = Some (fs', r')" "row_ids (profile vf') r' = Some ids"
    by (auto simp: usb_ids_def split: option.splits)
  obtain v v' where v: "(v, ids) \<in> set r" "v = None \<or> v = Some (profile vf)"
    and v': "(v', ids) \<in> set r'" "v' = None \<or> v' = Some (profile vf')"
    using row_ids_Some [OF row(2)] row_ids_Some [OF row'(2)] by blast
  note found = find_row_Some [OF row(1)] find_row_Some [OF row'(1)]
  then have same: "fs = fs'" "r = r'" using same_row v(1) v'(1) by blast+
  have one: "length r = 1 \<or> distinct (map snd r) \<and> list_all (\<lambda>(v, i). v \<noteq> None) r"
    using supported_rows_distinct found(1) unfolding list_all_iff by fast
  have "profile vf = profile vf' \<or> (\<forall>p. row_ids p r = Some ids)"
  proof (cases "length r = 1")
    case True
    with v have "r = [(v, ids)]" by (auto simp: length_Suc_conv)
    then show ?thesis using v v' same by (cases ids) auto
  next
    case False
    with one have "inj_on snd (set r)" and "v \<noteq> None"
      using v by (auto simp: distinct_map list_all_iff)
    moreover from v' same have "(v', ids) \<in> set r" by simp
    moreover have "(v, ids) = (v', ids)"
      by (rule inj_onD [OF calculation(1) _ v(1) calculation(3)]) simp
    ultimately have "v = v'" and "v \<noteq> None" by simp_all
    then show ?thesis using v v' by auto
  qed
  then show ?thesis using found same row(1) by (auto simp: usb_ids_def)
qed

theorem usb_ids_identify_witness:
  "usb_ids sample_bits 4 ''diag'' = Some (''0x05C6'', ''0x901B'') \<and>
     usb_ids sample_bits 4 ''user'' = Some (''0x18d1'', ''0x4ee1'') \<and>
     usb_ids sample_bits 2 ''diag'' = usb_ids sample_bits 2 ''user''"
proof -
  have e: "usb_ids sample_bits 4 ''diag'' = Some (''0x05C6'', ''0x901B'')"
    and n: "usb_ids sample_bits 4 ''user'' = Some (''0x18d1'', ''0x4ee1'')"
    and f: "usb_ids sample_bits 2 ''user'' = Some (''0x18d1'', ''0x2d00'')"
    and g: "usb_ids sample_bits 2 ''diag'' = Some (''0x18d1'', ''0x2d00'')"
    and p: "profile ''diag'' \<noteq> profile ''user''" by code_simp+
  from usb_ids_identify [OF g f] p e n f show ?thesis by simp
qed

section \<open>The vendor functions are the same for both callers\<close>

text \<open>
  \<open>validateAndSetVidPid\<close> and \<open>setupFunctions\<close> each ask for the vendor functions.  The property
  service is not in the repository; what the code relies on is that a property reads as the last
  value set, or as \<open>boot k\<close> if it was not set since boot.
\<close>

fun property_value :: "(string \<Rightarrow> string) \<Rightarrow> gadget_call history \<Rightarrow> (string \<Rightarrow> string)" where
  "property_value boot [] = boot"
| "property_value boot (e # h) =
     property_value (case fst e of SetProperty k v \<Rightarrow> boot(k := v) | _ \<Rightarrow> boot) h"

definition property_store :: "gadget_call env \<Rightarrow> (string \<Rightarrow> string) \<Rightarrow> bool" where
  "property_store E boot \<longleftrightarrow> (\<forall>h k. e_text E h (GetProperty k) = Some (property_value boot h k))"

lemma property_value_append:
  "property_value boot (h @ h') = property_value (property_value boot h) h'"
  by (induction h arbitrary: boot) auto

definition vendor_value :: "(string \<Rightarrow> string) \<Rightarrow> string" where
  "vendor_value p =
     (if p BUILD_TYPE = ''user'' then ''user''
      else if p VENDOR_CONFIG \<noteq> [] then p VENDOR_CONFIG
      else if p PERSISTENT_BOOT_MODE = ''usbradio''
      then (if p PERSISTENT_VENDOR_CONFIG \<noteq> [] then p PERSISTENT_VENDOR_CONFIG else ''diag'')
      else [])"

lemma get_property_store:
  "property_store E boot \<Longrightarrow>
    wp (get_property E k) Q = (\<lambda>s. let v = property_value boot (hist s) k
      in Q v (s\<lparr>hist := hist s @ [(GetProperty k, Text (Some v))]\<rparr>))"
  by (simp add: get_property_def wp_rules property_store_def fun_eq_iff Let_def)

lemma getVendorFunctions_value:
  assumes "property_store E boot" and "run_state (getVendorFunctions E) s = (vf, s')"
  shows "vf = vendor_value (property_value boot (hist s))"
    and "vendor_value (property_value boot (hist s')) = vf"
proof -
  have "wp (getVendorFunctions E) (\<lambda>vf s'. vf = vendor_value (property_value boot (hist s)) \<and>
          vendor_value (property_value boot (hist s')) = vf) s"
    unfolding getVendorFunctions_def
    by (simp add: wp_rules get_property_store [OF assms(1)] property_value_append vendor_value_def Let_def
        BUILD_TYPE_def PERSISTENT_BOOT_MODE_def PERSISTENT_VENDOR_CONFIG_def VENDOR_CONFIG_def)
  from wpD [OF this assms(2)] show "vf = vendor_value (property_value boot (hist s))"
    and "vendor_value (property_value boot (hist s')) = vf" by simp_all
qed

text \<open>
  With a property service that returns what was last set, asking for the vendor functions a
  second time, after any calls that set no property, gives the same answer, also in the
  \<open>usbradio\<close> boot mode where the first call stores its choice.
\<close>

theorem vendor_functions_stable:
  assumes store: "property_store E boot"
    and first: "run_state (getVendorFunctions E) s = (vf, s1)"
    and between: "hist s2 = hist s1 @ t" "list_all (\<lambda>(c, a). \<forall>k v. c \<noteq> SetProperty k v) t"
    and again: "run_state (getVendorFunctions E) s2 = (vf', s3)"
  shows "vf' = vf"
proof -
  have quiet: "property_value p t = p" for p
    using between(2)
  proof (induction t arbitrary: p)
    case (Cons e t)
    then show ?case by (cases e; cases "fst e") auto
  qed simp
  have "property_value boot (hist s2) = property_value boot (hist s1)"
    by (simp add: between(1) property_value_append quiet)
  then show ?thesis
    using getVendorFunctions_value(1) [OF store again] getVendorFunctions_value(2) [OF store first]
    by simp
qed

definition sample_props :: "gadget_call env" where
  "sample_props = \<lparr>e_num = (\<lambda>_ _. 0), e_flag = (\<lambda>_ _. True),
     e_text = (\<lambda>h c. case c of GetProperty k \<Rightarrow>
       Some (property_value (\<lambda>k. if k = PERSISTENT_BOOT_MODE then ''usbradio'' else []) h k) | _ \<Rightarrow> None),
     e_entries = (\<lambda>_ _. None)\<rparr>"

theorem vendor_functions_stable_witness:
  "fst (run_state (getVendorFunctions sample_props) \<lparr>hist = []\<rparr>) = ''diag'' \<and>
   fst (run_state (getVendorFunctions sample_props)
     (snd (run_state (getVendorFunctions sample_props) \<lparr>hist = []\<rparr>))) = ''diag''"
proof -
  let ?s1 = "snd (run_state (getVendorFunctions sample_props) \<lparr>hist = []\<rparr>)"
  have store: "property_store sample_props (\<lambda>k. if k = PERSISTENT_BOOT_MODE then ''usbradio'' else [])"
    by (simp add: property_store_def sample_props_def)
  have one: "fst (run_state (getVendorFunctions sample_props) \<lparr>hist = []\<rparr>) = ''diag''" by code_simp
  have first: "run_state (getVendorFunctions sample_props) \<lparr>hist = []\<rparr> = (''diag'', ?s1)"
    using one by (simp add: prod_eq_iff)
  have "fst (run_state (getVendorFunctions sample_props) ?s1) = ''diag''"
    by (rule vendor_functions_stable [OF store first, where t = "[]"]) (simp_all add: prod_eq_iff)
  with one show ?thesis by simp
qed

end
