(* ===== verification/GadgetMonitor.thy ===== *)
theory GadgetMonitor
  imports GadgetIds
begin

text \<open>
  \<open>usb/UsbGadget.h\<close> and the monitor thread of \<open>usb/UsbGadget.cpp\<close>: the object's fields and
  \<open>monitorFfs\<close>, which waits until the user space process has written its FunctionFS descriptors and
  then pulls the gadget up.

  The thread is modelled by what it does for each result of \<open>epoll_wait\<close>: a list of events, each
  either the inotify descriptor being readable (with the lengths of the inotify records that
  \<open>read\<close> returned) or another descriptor, the event fd, with the value \<open>read\<close> left in \<open>flag\<close>.  A
  run of the thread is a list of such results; the empty list stands for an \<open>epoll_wait\<close> that
  returned no event or an error, after which the loop continues.
\<close>

section \<open>The gadget object\<close>

datatype monitor_pc = Absent | Created | Looping | Exited

record gadget = "gadget_call world" +
  mInotifyFd :: int
  mEventFd :: int
  mEpollFd :: int
  mMonitorCreated :: bool
  mEndpointList :: "string list"
  mCurrentUsbFunctions :: "64 word"
  mCurrentUsbFunctionsApplied :: bool
  gadgetPullup :: bool
  mon_pc :: monitor_pc      \<comment> \<open>where the thread of \<open>mMonitor\<close> is\<close>
  writeUdc :: bool          \<comment> \<open>local variable of the thread\<close>

type_synonym 'a gadget_op = "(gadget, 'a) state"

datatype ep_event =
    Inotify_readable "nat list"
  | Event_value "64 word"

text \<open>\<open>UsbGadget::UsbGadget\<close>; \<open>junk\<close> is the uninitialised \<open>mCurrentUsbFunctions\<close>.\<close>

definition new_gadget :: "64 word \<Rightarrow> gadget_call env \<Rightarrow> gadget" where
  "new_gadget junk E =
     snd (run_state (call_num E (Access OS_DESC_PATH))
       \<lparr>hist = [], mInotifyFd = -1, mEventFd = -1, mEpollFd = -1, mMonitorCreated = False,
        mEndpointList = [], mCurrentUsbFunctions = junk, mCurrentUsbFunctionsApplied = False,
        gadgetPullup = False, mon_pc = Absent, writeUdc = True\<rparr>)"

section \<open>The thread\<close>

text \<open>The loop over \<open>mEndpointList\<close>: every endpoint is readable; it stops at the first that is not.\<close>

fun endpoints_present :: "gadget_call env \<Rightarrow> string list \<Rightarrow> ((gadget_call, 'm) world_scheme, bool) state"
  where
  "endpoints_present E [] = ret True"
| "endpoints_present E (ep # eps) = do {
     r \<leftarrow> call_num E (Access ep);
     if r \<noteq> 0 then ret False else endpoints_present E eps
   }"

text \<open>The statements under \<open>lock_guard<mutex> lock(mLock)\<close> after a successful pull-up.\<close>

definition signal_pullup :: "unit gadget_op" where
  "signal_pullup = do {
     modify (\<lambda>g. g\<lparr>mCurrentUsbFunctionsApplied := True, gadgetPullup := True\<rparr>);
     call_void Notify_all
   }"

definition monitor_start :: "gadget_call env \<Rightarrow> unit gadget_op" where
  "monitor_start E = do {
     modify (\<lambda>g. g\<lparr>writeUdc := True, mon_pc := Looping\<rparr>);
     eps \<leftarrow> gets mEndpointList;
     descriptorWritten \<leftarrow> endpoints_present E eps;
     if descriptorWritten then do {
       ok \<leftarrow> write_file E GADGET_NAME PULLUP_PATH;
       if ok then signal_pullup else ret ()
     }
     else ret ()
   }"

text \<open>The body of the loop over the inotify records of one \<open>read\<close>.\<close>

definition monitor_record :: "gadget_call env \<Rightarrow> unit gadget_op" where
  "monitor_record E = do {
     eps \<leftarrow> gets mEndpointList;
     descriptorPresent \<leftarrow> endpoints_present E eps;
     w \<leftarrow> gets writeUdc;
     if \<not> descriptorPresent \<and> \<not> w then modify (\<lambda>g. g\<lparr>writeUdc := True\<rparr>)
     else if descriptorPresent \<and> w then do {
       ok \<leftarrow> write_file E GADGET_NAME PULLUP_PATH;
       if ok then do { modify (\<lambda>g. g\<lparr>writeUdc := False\<rparr>); signal_pullup } else ret ()
     }
     else ret ()
   }"

text \<open>
  One \<open>epoll_wait\<close> result; the value is \<open>stopMonitor\<close>, and the events after a stop are not looked
  at (\<open>break\<close>).
\<close>

fun monitor_batch :: "gadget_call env \<Rightarrow> ep_event list \<Rightarrow> bool gadget_op" where
  "monitor_batch E [] = ret False"
| "monitor_batch E (Inotify_readable records # evs) = do {
     for_each records (\<lambda>_. monitor_record E);
     monitor_batch E evs
   }"
| "monitor_batch E (Event_value flag # evs) =
     (if flag = 100 then ret True else monitor_batch E evs)"

text \<open>\<open>while (!stopMonitor)\<close> over the results of \<open>epoll_wait\<close>; the value tells whether it stopped.\<close>

fun monitor_loop :: "gadget_call env \<Rightarrow> ep_event list list \<Rightarrow> bool gadget_op" where
  "monitor_loop E [] = ret False"
| "monitor_loop E (evs # batches) = do {
     stop \<leftarrow> monitor_batch E evs;
     if stop then do { modify (\<lambda>g. g\<lparr>mon_pc := Exited\<rparr>); ret True }
     else monitor_loop E batches
   }"

text \<open>The thread runs on: from its first statement or from its loop, as far as the results go.\<close>

definition monitorFfs :: "gadget_call env \<Rightarrow> ep_event list list \<Rightarrow> unit gadget_op" where
  "monitorFfs E batches = do {
     pc \<leftarrow> gets mon_pc;
     if pc = Created then do { monitor_start E; _ \<leftarrow> monitor_loop E batches; ret () }
     else if pc = Looping then do { _ \<leftarrow> monitor_loop E batches; ret () }
     else ret ()
   }"

section \<open>The gadget is pulled up only over present descriptors\<close>

text \<open>
  \<open>pulled_up_checked eps t\<close>: in the events \<open>t\<close> every write of the UDC node comes directly after one
  round of checks that found every endpoint of \<open>eps\<close> readable.
\<close>

definition checks_ok :: "string list \<Rightarrow> gadget_call history" where
  "checks_ok eps = map (\<lambda>ep. (Access ep, Num 0)) eps"

definition is_pullup :: "gadget_call \<times> answer \<Rightarrow> bool" where
  "is_pullup e \<longleftrightarrow> fst e = WriteStringToFile GADGET_NAME PULLUP_PATH"

definition pulled_up_checked :: "string list \<Rightarrow> gadget_call history \<Rightarrow> bool" where
  "pulled_up_checked eps t \<longleftrightarrow>
     (\<forall>i < length t. is_pullup (t ! i) \<longrightarrow>
        length eps \<le> i \<and> drop (i - length eps) (take i t) = checks_ok eps)"

lemma pulled_up_checked_append:
  assumes "pulled_up_checked eps t" and "pulled_up_checked eps u"
  shows "pulled_up_checked eps (t @ u)"
  unfolding pulled_up_checked_def
proof (intro allI impI)
  fix i assume i: "i < length (t @ u)" and p: "is_pullup ((t @ u) ! i)"
  show "length eps \<le> i \<and> drop (i - length eps) (take i (t @ u)) = checks_ok eps"
  proof (cases "i < length t")
    case True
    with assms(1) p show ?thesis by (simp add: pulled_up_checked_def nth_append)
  next
    case False
    with i p have "i - length t < length u" and "is_pullup (u ! (i - length t))"
      by (auto simp: nth_append)
    with assms(2) have "length eps \<le> i - length t"
      and "drop (i - length t - length eps) (take (i - length t) u) = checks_ok eps"
      unfolding pulled_up_checked_def by blast+
    with False show ?thesis by (simp add: add.commute)
  qed
qed

lemma pulled_up_checked_quiet: "list_all (\<lambda>e. \<not> is_pullup e) t \<Longrightarrow> pulled_up_checked eps t"
  by (simp add: pulled_up_checked_def list_all_length)

lemma pulled_up_checked_Nil [simp]: "pulled_up_checked eps []"
  by (simp add: pulled_up_checked_def)

lemma pulled_up_checked_pullup:
  assumes "is_pullup e" and "list_all (\<lambda>e. \<not> is_pullup e) u"
  shows "pulled_up_checked eps (checks_ok eps @ e # u)"
  using assms unfolding pulled_up_checked_def
  by (auto simp: list_all_length checks_ok_def nth_append nth_Cons is_pullup_def split: nat.splits)

text \<open>What one round of checks appends.\<close>

lemma endpoints_present_run:
  assumes "run_state (endpoints_present E eps) s = (b, s')"
  shows "\<exists>t. s' = s\<lparr>hist := hist s @ t\<rparr> \<and> list_all (\<lambda>e. \<exists>ep r. e = (Access ep, Num r)) t \<and>
    (b \<longrightarrow> t = checks_ok eps)"
  using assms
proof (induction eps arbitrary: s)
  case (Cons ep eps)
  let ?r = "e_num E (hist s) (Access ep)" and ?s = "s\<lparr>hist := hist s @ [(Access ep, Num (e_num E (hist s) (Access ep)))]\<rparr>"
  show ?case
  proof (cases "?r = 0")
    case False
    with Cons.prems show ?thesis by (auto simp: call_num_def Let_def)
  next
    case True
    with Cons.prems have "run_state (endpoints_present E eps) ?s = (b, s')"
      by (simp add: call_num_def Let_def)
    from Cons.IH [OF this] True show ?thesis by (auto simp: checks_ok_def)
  qed
qed (simp add: checks_ok_def)

text \<open>
  What the thread may do from \<open>g\<close> to \<open>g'\<close> while it appends \<open>t\<close>: it checks endpoints, pulls the
  gadget up over present descriptors and notifies; in a piece that runs whole the functions count as
  applied, the gadget as pulled up and the waiting request is notified exactly when a write of the UDC
  node succeeded; the rest of the object is not touched.
\<close>

definition pulled_up :: "gadget_call history \<Rightarrow> bool" where
  "pulled_up t \<longleftrightarrow> (WriteStringToFile GADGET_NAME PULLUP_PATH, Flag True) \<in> set t"

definition notified :: "gadget_call history \<Rightarrow> bool" where
  "notified t \<longleftrightarrow> Notify_all \<in> fst ` set t"

definition thread_call :: "gadget_call \<times> answer \<Rightarrow> bool" where
  "thread_call e \<longleftrightarrow> (\<exists>ep. fst e = Access ep) \<or> is_pullup e \<or> fst e = Notify_all"

definition thread_rel :: "gadget \<Rightarrow> gadget_call history \<Rightarrow> gadget \<Rightarrow> bool" where
  "thread_rel g t g' \<longleftrightarrow>
     hist g' = hist g @ t \<and> pulled_up_checked (mEndpointList g) t \<and> list_all thread_call t \<and>
     notified t = pulled_up t \<and>
     mCurrentUsbFunctionsApplied g' = (mCurrentUsbFunctionsApplied g \<or> pulled_up t) \<and>
     gadgetPullup g' = (gadgetPullup g \<or> pulled_up t) \<and>
     mEndpointList g' = mEndpointList g \<and> mInotifyFd g' = mInotifyFd g \<and> mEventFd g' = mEventFd g \<and>
     mEpollFd g' = mEpollFd g \<and> mMonitorCreated g' = mMonitorCreated g \<and>
     mCurrentUsbFunctions g' = mCurrentUsbFunctions g"

definition monitor_safe :: "'a gadget_op \<Rightarrow> bool" where
  "monitor_safe m \<longleftrightarrow> (\<forall>g. \<exists>t. thread_rel g t (snd (run_state m g)))"

named_theorems safe_intros

lemma monitor_safeI: "(\<And>g. \<exists>t. thread_rel g t (snd (run_state m g))) \<Longrightarrow> monitor_safe m"
  by (simp add: monitor_safe_def)

lemma thread_rel_emitted: "thread_rel g t (snd (run_state m g)) \<Longrightarrow> emitted m g = t"
  by (simp add: thread_rel_def emitted_def)

lemma monitor_safeD: "monitor_safe m \<Longrightarrow> thread_rel g (emitted m g) (snd (run_state m g))"
  unfolding monitor_safe_def by (metis thread_rel_emitted)

lemma pulled_up_append [simp]: "pulled_up (t @ u) \<longleftrightarrow> pulled_up t \<or> pulled_up u"
  by (auto simp: pulled_up_def)

lemma pulled_up_Nil [simp]: "\<not> pulled_up []"
  by (simp add: pulled_up_def)

lemma notified_simps [simp]:
  "notified (t @ u) \<longleftrightarrow> notified t \<or> notified u" "\<not> notified []"
  "notified (e # t) \<longleftrightarrow> fst e = Notify_all \<or> notified t"
  by (auto simp: notified_def)

lemma not_pulled_up: "list_all (\<lambda>e. \<not> is_pullup e) t \<Longrightarrow> \<not> pulled_up t"
  by (auto simp: pulled_up_def list_all_iff is_pullup_def)

lemma thread_rel_trans: "thread_rel g t g' \<Longrightarrow> thread_rel g' u g'' \<Longrightarrow> thread_rel g (t @ u) g''"
  by (auto simp: thread_rel_def pulled_up_checked_append)

text \<open>A change of the thread's own variables.\<close>

definition thread_local :: "(gadget \<Rightarrow> gadget) \<Rightarrow> bool" where
  "thread_local f \<longleftrightarrow> (\<forall>g. thread_rel g [] (f g))"

lemma monitor_safe_return [safe_intros]: "monitor_safe (State_Monad.return a)"
  by (rule monitor_safeI, rule exI [of _ "[]"]) (simp add: thread_rel_def)

lemma monitor_safe_gets [safe_intros]: "monitor_safe (gets f)"
  by (rule monitor_safeI, rule exI [of _ "[]"]) (simp add: thread_rel_def)

lemma monitor_safe_modify [safe_intros]: "thread_local f \<Longrightarrow> monitor_safe (modify f)"
  by (rule monitor_safeI, rule exI [of _ "[]"]) (simp add: thread_local_def)

lemma monitor_safe_bind [safe_intros]:
  assumes m: "monitor_safe m" and f: "\<And>a. monitor_safe (f a)"
  shows "monitor_safe (State_Monad.bind m f)"
proof (rule monitor_safeI)
  fix g
  obtain a g1 where r1: "run_state m g = (a, g1)" by (cases "run_state m g")
  from m r1 obtain t1 where t1: "thread_rel g t1 g1"
    unfolding monitor_safe_def by (metis snd_conv)
  from f [of a] obtain t2 where "thread_rel g1 t2 (snd (run_state (f a) g1))"
    unfolding monitor_safe_def by blast
  with t1 have "thread_rel g (t1 @ t2) (snd (run_state (f a) g1))" by (rule thread_rel_trans)
  then show "\<exists>t. thread_rel g t (snd (run_state (State_Monad.bind m f) g))"
    using r1 by auto
qed

lemma monitor_safe_if [safe_intros]:
  "(b \<Longrightarrow> monitor_safe m) \<Longrightarrow> (\<not> b \<Longrightarrow> monitor_safe n) \<Longrightarrow> monitor_safe (if b then m else n)"
  by simp

text \<open>The shape shared by the start and the record handler: check, then perhaps pull up.\<close>

lemma not_is_pullup [simp]:
  "\<not> is_pullup (Access ep, a)" "\<not> is_pullup (Notify_all, a)"
  "is_pullup (WriteStringToFile GADGET_NAME PULLUP_PATH, a)"
  by (simp_all add: is_pullup_def)

lemma monitor_safe_check:
  assumes no: "\<And>b. thread_local (quiet b)" and up: "thread_local raise"
  shows "monitor_safe (do {
     eps \<leftarrow> gets mEndpointList;
     b \<leftarrow> endpoints_present E eps;
     w \<leftarrow> gets want;
     if b \<and> w then do {
       ok \<leftarrow> write_file E GADGET_NAME PULLUP_PATH;
       if ok then do { modify raise; signal_pullup } else ret ()
     }
     else modify (quiet b) })" (is "monitor_safe ?m")
proof (rule monitor_safeI)
  fix g :: gadget
  obtain b g1 where r: "run_state (endpoints_present E (mEndpointList g)) g = (b, g1)"
    by (cases "run_state (endpoints_present E (mEndpointList g)) g")
  from endpoints_present_run [OF r] obtain t where g1: "g1 = g\<lparr>hist := hist g @ t\<rparr>"
    and t: "list_all (\<lambda>e. \<exists>ep r. e = (Access ep, Num r)) t" and ok: "b \<longrightarrow> t = checks_ok (mEndpointList g)"
    by blast
  from t have quiet: "list_all (\<lambda>e. \<not> is_pullup e) t" and calls: "list_all thread_call t" and silent: "\<not> notified t"
    by (auto simp: list_all_iff thread_call_def notified_def)
  have rel1: "thread_rel g t g1"
    using quiet calls silent by (simp add: g1 thread_rel_def pulled_up_checked_quiet not_pulled_up)
  let ?w = "WriteStringToFile GADGET_NAME PULLUP_PATH"
  show "\<exists>t. thread_rel g t (snd (run_state ?m g))"
  proof (cases "b \<and> want g1")
    case False
    then have "run_state ?m g = ((), quiet b g1)" using r by auto
    moreover from rel1 no have "thread_rel g (t @ []) (quiet b g1)"
      unfolding thread_local_def by (blast intro: thread_rel_trans)
    ultimately show ?thesis by auto
  next
    case True
    define ok' where "ok' = e_flag E (hist g1) ?w"
    define u where "u = (?w, Flag ok') # (if ok' then [(Notify_all, Void)] else [])"
    define g2 where "g2 = (if ok'
      then (raise (g1\<lparr>hist := hist g1 @ [(?w, Flag ok')]\<rparr>))\<lparr>hist := hist g1 @ u,
        mCurrentUsbFunctionsApplied := True, gadgetPullup := True\<rparr>
      else g1\<lparr>hist := hist g1 @ u\<rparr>)"
    from True ok have t_eq: "t = checks_ok (mEndpointList g)" by simp
    have "list_all (\<lambda>e. \<not> is_pullup e) (if ok' then [(Notify_all, Void)] else [])" by simp
    then have checked: "pulled_up_checked (mEndpointList g) (t @ u)"
      unfolding t_eq u_def by (rule pulled_up_checked_pullup [OF not_is_pullup(3)])
    have more: "list_all thread_call (t @ u)" "pulled_up (t @ u) = ok'" "notified (t @ u) = ok'"
      using calls silent not_pulled_up [OF quiet] by (auto simp: u_def thread_call_def pulled_up_def)
    have raise: "thread_rel g' [] (raise g')" for g'
      using up by (simp add: thread_local_def)
    have "run_state ?m g = ((), g2)"
      using True r raise
      by (simp add: g2_def u_def ok'_def write_file_def call_flag_def signal_pullup_def
          call_void_def Let_def thread_rel_def)
    moreover have "thread_rel g (t @ u) g2"
      using checked more raise [of "g1\<lparr>hist := hist g1 @ [(?w, Flag ok')]\<rparr>"]
      by (cases ok') (simp_all add: g1 g2_def thread_rel_def)
    ultimately show ?thesis by auto
  qed
qed

lemma monitor_record_safe [safe_intros]: "monitor_safe (monitor_record E)"
proof -
  have eq: "monitor_record E = do {
     eps \<leftarrow> gets mEndpointList;
     b \<leftarrow> endpoints_present E eps;
     w \<leftarrow> gets writeUdc;
     if b \<and> w then do {
       ok \<leftarrow> write_file E GADGET_NAME PULLUP_PATH;
       if ok then do { modify (\<lambda>g. g\<lparr>writeUdc := False\<rparr>); signal_pullup } else ret ()
     }
     else modify ((\<lambda>b g. if \<not> b \<and> \<not> writeUdc g then g\<lparr>writeUdc := True\<rparr> else g) b) }"
    unfolding monitor_record_def by (rule state_ext) (auto simp: split_beta)
  show ?thesis unfolding eq
    by (rule monitor_safe_check) (auto simp: thread_local_def thread_rel_def)
qed

lemma monitor_start_safe [safe_intros]: "monitor_safe (monitor_start E)"
proof -
  have eq: "monitor_start E = do {
     modify (\<lambda>g. g\<lparr>writeUdc := True, mon_pc := Looping\<rparr>);
     eps \<leftarrow> gets mEndpointList;
     b \<leftarrow> endpoints_present E eps;
     w \<leftarrow> gets (\<lambda>_. True);
     if b \<and> w then do {
       ok \<leftarrow> write_file E GADGET_NAME PULLUP_PATH;
       if ok then do { modify (\<lambda>g. g); signal_pullup } else ret ()
     }
     else modify ((\<lambda>b g. g) b) }"
    unfolding monitor_start_def by (rule state_ext) (auto simp: split_beta)
  show ?thesis unfolding eq
    by (rule monitor_safe_bind, rule monitor_safe_modify, simp add: thread_local_def thread_rel_def,
        rule monitor_safe_check) (simp_all add: thread_local_def thread_rel_def)
qed

lemma monitor_safe_for_each [safe_intros]:
  "(\<And>x. monitor_safe (f x)) \<Longrightarrow> monitor_safe (for_each xs f)"
  by (induction xs) (auto intro!: safe_intros)

lemma monitor_batch_safe [safe_intros]: "monitor_safe (monitor_batch E evs)"
  by (induction E evs rule: monitor_batch.induct) (auto intro!: safe_intros)

lemma monitor_loop_safe [safe_intros]: "monitor_safe (monitor_loop E batches)"
  by (induction E batches rule: monitor_loop.induct) (auto intro!: safe_intros simp: thread_local_def thread_rel_def)

lemma monitorFfs_safe: "monitor_safe (monitorFfs E batches)"
  unfolding monitorFfs_def by (auto intro!: safe_intros)

text \<open>
  C2. Whatever the endpoint files and the events do, in the events of any run of the monitor thread
  each write of the UDC node comes directly after a complete round of access checks that found
  every endpoint of the gadget readable.
\<close>

theorem monitor_pulls_up_checked:
  "pulled_up_checked (mEndpointList g) (emitted (monitorFfs E batches) g)"
  using monitor_safeD [OF monitorFfs_safe] by (simp add: thread_rel_def)

lemma monitor_applied_iff:
  "gadgetPullup (snd (run_state (monitorFfs E batches) g)) = (gadgetPullup g \<or> pulled_up (emitted (monitorFfs E batches) g))"
  using monitor_safeD [OF monitorFfs_safe] by (simp add: thread_rel_def)

text \<open>
  The functions are marked applied, and the gadget pulled up, exactly when the thread's write of
  the UDC node succeeded (or they already were), and the thread does nothing but check endpoints,
  write that node and notify.
\<close>

theorem monitor_applied_iff_pulled_up:
  "mCurrentUsbFunctionsApplied (snd (run_state (monitorFfs E batches) g)) =
     (mCurrentUsbFunctionsApplied g \<or> pulled_up (emitted (monitorFfs E batches) g)) \<and>
   gadgetPullup (snd (run_state (monitorFfs E batches) g)) =
     (gadgetPullup g \<or> pulled_up (emitted (monitorFfs E batches) g)) \<and>
   list_all thread_call (emitted (monitorFfs E batches) g)"
  using monitor_safeD [OF monitorFfs_safe] by (simp add: thread_rel_def)

section \<open>The thread stops when told to\<close>

lemma endpoints_present_pc: "mon_pc (snd (run_state (endpoints_present E eps) g)) = mon_pc g"
  by (cases "run_state (endpoints_present E eps) g") (auto dest: endpoints_present_run)

lemma monitor_record_pc: "mon_pc (snd (run_state (monitor_record E) g)) = mon_pc g"
  using endpoints_present_pc [of E "mEndpointList g" g]
  by (simp add: monitor_record_def write_file_def signal_pullup_def run_calls split_beta)

lemma for_each_record_pc:
  "mon_pc (snd (run_state (for_each records (\<lambda>_. monitor_record E)) g)) = mon_pc g"
  by (induction records arbitrary: g) (simp_all add: split_beta monitor_record_pc)

lemma monitor_start_pc: "mon_pc (snd (run_state (monitor_start E) g)) = Looping"
  using endpoints_present_pc [of E "mEndpointList g" "g\<lparr>writeUdc := True, mon_pc := Looping\<rparr>"]
  by (simp add: monitor_start_def write_file_def signal_pullup_def run_calls split_beta)

definition tells_stop :: "ep_event list \<Rightarrow> bool" where
  "tells_stop evs \<longleftrightarrow> Event_value 100 \<in> set evs"

lemma monitor_batch_stop:
  "fst (run_state (monitor_batch E evs) g) = tells_stop evs \<and>
   mon_pc (snd (run_state (monitor_batch E evs) g)) = mon_pc g"
  by (induction E evs arbitrary: g rule: monitor_batch.induct)
    (auto simp: split_beta for_each_record_pc tells_stop_def)

lemma monitor_loop_stop:
  "mon_pc g = Looping \<Longrightarrow> mon_pc (snd (run_state (monitor_loop E batches) g)) =
     (if list_ex tells_stop batches then Exited else Looping)"
  by (induction E batches arbitrary: g rule: monitor_loop.induct)
    (auto simp: split_beta monitor_batch_stop)

text \<open>
  A created or running monitor thread ends exactly when some \<open>epoll_wait\<close> result carries the
  stop value 100 of the event fd; otherwise it is in its loop, waiting for more events.
\<close>

theorem monitor_stops_iff_told:
  assumes "mon_pc g = Created \<or> mon_pc g = Looping"
  shows "mon_pc (snd (run_state (monitorFfs E batches) g)) =
    (if list_ex tells_stop batches then Exited else Looping)"
  using assms by (auto simp: monitorFfs_def split_beta monitor_loop_stop monitor_start_pc)

definition quiet_env :: "'c env" where
  "quiet_env = \<lparr>e_num = (\<lambda>_ _. 0), e_flag = (\<lambda>_ _. True), e_text = (\<lambda>_ _. None),
     e_entries = (\<lambda>_ _. Some [])\<rparr>"

theorem monitor_stops_iff_told_witness:
  "mon_pc (snd (run_state (monitorFfs quiet_env [[Inotify_readable [8]], [Event_value 1], [Event_value 100]])
     ((new_gadget 0 quiet_env)\<lparr>mon_pc := Created, mEndpointList := [''/dev/ep1'']\<rparr>))) = Exited"
  by (subst monitor_stops_iff_told) (simp_all add: tells_stop_def)

end
