(* ===== verification/UsbGadget.thy ===== *)
theory UsbGadget
  imports GadgetMonitor
begin

text \<open>
  \<open>usb/UsbGadget.cpp\<close>, the requests of the gadget service: \<open>tearDownGadget\<close>, \<open>reset\<close>,
  \<open>setupFunctions\<close>, \<open>setCurrentUsbFunctions\<close> and \<open>getCurrentUsbFunctions\<close>.

  A request runs on a binder thread beside the monitor thread.  The parameter \<open>B\<close> says how far the
  monitor thread gets while the request blocks on it, at the join and at the condition variable:
  \<open>None\<close> is not at all (the wait timed out before the thread was scheduled), \<open>Some batches\<close> is the
  \<open>epoll_wait\<close> results it handles meanwhile.  A null callback is the parameter \<open>cb = False\<close>.
  File descriptors owned by a \<open>unique_fd\<close> are closed where its destructor or its assignment runs.
\<close>

type_synonym scheduler = "gadget_call history \<Rightarrow> ep_event list list option"

section \<open>Tearing the gadget down\<close>

text \<open>\<open>unlinkFunctions\<close>: the value is 0, or the result of the \<open>remove\<close> that failed, or -1.\<close>

fun unlink_entries ::
  "gadget_call env \<Rightarrow> string \<Rightarrow> (string \<times> bool) list \<Rightarrow> ((gadget_call, 'm) world_scheme, int) state" where
  "unlink_entries E path [] = ret 0"
| "unlink_entries E path ((d_name, link) # es) =
     (if \<not> contains d_name FUNCTION_NAME then unlink_entries E path es
      else do {
        r \<leftarrow> call_num E (Remove (path @ ''/'' @ d_name));
        if r \<noteq> 0 then ret r else unlink_entries E path es
      })"

definition unlinkFunctions :: "gadget_call env \<Rightarrow> string \<Rightarrow> ((gadget_call, 'm) world_scheme, int) state"
  where
  "unlinkFunctions E path = do {
     config \<leftarrow> call_entries E (Opendir path);
     case config of
       None \<Rightarrow> ret (-1)
     | Some es \<Rightarrow> do { r \<leftarrow> unlink_entries E path es; call_void (Closedir path); ret r }
   }"

text \<open>\<open>unique_fd::reset(-1)\<close> and the destructor: close the descriptor if there is one.\<close>

definition close_fd :: "int \<Rightarrow> ((gadget_call, 'm) world_scheme, unit) state" where
  "close_fd fd = (if fd \<noteq> -1 then call_void (Close fd) else ret ())"

definition monitor_while_waiting :: "gadget_call env \<Rightarrow> scheduler \<Rightarrow> unit gadget_op" where
  "monitor_while_waiting E B = do {
     h \<leftarrow> gets hist;
     case B h of None \<Rightarrow> ret () | Some batches \<Rightarrow> monitorFfs E batches
   }"

text \<open>
  The monitor is told to stop through the event fd and joined: it may still handle some results of
  \<open>epoll_wait\<close>, and handles one that carries the stop value.
\<close>

definition stop_monitor :: "gadget_call env \<Rightarrow> scheduler \<Rightarrow> unit gadget_op" where
  "stop_monitor E B = do {
     fd \<leftarrow> gets mEventFd;
     call_void (Write_event fd 100);
     monitor_while_waiting E B;
     monitorFfs E [[Event_value 100]];
     call_void Thread_join;
     modify (\<lambda>g. g\<lparr>mMonitorCreated := False, mon_pc := Absent\<rparr>)
   }"

definition drop_fds :: "unit gadget_op" where
  "drop_fds = do {
     fd \<leftarrow> gets mInotifyFd; close_fd fd; modify (\<lambda>g. g\<lparr>mInotifyFd := -1\<rparr>);
     fd \<leftarrow> gets mEventFd; close_fd fd; modify (\<lambda>g. g\<lparr>mEventFd := -1\<rparr>);
     fd \<leftarrow> gets mEpollFd; close_fd fd; modify (\<lambda>g. g\<lparr>mEpollFd := -1\<rparr>)
   }"

definition tearDownGadget :: "gadget_call env \<Rightarrow> scheduler \<Rightarrow> gadget_status gadget_op" where
  "tearDownGadget E B = returned (
     or_return (do { _ \<leftarrow> write_file E ''none'' PULLUP_PATH; ret (Inr ()) }) (\<lambda>_.
     or_return (require ERROR (write_file E ''0'' DEVICE_CLASS_PATH)) (\<lambda>_.
     or_return (require ERROR (write_file E ''0'' DEVICE_SUB_CLASS_PATH)) (\<lambda>_.
     or_return (require ERROR (write_file E ''0'' DEVICE_PROTOCOL_PATH)) (\<lambda>_.
     or_return (require ERROR (write_file E ''0'' DESC_USE_PATH)) (\<lambda>_.
     or_return (require ERROR (do { r \<leftarrow> unlinkFunctions E CONFIG_PATH; ret (r = 0) })) (\<lambda>_. do {
       created \<leftarrow> gets mMonitorCreated;
       (if created then stop_monitor E B else ret ());
       drop_fds;
       modify (\<lambda>g. g\<lparr>mEndpointList := []\<rparr>);
       ret (Inr SUCCESS)
     })))))))"

definition reset :: "gadget_call env \<Rightarrow> gadget_status gadget_op" where
  "reset E = do {
     ok \<leftarrow> write_file E ''none'' PULLUP_PATH;
     ret (if ok then SUCCESS else ERROR)
   }"

definition getCurrentUsbFunctions :: "unit gadget_op" where
  "getCurrentUsbFunctions = do {
     f \<leftarrow> gets mCurrentUsbFunctions;
     a \<leftarrow> gets mCurrentUsbFunctionsApplied;
     call_void (GetCurrentUsbFunctionsCb f (if a then FUNCTIONS_APPLIED else FUNCTIONS_NOT_APPLIED))
   }"

section \<open>Linking the functions\<close>

definition linkFunction :: "gadget_call env \<Rightarrow> string \<Rightarrow> nat \<Rightarrow> ((gadget_call, 'm) world_scheme, int) state"
  where
  "linkFunction E function index = do {
     r \<leftarrow> call_num E (Symlink (FUNCTIONS_PATH @ function) (FUNCTION_PATH @ print_nat index));
     ret (if r \<noteq> 0 then -1 else 0)
   }"

text \<open>\<open>if (linkFunction(function, i++)) return Status::ERROR;\<close>, the value is the new \<open>i\<close>.\<close>

definition link_next ::
  "gadget_call env \<Rightarrow> string \<Rightarrow> nat \<Rightarrow> ((gadget_call, 'm) world_scheme, gadget_status + nat) state" where
  "link_next E function i = do {
     r \<leftarrow> linkFunction E function i;
     ret (if r \<noteq> 0 then Inl ERROR else Inr (Suc i))
   }"

definition link_if ::
  "gadget_call env \<Rightarrow> bool \<Rightarrow> string \<Rightarrow> nat \<Rightarrow> ((gadget_call, 'm) world_scheme, gadget_status + nat) state"
  where
  "link_if E b function i = (if b then link_next E function i else ret (Inr i))"

text \<open>A FunctionFS function: switch the OS descriptors on, watch its directory, link it, add its endpoints.\<close>

definition setup_ffs ::
  "gadget_call env \<Rightarrow> int \<Rightarrow> string \<Rightarrow> string \<Rightarrow> string list \<Rightarrow> nat \<Rightarrow> (gadget_status + nat) gadget_op"
  where
  "setup_ffs E inotifyFd dir function eps i =
     or_return (require ERROR (write_file E ''1'' DESC_USE_PATH)) (\<lambda>_.
     or_return (require ERROR (do { wd \<leftarrow> call_num E (Inotify_add_watch inotifyFd dir); ret (wd \<noteq> -1) })) (\<lambda>_.
     or_return (link_next E function i) (\<lambda>i. do {
       modify (\<lambda>g. g\<lparr>mEndpointList := mEndpointList g @ eps\<rparr>);
       ret (Inr i)
     })))"

definition mtp_endpoints :: "string list" where
  "mtp_endpoints = [''/dev/usb-ffs/mtp/ep1'', ''/dev/usb-ffs/mtp/ep2'', ''/dev/usb-ffs/mtp/ep3'']"
definition ptp_endpoints :: "string list" where
  "ptp_endpoints = [''/dev/usb-ffs/ptp/ep1'', ''/dev/usb-ffs/ptp/ep2'', ''/dev/usb-ffs/ptp/ep3'']"
definition adb_endpoints :: "string list" where
  "adb_endpoints = [''/dev/usb-ffs/adb/ep1'', ''/dev/usb-ffs/adb/ep2'']"

definition setup_media ::
  "gadget_functions \<Rightarrow> gadget_call env \<Rightarrow> 64 word \<Rightarrow> int \<Rightarrow> nat \<Rightarrow> (gadget_status + nat) gadget_op" where
  "setup_media K E functions inotifyFd i =
     (if functions AND MTP K \<noteq> 0 then
        setup_ffs E inotifyFd ''/dev/usb-ffs/mtp/'' ''ffs.mtp'' mtp_endpoints i
      else if functions AND PTP K \<noteq> 0 then
        setup_ffs E inotifyFd ''/dev/usb-ffs/ptp/'' ''ffs.ptp'' ptp_endpoints i
      else ret (Inr i))"

text \<open>The loop over the tokens of the vendor functions.\<close>

fun link_vendor ::
  "gadget_call env \<Rightarrow> string list \<Rightarrow> nat \<Rightarrow> ((gadget_call, 'm) world_scheme, gadget_status + nat) state"
  where
  "link_vendor E [] i = ret (Inr i)"
| "link_vendor E (function # fs) i =
     or_return (link_if E (function = ''diag'') ''diag.diag'' i) (\<lambda>i.
     or_return (link_if E (function = ''serial_cdev'') ''cser.dun.0'' i) (\<lambda>i.
     or_return (link_if E (function = ''rmnet_gsi'') ''gsi.rmnet'' i) (\<lambda>i.
     link_vendor E fs i)))"

definition setup_vendor ::
  "gadget_call env \<Rightarrow> nat \<Rightarrow> ((gadget_call, 'm) world_scheme, gadget_status + nat) state" where
  "setup_vendor E i = do {
     vendorFunctions \<leftarrow> getVendorFunctions E;
     if vendorFunctions \<noteq> [] then link_vendor E (strtok_all '','' (c_str vendorFunctions)) i
     else ret (Inr i)
   }"

text \<open>All the links in the order of the source; the value is \<open>i\<close>.\<close>

definition setup_links ::
  "gadget_functions \<Rightarrow> gadget_call env \<Rightarrow> 64 word \<Rightarrow> int \<Rightarrow> (gadget_status + nat) gadget_op" where
  "setup_links K E functions inotifyFd =
     or_return (setup_media K E functions inotifyFd 0) (\<lambda>i.
     or_return (link_if E (functions AND MIDI K \<noteq> 0) ''midi.gs5'' i) (\<lambda>i.
     or_return (link_if E (functions AND ACCESSORY K \<noteq> 0) ''accessory.gs2'' i) (\<lambda>i.
     or_return (link_if E (functions AND AUDIO_SOURCE K \<noteq> 0) ''audio_source.gs3'' i) (\<lambda>i.
     or_return (link_if E (functions AND RNDIS K \<noteq> 0) ''gsi.rndis'' i) (\<lambda>i.
     or_return (setup_vendor E i) (\<lambda>i.
     if functions AND ADB K \<noteq> 0 then
       setup_ffs E inotifyFd ''/dev/usb-ffs/adb/'' ''ffs.adb'' adb_endpoints i
     else ret (Inr i)))))))"

text \<open>The local \<open>ffsEnabled\<close>: set in the three FunctionFS branches.\<close>

definition ffs_enabled :: "gadget_functions \<Rightarrow> 64 word \<Rightarrow> bool" where
  "ffs_enabled K functions \<longleftrightarrow>
     functions AND MTP K \<noteq> 0 \<or> functions AND PTP K \<noteq> 0 \<or> functions AND ADB K \<noteq> 0"

section \<open>Pulling the gadget up\<close>

definition notify_set :: "bool \<Rightarrow> 64 word \<Rightarrow> gadget_status \<Rightarrow> ((gadget_call, 'm) world_scheme, unit) state"
  where
  "notify_set cb functions status =
     (if cb then call_void (SetCurrentUsbFunctionsCb functions status) else ret ())"

text \<open>No FunctionFS function: pull up at once.\<close>

definition pull_up_now :: "gadget_call env \<Rightarrow> 64 word \<Rightarrow> bool \<Rightarrow> gadget_status gadget_op" where
  "pull_up_now E functions cb = do {
     ok \<leftarrow> write_file E GADGET_NAME PULLUP_PATH;
     if \<not> ok then ret ERROR
     else do {
       modify (\<lambda>g. g\<lparr>mCurrentUsbFunctionsApplied := True\<rparr>);
       notify_set cb functions SUCCESS;
       ret SUCCESS
     }
   }"

text \<open>The assignments \<open>mEpollFd = move(epollFd)\<close> etc. close what the member held before.\<close>

definition keep_fds :: "int \<Rightarrow> int \<Rightarrow> int \<Rightarrow> unit gadget_op" where
  "keep_fds epollFd inotifyFd eventFd = do {
     fd \<leftarrow> gets mEpollFd; close_fd fd; modify (\<lambda>g. g\<lparr>mEpollFd := epollFd\<rparr>);
     fd \<leftarrow> gets mInotifyFd; close_fd fd; modify (\<lambda>g. g\<lparr>mInotifyFd := inotifyFd\<rparr>);
     fd \<leftarrow> gets mEventFd; close_fd fd; modify (\<lambda>g. g\<lparr>mEventFd := eventFd\<rparr>)
   }"

text \<open>
  With a callback, wait on the condition variable and report whether \<open>gadgetPullup\<close> is up.  Here the monitor
  runs in whole pieces while the request waits: a write of the UDC node, the critical section and the
  notification are not taken apart, so the timeout between the write and the section is not a run of this
  definition.  \<open>GadgetHandshake\<close> and \<open>GadgetTeardown\<close> take them apart.
\<close>

definition wait_for_pullup ::
  "gadget_call env \<Rightarrow> scheduler \<Rightarrow> 64 word \<Rightarrow> bool \<Rightarrow> 64 word \<Rightarrow> unit gadget_op" where
  "wait_for_pullup E B functions cb timeout =
     (if cb then do {
        call_void (Cv_wait_for timeout);
        monitor_while_waiting E B;
        up \<leftarrow> gets gadgetPullup;
        call_void (SetCurrentUsbFunctionsCb functions (if up then SUCCESS else ERROR))
      }
      else ret ())"

definition addEpollFd :: "gadget_call env \<Rightarrow> int \<Rightarrow> int \<Rightarrow> ((gadget_call, 'm) world_scheme, int) state" where
  "addEpollFd E epfd fd = call_num E (Epoll_ctl_add epfd fd)"

text \<open>
  The event fd and the epoll instance; an early return closes, in reverse order, what the locals
  hold, the inotify descriptor included.
\<close>

definition open_monitor_fds :: "gadget_call env \<Rightarrow> int \<Rightarrow> (gadget_status + unit) gadget_op" where
  "open_monitor_fds E inotifyFd = do {
     eventFd \<leftarrow> call_num E Eventfd;
     if eventFd = -1 then do { close_fd inotifyFd; ret (Inl ERROR) }
     else do {
       epollFd \<leftarrow> call_num E Epoll_create;
       if epollFd = -1 then do { close_fd eventFd; close_fd inotifyFd; ret (Inl ERROR) }
       else do {
         a \<leftarrow> addEpollFd E epollFd inotifyFd;
         if a = -1 then do { close_fd epollFd; close_fd eventFd; close_fd inotifyFd; ret (Inl ERROR) }
         else do {
           b \<leftarrow> addEpollFd E epollFd eventFd;
           if b = -1 then do { close_fd epollFd; close_fd eventFd; close_fd inotifyFd; ret (Inl ERROR) }
           else do { keep_fds epollFd inotifyFd eventFd; ret (Inr ()) }
         }
       }
     }
   }"

definition start_monitor ::
  "gadget_call env \<Rightarrow> scheduler \<Rightarrow> 64 word \<Rightarrow> bool \<Rightarrow> 64 word \<Rightarrow> int \<Rightarrow> gadget_status gadget_op" where
  "start_monitor E B functions cb timeout inotifyFd = returned (
     or_return (open_monitor_fds E inotifyFd) (\<lambda>_. do {
       modify (\<lambda>g. g\<lparr>gadgetPullup := False\<rparr>);
       call_void Thread_create;
       modify (\<lambda>g. g\<lparr>mMonitorCreated := True, mon_pc := Created\<rparr>);
       wait_for_pullup E B functions cb timeout;
       ret (Inr SUCCESS)
     }))"

text \<open>The rest of the body after the links: an early return of \<open>setup_links\<close>, or the pull-up.\<close>

definition finish_setup ::
  "gadget_functions \<Rightarrow> gadget_call env \<Rightarrow> scheduler \<Rightarrow> 64 word \<Rightarrow> bool \<Rightarrow> 64 word \<Rightarrow> int \<Rightarrow>
     gadget_status + nat \<Rightarrow> gadget_status gadget_op" where
  "finish_setup K E B functions cb timeout inotifyFd r =
     (case r of
        Inl status \<Rightarrow> do { close_fd inotifyFd; ret status }
      | Inr i \<Rightarrow>
          if \<not> ffs_enabled K functions then do {
            status \<leftarrow> pull_up_now E functions cb;
            close_fd inotifyFd;
            ret status
          }
          else start_monitor E B functions cb timeout inotifyFd)"

definition setupFunctions ::
  "gadget_functions \<Rightarrow> gadget_call env \<Rightarrow> scheduler \<Rightarrow> 64 word \<Rightarrow> bool \<Rightarrow> 64 word \<Rightarrow>
     gadget_status gadget_op" where
  "setupFunctions K E B functions cb timeout = do {
     inotifyFd \<leftarrow> call_num E Inotify_init;
     if inotifyFd < 0 then do { close_fd inotifyFd; ret ERROR }
     else do {
       _ \<leftarrow> get_property E PERSISTENT_BOOT_MODE;
       r \<leftarrow> setup_links K E functions inotifyFd;
       finish_setup K E B functions cb timeout inotifyFd r
     }
   }"

section \<open>The request\<close>

definition setCurrentUsbFunctions ::
  "gadget_functions \<Rightarrow> gadget_call env \<Rightarrow> scheduler \<Rightarrow> 64 word \<Rightarrow> bool \<Rightarrow> 64 word \<Rightarrow> unit gadget_op" where
  "setCurrentUsbFunctions K E B functions cb timeout = do {
     modify (\<lambda>g. g\<lparr>mCurrentUsbFunctions := functions, mCurrentUsbFunctionsApplied := False\<rparr>);
     status \<leftarrow> tearDownGadget E B;
     if status \<noteq> SUCCESS then notify_set cb functions status
     else do {
       call_void (Usleep 100000);
       if functions = NONE K then notify_set cb functions SUCCESS
       else do {
         status \<leftarrow> validateAndSetVidPid K E functions;
         if status \<noteq> SUCCESS then notify_set cb functions status
         else do {
           status \<leftarrow> setupFunctions K E B functions cb timeout;
           if status \<noteq> SUCCESS then notify_set cb functions status else ret ()
         }
       }
     }
   }"

end
