(* ===== verification/GadgetLinks.thy ===== *)
theory GadgetLinks
  imports UsbGadget
begin

text \<open>
  What \<open>setupFunctions\<close> links into the configuration: the specification \<open>wanted\<close> is the list of
  function directories for a mask and the vendor functions, and the code is proved to create exactly
  the links \<open>function0\<close>, \<open>function1\<close>, ... to them, in that order.
\<close>

section \<open>The specification\<close>

definition vendor_link :: "string \<Rightarrow> string list" where
  "vendor_link tok =
     (if tok = ''diag'' then [''diag.diag'']
      else if tok = ''serial_cdev'' then [''cser.dun.0'']
      else if tok = ''rmnet_gsi'' then [''gsi.rmnet''] else [])"

definition vendor_links :: "string \<Rightarrow> string list" where
  "vendor_links vf = concat (map vendor_link (strtok_all '','' (c_str vf)))"

definition wanted :: "gadget_functions \<Rightarrow> 64 word \<Rightarrow> string \<Rightarrow> string list" where
  "wanted K functions vf =
     (if functions AND MTP K \<noteq> 0 then [''ffs.mtp'']
      else if functions AND PTP K \<noteq> 0 then [''ffs.ptp''] else []) @
     (if functions AND MIDI K \<noteq> 0 then [''midi.gs5''] else []) @
     (if functions AND ACCESSORY K \<noteq> 0 then [''accessory.gs2''] else []) @
     (if functions AND AUDIO_SOURCE K \<noteq> 0 then [''audio_source.gs3''] else []) @
     (if functions AND RNDIS K \<noteq> 0 then [''gsi.rndis''] else []) @
     vendor_links vf @
     (if functions AND ADB K \<noteq> 0 then [''ffs.adb''] else [])"

text \<open>The links numbered from \<open>i\<close>.\<close>

fun numbered :: "string list \<Rightarrow> nat \<Rightarrow> (string \<times> string) list" where
  "numbered [] i = []"
| "numbered (f # fs) i = (FUNCTIONS_PATH @ f, FUNCTION_PATH @ print_nat i) # numbered fs (Suc i)"

lemma numbered_append: "numbered (fs @ gs) i = numbered fs i @ numbered gs (i + length fs)"
  by (induction fs arbitrary: i) auto

text \<open>The links a history attempts.\<close>

definition symlinks :: "gadget_call history \<Rightarrow> (string \<times> string) list" where
  "symlinks t = concat (map (\<lambda>e. case fst e of Symlink a b \<Rightarrow> [(a, b)] | _ \<Rightarrow> []) t)"

lemma symlinks_append [simp]: "symlinks (t @ u) = symlinks t @ symlinks u"
  by (simp add: symlinks_def)

lemma symlinks_Nil [simp]: "symlinks [] = []"
  by (simp add: symlinks_def)

definition no_symlink :: "gadget_call \<times> answer \<Rightarrow> bool" where
  "no_symlink e \<longleftrightarrow> (\<forall>a b. fst e \<noteq> Symlink a b)"

lemma no_symlink_symlinks: "no_symlink e \<Longrightarrow> symlinks (e # t) = symlinks t"
  by (cases "fst e") (simp_all add: symlinks_def no_symlink_def)

lemma no_symlinks: "list_all no_symlink t \<Longrightarrow> symlinks t = []"
  by (induction t) (simp_all add: no_symlink_symlinks)

section \<open>Blocks of links\<close>

text \<open>
  \<open>links_block boot m i f\<close>: started with the counter at \<open>i\<close> and the vendor value \<open>v\<close>, \<open>m\<close> either
  creates the links to \<open>f v\<close>, numbered from \<open>i\<close>, and returns the next number, or fails with
  \<open>ERROR\<close> after a part of them.  The vendor value is the same afterwards.
\<close>

abbreviation vendor_now :: "(string \<Rightarrow> string) \<Rightarrow> gadget \<Rightarrow> string" where
  "vendor_now boot g \<equiv> vendor_value (property_value boot (hist g))"

definition links_block ::
  "(string \<Rightarrow> string) \<Rightarrow> (gadget_status + nat) gadget_op \<Rightarrow> nat \<Rightarrow> (string \<Rightarrow> string list) \<Rightarrow> bool" where
  "links_block boot m i f \<longleftrightarrow> (\<forall>g. \<exists>t. hist (snd (run_state m g)) = hist g @ t \<and>
     vendor_now boot (snd (run_state m g)) = vendor_now boot g \<and>
     (case fst (run_state m g) of
        Inr j \<Rightarrow> j = i + length (f (vendor_now boot g)) \<and> symlinks t = numbered (f (vendor_now boot g)) i
      | Inl e \<Rightarrow> e = ERROR \<and> prefix (symlinks t) (numbered (f (vendor_now boot g)) i)))"

lemma links_blockE:
  assumes "links_block boot m i f" and "run_state m g = (r, g1)"
  obtains t where "hist g1 = hist g @ t"
    and "case r of Inr j \<Rightarrow> symlinks t = numbered (f (vendor_now boot g)) i
      | Inl e \<Rightarrow> e = ERROR \<and> prefix (symlinks t) (numbered (f (vendor_now boot g)) i)"
proof -
  from assms(1) [unfolded links_block_def, THEN spec, of g] assms(2) obtain t where
    "hist g1 = hist g @ t" "case r of
       Inr j \<Rightarrow> j = i + length (f (vendor_now boot g)) \<and> symlinks t = numbered (f (vendor_now boot g)) i
     | Inl e \<Rightarrow> e = ERROR \<and> prefix (symlinks t) (numbered (f (vendor_now boot g)) i)" by auto
  then show thesis by (cases r) (rule that; simp)+
qed

lemma links_block_or_return:
  assumes m: "links_block boot m i f" and h: "\<And>i. links_block boot (h i) i f'"
  shows "links_block boot (or_return m h) i (\<lambda>v. f v @ f' v)"
  unfolding links_block_def
proof
  fix g
  let ?v = "vendor_now boot g"
  obtain r g1 where r: "run_state m g = (r, g1)" by (cases "run_state m g")
  from m [unfolded links_block_def, THEN spec, of g] r obtain t where
    t: "hist g1 = hist g @ t" "vendor_now boot g1 = ?v"
    "case r of Inr j \<Rightarrow> j = i + length (f ?v) \<and> symlinks t = numbered (f ?v) i
      | Inl e \<Rightarrow> e = ERROR \<and> prefix (symlinks t) (numbered (f ?v) i)"
    by auto
  show "\<exists>t. hist (snd (run_state (or_return m h) g)) = hist g @ t \<and>
     vendor_now boot (snd (run_state (or_return m h) g)) = ?v \<and>
     (case fst (run_state (or_return m h) g) of
        Inr j \<Rightarrow> j = i + length (f ?v @ f' ?v) \<and> symlinks t = numbered (f ?v @ f' ?v) i
      | Inl e \<Rightarrow> e = ERROR \<and> prefix (symlinks t) (numbered (f ?v @ f' ?v) i))"
  proof (cases r)
    case (Inl e)
    with r t show ?thesis
      by (intro exI [of _ t]) (auto simp: or_return_def numbered_append)
  next
    case (Inr j)
    from h [of j, unfolded links_block_def, THEN spec, of g1, unfolded t(2)] obtain u where
      u: "hist (snd (run_state (h j) g1)) = hist g1 @ u"
      "vendor_now boot (snd (run_state (h j) g1)) = ?v"
      "case fst (run_state (h j) g1) of
         Inr k \<Rightarrow> k = j + length (f' ?v) \<and> symlinks u = numbered (f' ?v) j
       | Inl e \<Rightarrow> e = ERROR \<and> prefix (symlinks u) (numbered (f' ?v) j)"
      by blast
    with r t Inr show ?thesis
      by (intro exI [of _ "t @ u"])
        (auto simp: or_return_def numbered_append same_prefix_prefix split: sum.splits)
  qed
qed

lemma links_block_ret: "links_block boot (ret (Inr i)) i (\<lambda>_. [])"
  by (simp add: links_block_def)

text \<open>A step that sets no property and makes no link can precede a block.\<close>

lemma vendor_now_frame: "hist g' = hist g @ [(c, a)] \<Longrightarrow> \<forall>k v. c \<noteq> SetProperty k v \<Longrightarrow>
    vendor_now boot g' = vendor_now boot g"
  by (cases c) (auto simp: property_value_append)

lemma links_block_link_next: "links_block boot (link_next E fn i) i (\<lambda>_. [fn])"
  by (simp add: links_block_def link_next_def linkFunction_def call_num_def Let_def symlinks_def
      property_value_append)

lemma links_block_link_if: "links_block boot (link_if E b fn i) i (\<lambda>_. if b then [fn] else [])"
  by (simp add: link_if_def links_block_link_next links_block_ret)

lemma links_block_require:
  assumes m: "\<And>g. \<exists>b c a. run_state m g = (b, g\<lparr>hist := hist g @ [(c, a)]\<rparr>) \<and>
      (\<forall>k v. c \<noteq> SetProperty k v) \<and> (\<forall>x y. c \<noteq> Symlink x y)"
    and h: "links_block boot h i f"
  shows "links_block boot (or_return (require ERROR m) (\<lambda>_. h)) i f"
  unfolding links_block_def
proof
  fix g
  from m [of g] obtain b c a where r: "run_state m g = (b, g\<lparr>hist := hist g @ [(c, a)]\<rparr>)"
    and c: "\<forall>k v. c \<noteq> SetProperty k v" "\<forall>x y. c \<noteq> Symlink x y" by blast
  let ?g = "g\<lparr>hist := hist g @ [(c, a)]\<rparr>"
  have v: "vendor_now boot ?g = vendor_now boot g" by (rule vendor_now_frame [OF _ c(1)]) simp
  have quiet: "symlinks [(c, a)] = []" using c(2) by (cases c) (auto simp: symlinks_def)
  from h [unfolded links_block_def, THEN spec, of ?g] obtain u where
    u: "hist (snd (run_state h ?g)) = hist ?g @ u"
      "vendor_now boot (snd (run_state h ?g)) = vendor_now boot g"
      "case fst (run_state h ?g) of
         Inr k \<Rightarrow> k = i + length (f (vendor_now boot g)) \<and> symlinks u = numbered (f (vendor_now boot g)) i
       | Inl e \<Rightarrow> e = ERROR \<and> prefix (symlinks u) (numbered (f (vendor_now boot g)) i)"
    unfolding v by blast
  let ?m = "or_return (require ERROR m) (\<lambda>_. h)"
  show "\<exists>t. hist (snd (run_state ?m g)) = hist g @ t \<and>
     vendor_now boot (snd (run_state ?m g)) = vendor_now boot g \<and>
     (case fst (run_state ?m g) of
        Inr j \<Rightarrow> j = i + length (f (vendor_now boot g)) \<and> symlinks t = numbered (f (vendor_now boot g)) i
      | Inl e \<Rightarrow> e = ERROR \<and> prefix (symlinks t) (numbered (f (vendor_now boot g)) i))"
  proof (cases b)
    case True
    with r u quiet show ?thesis
      by (intro exI [of _ "(c, a) # u"])
        (auto simp: or_return_def require_def symlinks_append [of "[(c, a)]" u, simplified] split: sum.splits)
  next
    case False
    with r v quiet show ?thesis
      by (intro exI [of _ "[(c, a)]"]) (auto simp: or_return_def require_def)
  qed
qed

lemma links_block_endpoints:
  "links_block boot (do { modify (\<lambda>g. g\<lparr>mEndpointList := mEndpointList g @ eps\<rparr>); ret (Inr i) }) i (\<lambda>_. [])"
  by (simp add: links_block_def)

lemma links_block_setup_ffs: "links_block boot (setup_ffs E fd dir fn eps i) i (\<lambda>_. [fn])"
proof -
  have "links_block boot (or_return (link_next E fn i) (\<lambda>i. do {
       modify (\<lambda>g. g\<lparr>mEndpointList := mEndpointList g @ eps\<rparr>); ret (Inr i) })) i (\<lambda>_. [fn])"
    using links_block_or_return [OF links_block_link_next links_block_endpoints] by simp
  then show ?thesis unfolding setup_ffs_def
    by (intro links_block_require) (auto simp: write_file_def call_flag_def call_num_def Let_def)
qed

lemma links_block_link_vendor:
  "links_block boot (link_vendor E toks i) i (\<lambda>_. concat (map vendor_link toks))"
proof (induction toks arbitrary: i)
  case (Cons tok toks)
  have split: "vendor_link tok =
        (if tok = ''diag'' then [''diag.diag''] else []) @
        (if tok = ''serial_cdev'' then [''cser.dun.0''] else []) @
        (if tok = ''rmnet_gsi'' then [''gsi.rmnet''] else [])"
    by (simp add: vendor_link_def)
  show ?case
    unfolding link_vendor.simps list.map concat.simps split append_assoc
    by (intro links_block_or_return links_block_link_if Cons.IH)
qed (simp add: links_block_ret)

lemma emits_get_property [emits_intros]:
  "(\<And>r. P (GetProperty k, Text r)) \<Longrightarrow> emits P (get_property E k)"
  unfolding get_property_def by (intro emits_intros)

lemma emits_getVendorFunctions [emits_intros]:
  "(\<And>k r. P (GetProperty k, Text r)) \<Longrightarrow> (\<And>v. P (SetProperty VENDOR_CONFIG v, Void)) \<Longrightarrow>
     emits P (getVendorFunctions E)"
  unfolding getVendorFunctions_def Let_def by (intro emits_intros)

lemma links_block_setup_vendor:
  assumes "property_store E boot"
  shows "links_block boot (setup_vendor E i) i vendor_links"
  unfolding links_block_def
proof
  fix g :: gadget
  obtain vf g1 where r: "run_state (getVendorFunctions E) g = (vf, g1)"
    by (cases "run_state (getVendorFunctions E) g")
  note v = getVendorFunctions_value [OF assms r]
  have "emits no_symlink (getVendorFunctions E :: string gadget_op)"
    by (intro emits_intros) (simp_all add: no_symlink_def)
  from this r obtain t where t: "hist g1 = hist g @ t" "list_all no_symlink t"
    by (rule emitsE)
  note quiet = no_symlinks [OF t(2)]
  have "links_block boot (if vf \<noteq> [] then link_vendor E (strtok_all '','' (c_str vf)) i else ret (Inr i))
      i (\<lambda>_. vendor_links vf)"
  proof (cases "vf = []")
    case True
    have "vendor_links [] = []" by (simp add: vendor_links_def c_str_def strtok_all.simps)
    with True show ?thesis by (simp add: links_block_ret)
  qed (simp add: links_block_link_vendor vendor_links_def)
  from this [unfolded links_block_def, THEN spec, of g1, unfolded v(2)] obtain u where
    u: "hist (snd (run_state (setup_vendor E i) g)) = hist g1 @ u"
      "vendor_now boot (snd (run_state (setup_vendor E i) g)) = vf"
      "case fst (run_state (setup_vendor E i) g) of
         Inr j \<Rightarrow> j = i + length (vendor_links vf) \<and> symlinks u = numbered (vendor_links vf) i
       | Inl e \<Rightarrow> e = ERROR \<and> prefix (symlinks u) (numbered (vendor_links vf) i)"
    by (auto simp: setup_vendor_def r)
  show "\<exists>t. hist (snd (run_state (setup_vendor E i) g)) = hist g @ t \<and>
     vendor_now boot (snd (run_state (setup_vendor E i) g)) = vendor_now boot g \<and>
     (case fst (run_state (setup_vendor E i) g) of
        Inr j \<Rightarrow> j = i + length (vendor_links (vendor_now boot g)) \<and>
          symlinks t = numbered (vendor_links (vendor_now boot g)) i
      | Inl e \<Rightarrow> e = ERROR \<and> prefix (symlinks t) (numbered (vendor_links (vendor_now boot g)) i))"
    unfolding v(1) [symmetric] using u(2,3) by (intro exI [of _ "t @ u"]) (simp add: u(1) t(1) quiet split: sum.splits)
qed

lemma links_block_setup_links:
  assumes "property_store E boot"
  shows "links_block boot (setup_links K E functions fd) 0 (wanted K functions)"
proof -
  have media: "links_block boot (setup_media K E functions fd 0) 0
      (\<lambda>_. if functions AND MTP K \<noteq> 0 then [''ffs.mtp'']
        else if functions AND PTP K \<noteq> 0 then [''ffs.ptp''] else [])"
    by (simp add: setup_media_def links_block_setup_ffs links_block_ret)
  have adb: "links_block boot (if functions AND ADB K \<noteq> 0 then
       setup_ffs E fd ''/dev/usb-ffs/adb/'' ''ffs.adb'' adb_endpoints i else ret (Inr i)) i
      (\<lambda>_. if functions AND ADB K \<noteq> 0 then [''ffs.adb''] else [])" for i
    by (simp add: links_block_setup_ffs links_block_ret)
  have "wanted K functions = (\<lambda>vf. wanted K functions vf)" by simp
  then show ?thesis unfolding setup_links_def wanted_def
    by (elim ssubst) (intro links_block_or_return media links_block_link_if
        links_block_setup_vendor [OF assms] adb)
qed

section \<open>The links of a request\<close>

text \<open>The calls of \<open>setupFunctions\<close> around the links create none.\<close>

lemma emits_monitorFfs:
  assumes P: "\<And>e. thread_call e \<Longrightarrow> P e"
  shows "emits P (monitorFfs E batches)"
proof (rule emitsI)
  fix g :: gadget
  have "thread_rel g (emitted (monitorFfs E batches) g) (snd (run_state (monitorFfs E batches) g))"
    by (rule monitor_safeD [OF monitorFfs_safe])
  then show "\<exists>t. hist (snd (run_state (monitorFfs E batches) g)) = hist g @ t \<and> list_all P t"
    using P by (auto simp: thread_rel_def list_all_iff)
qed


lemma emits_close_fd [emits_intros]: "P (Close fd, Void) \<Longrightarrow> emits P (close_fd fd)"
  unfolding close_fd_def by (intro emits_intros)

lemma emits_notify_set [emits_intros]:
  "P (SetCurrentUsbFunctionsCb f s, Void) \<Longrightarrow> emits P (notify_set cb f s)"
  unfolding notify_set_def by (intro emits_intros)

lemma emits_write_file [emits_intros]:
  "(\<And>r. P (WriteStringToFile c p, Flag r)) \<Longrightarrow> emits P (write_file E c p)"
  unfolding write_file_def by (intro emits_intros)

lemma emits_monitor_while_waiting:
  "(\<And>e. thread_call e \<Longrightarrow> P e) \<Longrightarrow> emits P (monitor_while_waiting E B)"
  unfolding monitor_while_waiting_def by (intro emits_intros emits_monitorFfs)

text \<open>What pulling the gadget up may do besides what the thread does.\<close>

definition pull_up_call :: "64 word \<Rightarrow> gadget_call \<times> answer \<Rightarrow> bool" where
  "pull_up_call functions e \<longleftrightarrow> thread_call e \<or> (\<exists>s. fst e = SetCurrentUsbFunctionsCb functions s) \<or>
     (\<exists>fd. fst e = Close fd) \<or> fst e \<in> {Eventfd, Epoll_create, Thread_create} \<or>
     (\<exists>a b. fst e = Epoll_ctl_add a b) \<or> (\<exists>t. fst e = Cv_wait_for t)"

lemma emits_pull_up_now: "emits (pull_up_call f) (pull_up_now E f cb)"
  unfolding pull_up_now_def by (intro emits_intros) (simp_all add: pull_up_call_def thread_call_def)

lemma emits_open_monitor_fds: "emits (pull_up_call f) (open_monitor_fds E fd)"
  unfolding open_monitor_fds_def addEpollFd_def keep_fds_def by (intro emits_intros) (simp_all add: pull_up_call_def)

lemma emits_wait_for_pullup: "emits (pull_up_call f) (wait_for_pullup E B f cb timeout)"
  unfolding wait_for_pullup_def
  by (intro emits_intros emits_monitor_while_waiting) (simp_all add: pull_up_call_def)

lemma emits_start_monitor: "emits (pull_up_call f) (start_monitor E B f cb timeout fd)"
  unfolding start_monitor_def
  by (intro emits_intros emits_open_monitor_fds emits_wait_for_pullup) (simp_all add: pull_up_call_def)

lemma emits_finish_setup: "emits (pull_up_call f) (finish_setup K E B f cb timeout fd r)"
  unfolding finish_setup_def
  by (intro emits_intros emits_pull_up_now emits_start_monitor) (simp_all add: pull_up_call_def)

lemma pull_up_call_no_symlink: "pull_up_call f e \<Longrightarrow> no_symlink e"
  by (auto simp: pull_up_call_def no_symlink_def thread_call_def is_pullup_def)

lemma finish_setup_Inl: "fst (run_state (finish_setup K E B f cb timeout fd (Inl e)) g) = e"
  by (simp add: finish_setup_def close_fd_def run_calls)

text \<open>
  C7. \<open>setupFunctions\<close> links exactly the directories the specification lists for the requested mask
  and the vendor functions, as \<open>function0\<close>, \<open>function1\<close>, ... without gaps and in that order, when
  it succeeds; when it fails it has linked an initial part of them and nothing else.
\<close>

theorem setup_links_wanted:
  assumes store: "property_store E boot"
  shows "let run = setupFunctions K E B functions cb timeout;
             links = numbered (wanted K functions (vendor_now boot g)) 0 in
     prefix (symlinks (emitted run g)) links \<and>
     (fst (run_state run g) = SUCCESS \<longrightarrow> symlinks (emitted run g) = links)"
proof -
  let ?fd = "e_num E (hist g) Inotify_init" and ?links = "numbered (wanted K functions (vendor_now boot g)) 0"
  let ?g = "g\<lparr>hist := hist g @ [(Inotify_init, Num ?fd), (GetProperty PERSISTENT_BOOT_MODE,
       Text (e_text E (hist g @ [(Inotify_init, Num ?fd)]) (GetProperty PERSISTENT_BOOT_MODE)))]\<rparr>"
  obtain r g1 where r: "run_state (setup_links K E functions ?fd) ?g = (r, g1)"
    by (cases "run_state (setup_links K E functions ?fd) ?g")
  have "vendor_now boot ?g = vendor_now boot g" by (simp add: property_value_append)
  then obtain t where t: "hist g1 = hist ?g @ t" "case r of
      Inr j \<Rightarrow> symlinks t = ?links | Inl e \<Rightarrow> e = ERROR \<and> prefix (symlinks t) ?links"
    using links_blockE [OF links_block_setup_links [OF store] r] by metis
  obtain s g2 where s: "run_state (finish_setup K E B functions cb timeout ?fd r) g1 = (s, g2)"
    by (cases "run_state (finish_setup K E B functions cb timeout ?fd r) g1")
  from emits_finish_setup s obtain u where u: "hist g2 = hist g1 @ u" "list_all (pull_up_call functions) u"
    by (rule emitsE)
  from u(2) have "list_all no_symlink u" by (rule list.pred_mono_strong) (rule pull_up_call_no_symlink)
  then have quiet: "symlinks u = []" by (rule no_symlinks)
  have run: "run_state (setupFunctions K E B functions cb timeout) g =
      (if ?fd < 0 then run_state (do { close_fd ?fd; ret ERROR })
         (g\<lparr>hist := hist g @ [(Inotify_init, Num ?fd)]\<rparr>) else (s, g2))"
    using r s by (simp add: setupFunctions_def get_property_def run_calls)
  show ?thesis
  proof (cases "?fd < 0")
    case True
    then show ?thesis
      by (simp add: emitted_def run close_fd_def run_calls symlinks_def)
  next
    case False
    have tr: "symlinks (emitted (setupFunctions K E B functions cb timeout) g) = symlinks t"
      using False t(1) u(1) quiet
      by (simp add: emitted_def run no_symlink_symlinks no_symlink_def)
    show ?thesis
    proof (cases r)
      case (Inl e)
      with s t(2) have "s = ERROR" using finish_setup_Inl [of K E B "functions" cb timeout ?fd e g1] by simp
      with Inl t(2) tr run False show ?thesis by (simp add: Let_def)
    next
      case (Inr j)
      with t(2) tr show ?thesis by (simp add: Let_def)
    qed
  qed
qed


theorem setup_links_wanted_witness:
  "symlinks (emitted (setupFunctions sample_bits sample_props (\<lambda>_. Some []) 5 True 1000) (new_gadget 0 sample_props)) =
     [(FUNCTIONS_PATH @ ''ffs.mtp'', FUNCTION_PATH @ ''0''), (FUNCTIONS_PATH @ ''diag.diag'', FUNCTION_PATH @ ''1''),
      (FUNCTIONS_PATH @ ''ffs.adb'', FUNCTION_PATH @ ''2'')]"
proof -
  let ?boot = "\<lambda>k. if k = PERSISTENT_BOOT_MODE then ''usbradio'' else []"
  have store: "property_store sample_props ?boot"
    by (simp add: property_store_def sample_props_def)
  have ok: "fst (run_state (setupFunctions sample_bits sample_props (\<lambda>_. Some []) 5 True 1000)
      (new_gadget 0 sample_props)) = SUCCESS" by code_simp
  have wanted: "wanted sample_bits 5 (vendor_now ?boot (new_gadget 0 sample_props)) =
      [''ffs.mtp'', ''diag.diag'', ''ffs.adb'']" by code_simp
  have n: "numbered [''ffs.mtp'', ''diag.diag'', ''ffs.adb''] 0 =
      [(FUNCTIONS_PATH @ ''ffs.mtp'', FUNCTION_PATH @ ''0''), (FUNCTIONS_PATH @ ''diag.diag'', FUNCTION_PATH @ ''1''),
       (FUNCTIONS_PATH @ ''ffs.adb'', FUNCTION_PATH @ ''2'')]" by code_simp
  show ?thesis
    using setup_links_wanted [OF store, of sample_bits "\<lambda>_. Some []" 5 True 1000 "new_gadget 0 sample_props"]
      ok wanted n by (simp add: Let_def)
qed

end
