(* ===== verification/GadgetRequests.thy ===== *)
theory GadgetRequests
  imports GadgetLinks "HOL-Library.Multiset"
begin

text \<open>
  Sequences of requests to the gadget service, with the monitor thread running between them: the
  ledger of threads and file descriptors, what the client is told, and what the object reports.
\<close>

datatype gadget_request =
    Set_functions "64 word" bool "64 word" scheduler
  | Get_functions
  | Reset_gadget
  | Monitor_runs "ep_event list list"

primrec serve :: "gadget_functions \<Rightarrow> gadget_call env \<Rightarrow> gadget_request \<Rightarrow> unit gadget_op" where
  "serve K E (Set_functions functions cb timeout B) = setCurrentUsbFunctions K E B functions cb timeout"
| "serve K E Get_functions = getCurrentUsbFunctions"
| "serve K E Reset_gadget = do { _ \<leftarrow> reset E; ret () }"
| "serve K E (Monitor_runs batches) = monitorFfs E batches"

definition gadget_after ::
  "gadget_functions \<Rightarrow> gadget_call env \<Rightarrow> 64 word \<Rightarrow> gadget_request list \<Rightarrow> gadget" where
  "gadget_after K E junk reqs = snd (run_state (for_each reqs (serve K E)) (new_gadget junk E))"

section \<open>The ledger of threads and descriptors\<close>

text \<open>
  What the calls so far leave open: whether a monitor thread exists, and the descriptors.  A second
  thread, a join without a thread and a close of a descriptor that is not open are \<open>None\<close>.
\<close>

fun resources_step ::
  "bool \<times> int multiset \<Rightarrow> gadget_call \<times> answer \<Rightarrow> (bool \<times> int multiset) option" where
  "resources_step (up, fds) (Thread_create, _) = (if up then None else Some (True, fds))"
| "resources_step (up, fds) (Thread_join, _) = (if up then Some (False, fds) else None)"
| "resources_step (up, fds) (Close fd, _) =
     (if fd \<in># fds then Some (up, fds - {#fd#}) else None)"
| "resources_step (up, fds) (Inotify_init, Num fd) = Some (up, if fd = -1 then fds else add_mset fd fds)"
| "resources_step (up, fds) (Eventfd, Num fd) = Some (up, if fd = -1 then fds else add_mset fd fds)"
| "resources_step (up, fds) (Epoll_create, Num fd) = Some (up, if fd = -1 then fds else add_mset fd fds)"
| "resources_step r _ = Some r"

definition resources :: "gadget_call history \<Rightarrow> (bool \<times> int multiset) option" where
  "resources h = foldl (\<lambda>r e. case r of None \<Rightarrow> None | Some r \<Rightarrow> resources_step r e) (Some (False, {#})) h"

fun continued :: "(bool \<times> int multiset) option \<Rightarrow> gadget_call history \<Rightarrow> (bool \<times> int multiset) option"
  where
  "continued r [] = r"
| "continued None (e # t) = None"
| "continued (Some r) (e # t) = continued (resources_step r e) t"

lemma continued_None [simp]: "continued None t = None"
  by (cases t) simp_all

lemma resources_append: "resources (h @ t) = continued (resources h) t"
proof -
  have "foldl (\<lambda>r e. case r of None \<Rightarrow> None | Some r \<Rightarrow> resources_step r e) r t = continued r t" for r
    by (induction t arbitrary: r) (auto split: option.split)
  then show ?thesis by (simp add: resources_def)
qed

lemma resources_snoc:
  "resources (h @ [e]) = (case resources h of None \<Rightarrow> None | Some r \<Rightarrow> resources_step r e)"
  by (simp add: resources_def)

lemma resources_Nil [simp]: "resources [] = Some (False, {#})"
  by (simp add: resources_def)

lemma resources_snoc_Some: "resources h = Some r \<Longrightarrow> resources (h @ [e]) = resources_step r e"
  by (simp add: resources_snoc)

definition neutral :: "gadget_call \<times> answer \<Rightarrow> bool" where
  "neutral e \<longleftrightarrow> (\<forall>r. resources_step r e = Some r)"

lemma resources_neutral: "list_all neutral t \<Longrightarrow> resources (h @ t) = resources h"
proof (induction t arbitrary: h)
  case (Cons e t)
  from Cons.IH [of "h @ [e]"] Cons.prems have "resources (h @ e # t) = resources (h @ [e])" by simp
  then show ?case using Cons.prems by (simp add: resources_snoc neutral_def split: option.split)
qed simp

lemma neutral_simps [simp]:
  "neutral (WriteStringToFile a b, r)" "neutral (GetProperty a, r)" "neutral (SetProperty a b, r)"
  "neutral (Access a, r)" "neutral (Opendir a, r)" "neutral (Closedir a, r)" "neutral (Remove a, r)"
  "neutral (Symlink a b, r)" "neutral (Inotify_add_watch x a, r)" "neutral (Epoll_ctl_add x y, r)"
  "neutral (Write_event x w, r)" "neutral (Notify_all, r)" "neutral (Cv_wait_for w, r)"
  "neutral (Usleep k, r)" "neutral (SetCurrentUsbFunctionsCb w s, r)"
  "neutral (GetCurrentUsbFunctionsCb w s, r)"
  by (auto simp: neutral_def)

text \<open>The part of the object that accounts for threads and descriptors.\<close>

type_synonym core = "int \<times> int \<times> int \<times> bool \<times> bool \<times> (bool \<times> int multiset) option"

definition core :: "gadget \<Rightarrow> core" where
  "core g = (mInotifyFd g, mEventFd g, mEpollFd g, mMonitorCreated g, mon_pc g = Absent,
     resources (hist g))"

definition held :: "int list \<Rightarrow> int multiset" where
  "held fds = mset (filter (\<lambda>fd. fd \<noteq> -1) fds)"

text \<open>
  The object holds its three descriptors exactly while it has a monitor thread, and nothing else is
  open.
\<close>

definition gadget_inv :: "gadget \<Rightarrow> bool" where
  "gadget_inv g \<longleftrightarrow>
     (mMonitorCreated g \<longleftrightarrow> mon_pc g \<noteq> Absent) \<and>
     (mInotifyFd g \<noteq> -1 \<longleftrightarrow> mMonitorCreated g) \<and>
     (mEventFd g \<noteq> -1 \<longleftrightarrow> mMonitorCreated g) \<and>
     (mEpollFd g \<noteq> -1 \<longleftrightarrow> mMonitorCreated g) \<and>
     resources (hist g) = Some (mMonitorCreated g, held [mInotifyFd g, mEventFd g, mEpollFd g])"

lemma gadget_inv_core: "core g = core g' \<Longrightarrow> gadget_inv g \<longleftrightarrow> gadget_inv g'"
  by (auto simp: core_def gadget_inv_def)

lemma core_neutral [simp]: "neutral e \<Longrightarrow> core (g\<lparr>hist := hist g @ [e]\<rparr>) = core g"
  by (simp add: core_def resources_neutral)

section \<open>What leaves the ledger alone\<close>

lemma core_monitorFfs: "preserves core (monitorFfs E batches)"
  unfolding preserves_def
proof
  fix g
  let ?g = "snd (run_state (monitorFfs E batches) g)"
  have rel: "thread_rel g (emitted (monitorFfs E batches) g) ?g"
    by (rule monitor_safeD [OF monitorFfs_safe])
  have "neutral e" if "thread_call e" for e
    using that by (cases e) (auto simp: thread_call_def is_pullup_def)
  with rel have "list_all neutral (emitted (monitorFfs E batches) g)"
    by (auto simp: thread_rel_def list_all_iff)
  moreover have "mon_pc ?g = Absent \<longleftrightarrow> mon_pc g = Absent"
    by (auto simp: monitorFfs_def split_beta monitor_loop_stop monitor_start_pc)
  ultimately show "core ?g = core g"
    using rel by (simp add: core_def thread_rel_def resources_neutral)
qed

lemma core_monitor_while_waiting: "preserves core (monitor_while_waiting E B)"
  unfolding monitor_while_waiting_def by (intro preserves_intros core_monitorFfs)

lemma core_write_file [simp]: "preserves core (write_file E c p)"
  unfolding write_file_def by (intro preserves_intros) simp

lemma core_notify_set [simp]: "preserves core (notify_set cb f s)"
  unfolding notify_set_def by (intro preserves_intros) simp

lemma core_getVendorFunctions [simp]: "preserves core (getVendorFunctions E)"
  unfolding getVendorFunctions_def get_property_def Let_def by (intro preserves_intros) simp_all

lemma core_setVidPid [simp]: "preserves core (setVidPid E v p)"
  unfolding setVidPid_def by (intro preserves_intros) simp_all

lemma core_validate: "preserves core (validateAndSetVidPid K E f)"
  unfolding validateAndSetVidPid_def user_ids_def by (intro preserves_intros) simp_all

lemma core_unlink_entries [simp]: "preserves core (unlink_entries E path es)"
  by (induction es) (auto intro!: preserves_intros)

lemma core_unlinkFunctions: "preserves core (unlinkFunctions E path)"
  unfolding unlinkFunctions_def by (intro preserves_intros) simp_all

lemma core_link_if [simp]: "preserves core (link_if E b f i)"
  unfolding link_if_def link_next_def linkFunction_def by (intro preserves_intros) simp_all

lemma core_setup_ffs [simp]: "preserves core (setup_ffs E fd dir f eps i)"
  unfolding setup_ffs_def link_next_def linkFunction_def
  by (intro preserves_intros) (simp_all add: core_def resources_neutral)

lemma core_link_vendor [simp]: "preserves core (link_vendor E toks i)"
  by (induction toks arbitrary: i) (auto intro!: preserves_intros)

lemma core_setup_links: "preserves core (setup_links K E f fd)"
  unfolding setup_links_def setup_media_def setup_vendor_def by (intro preserves_intros) simp_all


section \<open>Tearing down gives everything back\<close>

lemma inv_preserved: "preserves core m \<Longrightarrow> gadget_inv g \<Longrightarrow> (\<And>a g'. gadget_inv g' \<Longrightarrow> Q a g') \<Longrightarrow> wp m Q g"
  by (rule wp_preserves) (auto dest: gadget_inv_core)

lemma inv_require:
  assumes "preserves core m" and "gadget_inv g"
    and "\<And>g'. gadget_inv g' \<Longrightarrow> Q (Inl e) g'" and "\<And>g'. gadget_inv g' \<Longrightarrow> wp (f ()) Q g'"
  shows "wp (or_return (require e m) f) Q g"
  unfolding wp_or_return wp_require
  by (rule inv_preserved [OF assms(1,2)]) (use assms(3,4) in auto)

text \<open>Between the join and the end of \<open>drop_fds\<close>: no thread, the descriptors still open.\<close>

definition joined :: "gadget \<Rightarrow> bool" where
  "joined g \<longleftrightarrow> \<not> mMonitorCreated g \<and> mon_pc g = Absent \<and>
     resources (hist g) = Some (False, held [mInotifyFd g, mEventFd g, mEpollFd g])"

lemma stop_monitor_joined:
  assumes "gadget_inv g" and "mMonitorCreated g"
  shows "wp (stop_monitor E B) (\<lambda>_. joined) g"
proof -
  have "wp (do { fd \<leftarrow> gets mEventFd; call_void (Write_event fd 100); monitor_while_waiting E B;
      monitorFfs E [[Event_value 100]] }) (\<lambda>_ g'. core g' = core g) g"
    by (rule wp_preserves [where f = core], intro preserves_intros core_monitor_while_waiting core_monitorFfs) simp_all
  then have "wp (do { fd \<leftarrow> gets mEventFd; call_void (Write_event fd 100); monitor_while_waiting E B;
      monitorFfs E [[Event_value 100]]; call_void Thread_join;
      modify (\<lambda>g. g\<lparr>mMonitorCreated := False, mon_pc := Absent\<rparr>) }) (\<lambda>_. joined) g"
    unfolding wp_rules
    by (elim wp_mono)
      (use assms in \<open>auto simp: joined_def gadget_inv_def core_def wp_rules resources_snoc_Some\<close>)
  then show ?thesis by (simp add: stop_monitor_def)
qed

lemma drop_fds_inv: "joined g \<Longrightarrow> wp drop_fds (\<lambda>_ g'. gadget_inv g' \<and> \<not> mMonitorCreated g') g"
  unfolding drop_fds_def close_fd_def joined_def
  by (auto simp: wp_rules gadget_inv_def held_def resources_append)

lemma close_monitor_inv:
  assumes "gadget_inv g" and "\<And>g'. gadget_inv g' \<and> \<not> mMonitorCreated g' \<Longrightarrow> Q (Inr SUCCESS) g'"
  shows "wp (do {
       created \<leftarrow> gets mMonitorCreated;
       (if created then stop_monitor E B else ret ());
       drop_fds;
       modify (\<lambda>g. g\<lparr>mEndpointList := []\<rparr>);
       ret (Inr SUCCESS) }) Q g"
proof -
  have "wp (if mMonitorCreated g then stop_monitor E B else ret ()) (\<lambda>_. joined) g"
    using assms(1) by (auto simp: stop_monitor_joined wp_rules joined_def gadget_inv_def)
  then have "wp (if mMonitorCreated g then stop_monitor E B else ret ())
      (\<lambda>_. wp drop_fds (\<lambda>_ g'. gadget_inv g' \<and> \<not> mMonitorCreated g')) g"
    by (rule wp_mono) (rule drop_fds_inv)
  then show ?thesis
    unfolding wp_rules
    by (cases "mMonitorCreated g") (auto elim!: wp_mono intro!: assms(2) simp: gadget_inv_def)
qed

lemma tearDown_inv:
  assumes "gadget_inv g"
  shows "wp (tearDownGadget E B)
     (\<lambda>s g'. gadget_inv g' \<and> (s = SUCCESS \<longrightarrow> \<not> mMonitorCreated g')) g"
proof -
  have unlink: "preserves core (do { r \<leftarrow> unlinkFunctions E CONFIG_PATH; ret (r = 0) })"
    by (intro preserves_intros core_unlinkFunctions)
  show ?thesis
    unfolding tearDownGadget_def wp_returned wp_or_return [of "do { _ \<leftarrow> write_file E ''none'' PULLUP_PATH; ret (Inr ()) }"]
    unfolding wp_bind [of "write_file E ''none'' PULLUP_PATH"] wp_return
    by (intro inv_preserved [OF core_write_file assms])
      (simp, intro inv_require core_write_file unlink close_monitor_inv, auto)
qed


section \<open>Setting up takes what it keeps\<close>

text \<open>While the functions are linked: no monitor, and only the inotify descriptor \<open>fd\<close> is open.\<close>

definition watching :: "int \<Rightarrow> gadget \<Rightarrow> bool" where
  "watching fd g \<longleftrightarrow> \<not> mMonitorCreated g \<and> mon_pc g = Absent \<and> mInotifyFd g = -1 \<and> mEventFd g = -1 \<and>
     mEpollFd g = -1 \<and> resources (hist g) = Some (False, held [fd])"

text \<open>The three descriptors are in the object, the thread is not created yet.\<close>

definition armed :: "gadget \<Rightarrow> bool" where
  "armed g \<longleftrightarrow> \<not> mMonitorCreated g \<and> mon_pc g = Absent \<and> mInotifyFd g \<noteq> -1 \<and> mEventFd g \<noteq> -1 \<and>
     mEpollFd g \<noteq> -1 \<and> resources (hist g) = Some (False, held [mInotifyFd g, mEventFd g, mEpollFd g])"

lemma watching_preserved:
  "preserves core m \<Longrightarrow> watching fd g \<Longrightarrow> (\<And>a g'. watching fd g' \<Longrightarrow> Q a g') \<Longrightarrow> wp m Q g"
  by (rule wp_preserves) (auto simp: core_def watching_def)

lemma watching_close: "watching fd g \<Longrightarrow> wp (close_fd fd) (\<lambda>_. gadget_inv) g"
  unfolding close_fd_def watching_def
  by (auto simp: wp_rules gadget_inv_def held_def resources_append)

lemma open_monitor_fds_armed:
  assumes "watching fd g" and "fd \<noteq> -1"
  shows "wp (open_monitor_fds E fd) (\<lambda>r g'. case r of Inl _ \<Rightarrow> gadget_inv g' | Inr _ \<Rightarrow> armed g') g"
  using assms unfolding open_monitor_fds_def addEpollFd_def keep_fds_def close_fd_def watching_def
  by (auto simp: wp_rules Let_def gadget_inv_def armed_def held_def resources_append)

lemma core_wait_for_pullup: "preserves core (wait_for_pullup E B f cb timeout)"
  unfolding wait_for_pullup_def
  by (intro preserves_intros core_monitor_while_waiting) simp_all

lemma start_monitor_inv:
  assumes "watching fd g" and "fd \<noteq> -1"
  shows "wp (start_monitor E B f cb timeout fd) (\<lambda>_. gadget_inv) g"
proof -
  have "wp (do {
       modify (\<lambda>g. g\<lparr>gadgetPullup := False\<rparr>);
       call_void Thread_create;
       modify (\<lambda>g. g\<lparr>mMonitorCreated := True, mon_pc := Created\<rparr>);
       wait_for_pullup E B f cb timeout;
       ret (Inr SUCCESS) }) (\<lambda>_. gadget_inv) g" if "armed g" for g
    unfolding wp_rules
    by (rule inv_preserved [OF core_wait_for_pullup])
      (use that in \<open>auto simp: armed_def gadget_inv_def resources_append\<close>)
  then show ?thesis
    unfolding start_monitor_def wp_returned wp_or_return
    by (intro wp_mono [OF open_monitor_fds_armed [OF assms]]) (auto split: sum.splits)
qed

lemma finish_setup_inv:
  assumes "watching fd g" and "fd \<noteq> -1"
  shows "wp (finish_setup K E B f cb timeout fd r) (\<lambda>_. gadget_inv) g"
proof -
  have now: "preserves core (pull_up_now E f cb)"
    unfolding pull_up_now_def by (intro preserves_intros core_write_file core_notify_set) (simp add: core_def)
  have "wp (do { status \<leftarrow> pull_up_now E f cb; close_fd fd; ret status }) (\<lambda>_. gadget_inv) g"
    unfolding wp_bind wp_return
    by (rule watching_preserved [OF now assms(1)]) (rule watching_close)
  moreover have "wp (do { close_fd fd; ret status }) (\<lambda>_. gadget_inv) g" for status
    unfolding wp_bind wp_return by (rule watching_close [OF assms(1)])
  ultimately show ?thesis
    by (auto simp: finish_setup_def start_monitor_inv [OF assms] split: sum.split)
qed

lemma setupFunctions_inv:
  assumes "gadget_inv g" and "\<not> mMonitorCreated g"
  shows "wp (setupFunctions K E B f cb timeout) (\<lambda>_. gadget_inv) g"
proof -
  let ?fd = "e_num E (hist g) Inotify_init"
  have first: "watching ?fd (g\<lparr>hist := hist g @ [(Inotify_init, Num ?fd)]\<rparr>)"
    using assms by (auto simp: watching_def gadget_inv_def held_def resources_append)
  have rest: "wp (do {
      _ \<leftarrow> get_property E PERSISTENT_BOOT_MODE;
      r \<leftarrow> setup_links K E f ?fd;
      finish_setup K E B f cb timeout ?fd r }) (\<lambda>_. gadget_inv) (g\<lparr>hist := hist g @ [(Inotify_init, Num ?fd)]\<rparr>)"
    if "?fd \<noteq> -1"
  proof -
    have boot: "preserves core (get_property E PERSISTENT_BOOT_MODE)"
      unfolding get_property_def by (intro preserves_intros) simp
    show ?thesis
      unfolding wp_bind
      by (rule watching_preserved [OF boot first], rule watching_preserved [OF core_setup_links])
        (use that in \<open>auto intro: finish_setup_inv\<close>)
  qed
  have "wp (do { close_fd ?fd; ret ERROR }) (\<lambda>_. gadget_inv) (g\<lparr>hist := hist g @ [(Inotify_init, Num ?fd)]\<rparr>)"
    unfolding wp_bind wp_return by (rule watching_close [OF first])
  with rest show ?thesis
    by (auto simp: setupFunctions_def wp_bind [of "call_num E Inotify_init"] wp_call_num Let_def)
qed

lemma idle_preserved:
  "preserves core m \<Longrightarrow> gadget_inv g \<and> \<not> mMonitorCreated g \<Longrightarrow>
     (\<And>a g'. gadget_inv g' \<and> \<not> mMonitorCreated g' \<Longrightarrow> Q a g') \<Longrightarrow> wp m Q g"
  by (rule wp_preserves) (auto simp: core_def gadget_inv_def)

lemma setCurrentUsbFunctions_inv:
  assumes "gadget_inv g"
  shows "wp (setCurrentUsbFunctions K E B f cb timeout) (\<lambda>_. gadget_inv) g"
proof -
  have "gadget_inv (g\<lparr>mCurrentUsbFunctions := f, mCurrentUsbFunctionsApplied := False\<rparr>)"
    using assms by (simp add: gadget_inv_def)
  note torn = tearDown_inv [OF this, of E B]
  let ?idle = "\<lambda>g. gadget_inv g \<and> \<not> mMonitorCreated g"
  have note_inv: "gadget_inv g \<Longrightarrow> wp (notify_set cb f s) (\<lambda>_. gadget_inv) g" for s g
    by (rule inv_preserved [OF core_notify_set])
  have set_up: "wp (do { status \<leftarrow> setupFunctions K E B f cb timeout;
      if status \<noteq> SUCCESS then notify_set cb f status else ret () }) (\<lambda>_. gadget_inv) g" if "?idle g" for g
    unfolding wp_bind
    by (rule wp_mono [OF setupFunctions_inv]) (use that note_inv in \<open>auto simp: wp_return\<close>)
  have valid: "wp (do { status \<leftarrow> validateAndSetVidPid K E f;
      if status \<noteq> SUCCESS then notify_set cb f status
      else do { status \<leftarrow> setupFunctions K E B f cb timeout;
        if status \<noteq> SUCCESS then notify_set cb f status else ret () } }) (\<lambda>_. gadget_inv) g"
    if "?idle g" for g
    unfolding wp_bind [of "validateAndSetVidPid K E f"]
    by (rule idle_preserved [OF core_validate that]) (use note_inv set_up in auto)
  have up: "wp (do { call_void (Usleep 100000);
      if f = NONE K then notify_set cb f SUCCESS
      else do { status \<leftarrow> validateAndSetVidPid K E f;
      if status \<noteq> SUCCESS then notify_set cb f status
      else do { status \<leftarrow> setupFunctions K E B f cb timeout;
        if status \<noteq> SUCCESS then notify_set cb f status else ret () } } }) (\<lambda>_. gadget_inv) g"
    if "?idle g" for g
  proof -
    have "preserves core (call_void (Usleep 100000) :: unit gadget_op)"
      by (intro preserves_intros) simp
    then show ?thesis
      unfolding wp_bind [of "call_void (Usleep 100000)"]
      by (rule idle_preserved [OF _ that]) (use note_inv valid in auto)
  qed
  show ?thesis
    unfolding setCurrentUsbFunctions_def wp_bind [of "modify h" for h] wp_modify
      wp_bind [of "tearDownGadget E B"]
    by (rule wp_mono [OF torn]) (use note_inv up in auto)
qed

lemma inv_snd: "preserves core m \<Longrightarrow> gadget_inv g \<Longrightarrow> gadget_inv (snd (run_state m g))"
  by (metis gadget_inv_core preserves_snd)

lemma core_reset: "preserves core (reset E)"
  unfolding reset_def by (intro preserves_intros core_write_file)

lemma core_get: "preserves core getCurrentUsbFunctions"
  unfolding getCurrentUsbFunctions_def by (intro preserves_intros) simp

lemma serve_inv: "gadget_inv g \<Longrightarrow> gadget_inv (snd (run_state (serve K E req) g))"
proof (induction req)
  case (Set_functions f cb timeout B)
  then show ?case using setCurrentUsbFunctions_inv [of g K E B f cb timeout] by (simp add: wp_iff)
next
  case (Reset_gadget)
  then show ?case by (simp add: split_beta inv_snd [OF core_reset])
qed (simp_all add: inv_snd [OF core_monitorFfs] inv_snd [OF core_get])

text \<open>
  C8. Whatever requests arrive, in any order and with any failures of the kernel, and however far
  the monitor thread gets between them: the object has at most one monitor thread, which is joined
  before a new one is created; it holds the inotify, event and epoll descriptors exactly while it
  has a thread; every other descriptor it opened is closed, and none is closed twice.
\<close>

theorem gadget_resources:
  "let g = gadget_after K E junk reqs in
     (mMonitorCreated g \<longleftrightarrow> mon_pc g \<noteq> Absent) \<and>
     list_all (\<lambda>fd. fd \<noteq> -1 \<longleftrightarrow> mMonitorCreated g) [mInotifyFd g, mEventFd g, mEpollFd g] \<and>
     resources (hist g) = Some (mMonitorCreated g,
       if mMonitorCreated g then {#mInotifyFd g, mEventFd g, mEpollFd g#} else {#})"
proof -
  have "gadget_inv g \<Longrightarrow> gadget_inv (snd (run_state (for_each reqs (serve K E)) g))" for g
    by (induction reqs arbitrary: g) (simp_all add: split_beta serve_inv)
  moreover have "gadget_inv (new_gadget junk E)"
    by (simp add: new_gadget_def call_num_def Let_def gadget_inv_def held_def
        resources_append [of "[]", simplified])
  ultimately have "gadget_inv (gadget_after K E junk reqs)" by (simp add: gadget_after_def)
  then show ?thesis by (auto simp: Let_def gadget_inv_def held_def)
qed


section \<open>What the client is told\<close>

definition callbacks :: "gadget_call history \<Rightarrow> (64 word \<times> gadget_status) list" where
  "callbacks t = concat (map (\<lambda>e. case fst e of SetCurrentUsbFunctionsCb f s \<Rightarrow> [(f, s)] | _ \<Rightarrow> []) t)"

lemma callbacks_simps [simp]:
  "callbacks [] = []" "callbacks (t @ u) = callbacks t @ callbacks u"
  "callbacks ((SetCurrentUsbFunctionsCb f s, a) # t) = (f, s) # callbacks t"
  by (simp_all add: callbacks_def)

lemma pulled_up_answer [simp]: "\<not> pulled_up [(SetCurrentUsbFunctionsCb f s, a)]"
  by (simp add: pulled_up_def)

text \<open>An event that tells the client and the waiting request nothing and pulls nothing up.\<close>

definition plain :: "gadget_call \<times> answer \<Rightarrow> bool" where
  "plain e \<longleftrightarrow> \<not> is_pullup e \<and> fst e \<noteq> Notify_all \<and> (\<forall>f s. fst e \<noteq> SetCurrentUsbFunctionsCb f s)"

lemma callbacks_no_cb: "list_all (\<lambda>e. \<forall>f s. fst e \<noteq> SetCurrentUsbFunctionsCb f s) t \<Longrightarrow> callbacks t = []"
  unfolding callbacks_def by (induction t) (auto split: gadget_call.splits)

lemma plain_trace: "list_all plain t \<Longrightarrow> callbacks t = [] \<and> \<not> pulled_up t \<and> \<not> notified t"
  by (auto simp: list_all_iff plain_def not_pulled_up notified_def intro!: callbacks_no_cb)

lemma callbacks_thread: "list_all thread_call t \<Longrightarrow> callbacks t = []"
  by (rule callbacks_no_cb) (auto simp: list_all_iff thread_call_def is_pullup_def)

lemma callbacks_plain_Cons [simp]: "plain e \<Longrightarrow> callbacks (e # t) = callbacks t"
  and pulled_up_plain_Cons [simp]: "plain e \<Longrightarrow> pulled_up (e # t) = pulled_up t"
  using plain_trace [of "[e]"] callbacks_simps(2) [of "[e]" t] pulled_up_append [of "[e]" t] by simp_all

text \<open>
  What tells a request that the gadget is up: with a FunctionFS function the monitor's notification, at the
  end of its critical section, without one its own write of the UDC node.
\<close>

definition seen_up :: "bool \<Rightarrow> gadget_call history \<Rightarrow> bool" where
  "seen_up ffs t = (if ffs then notified t else pulled_up t)"

lemma seen_up_simps [simp]:
  "seen_up ffs (t @ u) \<longleftrightarrow> seen_up ffs t \<or> seen_up ffs u" "\<not> seen_up ffs []"
  "\<not> seen_up ffs [(SetCurrentUsbFunctionsCb f s, a)]" "plain e \<Longrightarrow> seen_up ffs (e # t) = seen_up ffs t"
  "list_all plain t \<Longrightarrow> \<not> seen_up ffs t"
  by (auto simp: seen_up_def plain_trace) (simp_all add: plain_def)

text \<open>What \<open>setupFunctions\<close> promises about its result, the callback and the pull-up.\<close>

definition setup_outcome :: "bool \<Rightarrow> 64 word \<Rightarrow> bool \<Rightarrow> gadget_status \<Rightarrow> gadget_call history \<Rightarrow> bool" where
  "setup_outcome ffs f cb s t \<longleftrightarrow>
     (if s = SUCCESS then callbacks t = (if cb then [(f, if seen_up ffs t then SUCCESS else ERROR)] else [])
      else callbacks t = [] \<and> \<not> seen_up ffs t)"

lemma plain_calls [simp]:
  "plain (WriteStringToFile c VENDOR_ID_PATH, a)" "plain (WriteStringToFile c PRODUCT_ID_PATH, a)"
  "plain (WriteStringToFile c DESC_USE_PATH, a)" "plain (WriteStringToFile c DEVICE_CLASS_PATH, a)"
  "plain (WriteStringToFile c DEVICE_SUB_CLASS_PATH, a)" "plain (WriteStringToFile c DEVICE_PROTOCOL_PATH, a)"
  "plain (WriteStringToFile ''none'' p, a)" "plain (GetProperty k, a)" "plain (SetProperty k v, a)"
  "plain (Symlink x y, a)" "plain (Inotify_add_watch fd p, a)" "plain (Close fd, a)" "plain (Eventfd, a)"
  "plain (Epoll_create, a)" "plain (Epoll_ctl_add fd fd', a)" "plain (Thread_create, a)"
  "plain (Inotify_init, a)" "plain (Usleep n, a)" "plain (Cv_wait_for w, a)"
  by (simp_all add: plain_def is_pullup_def gadget_paths GADGET_NAME_def)

lemma plain_setVidPid: "emits plain (setVidPid E vid pid)"
  unfolding setVidPid_def by (intro emits_intros) simp_all

lemma plain_validate: "emits plain (validateAndSetVidPid K E f)"
  unfolding validateAndSetVidPid_def user_ids_def
  by (intro emits_intros plain_setVidPid) simp_all

lemma plain_link_if: "emits plain (link_if E b fn i)"
  unfolding link_if_def link_next_def linkFunction_def by (intro emits_intros) simp_all

lemma plain_setup_ffs: "emits plain (setup_ffs E fd dir fn eps i)"
  unfolding setup_ffs_def link_next_def linkFunction_def by (intro emits_intros) simp_all

lemma plain_link_vendor: "emits plain (link_vendor E toks i)"
  by (induction toks arbitrary: i) (auto intro!: emits_intros plain_link_if)

lemma plain_setup_links: "emits plain (setup_links K E f fd)"
  unfolding setup_links_def setup_media_def setup_vendor_def
  by (intro emits_intros plain_setup_ffs plain_link_if plain_link_vendor) simp_all

lemma plain_open_monitor_fds: "emits plain (open_monitor_fds E fd)"
  unfolding open_monitor_fds_def addEpollFd_def keep_fds_def by (intro emits_intros) simp_all

lemma outcome_plain: "list_all plain t \<Longrightarrow> s \<noteq> SUCCESS \<Longrightarrow> setup_outcome ffs f cb s t"
  by (simp add: setup_outcome_def plain_trace)

lemma outcome_append:
  "list_all plain t \<Longrightarrow> setup_outcome ffs f cb s (t @ u) = setup_outcome ffs f cb s u"
  "list_all plain u \<Longrightarrow> setup_outcome ffs f cb s (t @ u) = setup_outcome ffs f cb s t"
  by (simp_all add: setup_outcome_def plain_trace)

lemma wait_for_pullup_outcome:
  assumes "\<not> gadgetPullup g"
  shows "\<exists>t. hist (snd (run_state (wait_for_pullup E B f cb timeout) g)) = hist g @ t \<and>
     setup_outcome True f cb SUCCESS t"
proof (cases cb)
  case True
  let ?g = "g\<lparr>hist := hist g @ [(Cv_wait_for timeout, Void)]\<rparr>"
  let ?h = "snd (run_state (monitor_while_waiting E B) ?g)"
  have "monitor_safe (monitor_while_waiting E B)"
    unfolding monitor_while_waiting_def
    by (auto intro!: safe_intros monitorFfs_safe split: option.split)
  then have rel: "thread_rel ?g (emitted (monitor_while_waiting E B) ?g) ?h" by (rule monitor_safeD)
  then show ?thesis
    using True assms
    by (intro exI [of _ "(Cv_wait_for timeout, Void) # emitted (monitor_while_waiting E B) ?g @
          [(SetCurrentUsbFunctionsCb f (if gadgetPullup ?h then SUCCESS else ERROR), Void)]"])
      (auto simp: wait_for_pullup_def call_void_def split_beta thread_rel_def setup_outcome_def
        callbacks_thread seen_up_def)
next
  case False
  then show ?thesis
    by (intro exI [of _ "[]"]) (simp add: wait_for_pullup_def setup_outcome_def)
qed


lemma start_monitor_outcome: "yields (setup_outcome True f cb) (start_monitor E B f cb timeout fd)"
proof -
  have body: "yields (\<lambda>r. setup_outcome True f cb (case r of Inl s \<Rightarrow> s | Inr s \<Rightarrow> s)) (do {
       modify (\<lambda>g. g\<lparr>gadgetPullup := False\<rparr>);
       call_void Thread_create;
       modify (\<lambda>g. g\<lparr>mMonitorCreated := True, mon_pc := Created\<rparr>);
       wait_for_pullup E B f cb timeout;
       ret (Inr SUCCESS) })" (is "yields _ ?m")
  proof (rule yieldsI)
    fix g :: gadget
    let ?g = "g\<lparr>gadgetPullup := False, hist := hist g @ [(Thread_create, Void)],
      mMonitorCreated := True, mon_pc := Created\<rparr>"
    from wait_for_pullup_outcome [of ?g E B f cb timeout] obtain t where
      "hist (snd (run_state (wait_for_pullup E B f cb timeout) ?g)) = hist ?g @ t" "setup_outcome True f cb SUCCESS t"
      by auto
    then show "\<exists>t. hist (snd (run_state ?m g)) = hist g @ t \<and>
        setup_outcome True f cb (case fst (run_state ?m g) of Inl s \<Rightarrow> s | Inr s \<Rightarrow> s) t"
      using outcome_append(1) [of "[(Thread_create, Void)]" True f cb SUCCESS t]
      by (intro exI [of _ "(Thread_create, Void) # t"]) (simp add: call_void_def split_beta)
  qed
  have "results (\<lambda>r. case r of Inl e \<Rightarrow> e = ERROR | Inr _ \<Rightarrow> True) (open_monitor_fds E fd)"
    unfolding open_monitor_fds_def addEpollFd_def by (intro results_intros) simp_all
  note err = yields_emits_results [OF plain_open_monitor_fds this]
  show ?thesis unfolding start_monitor_def
    by (intro yields_returned yields_or_return [OF err] yields_mono [OF body])
      (auto intro: outcome_plain simp: outcome_append)
qed

lemma plain_close_fd: "yields (\<lambda>_. list_all plain) (close_fd fd)"
  by (rule emits_yields [where P = plain]) (auto intro!: emits_intros)

lemma notify_set_yields:
  "yields (\<lambda>_ t. t = (if cb then [(SetCurrentUsbFunctionsCb f s, Void)] else [])) (notify_set cb f s)"
  unfolding notify_set_def by (auto intro: yields_call_void yields_return)

lemma pull_up_now_outcome: "yields (setup_outcome False f cb) (pull_up_now E f cb)"
proof -
  have wr: "yields (\<lambda>ok t. t = [(WriteStringToFile GADGET_NAME PULLUP_PATH, Flag ok)])
      (write_file E GADGET_NAME PULLUP_PATH :: bool gadget_op)"
    unfolding write_file_def by (rule yields_call_flag) simp
  have applied: "yields (\<lambda>_ t. t = []) (modify (\<lambda>g. g\<lparr>mCurrentUsbFunctionsApplied := True\<rparr>) :: unit gadget_op)"
    by (rule yields_modify) simp_all
  show ?thesis unfolding pull_up_now_def
    by (intro yields_bind [OF wr] yields_if yields_return yields_bind [OF applied]
        yields_bind [OF notify_set_yields])
      (auto simp: setup_outcome_def seen_up_def pulled_up_def callbacks_def)
qed

lemma finish_setup_outcome:
  assumes "\<And>e. r = Inl e \<Longrightarrow> e = ERROR"
  shows "yields (setup_outcome (ffs_enabled K f) f cb) (finish_setup K E B f cb timeout fd r)"
proof (cases r)
  case (Inl e)
  with assms show ?thesis
    unfolding finish_setup_def
    by (auto intro!: yields_bind [OF plain_close_fd] yields_return outcome_plain)
next
  case (Inr i)
  have "yields (setup_outcome False f cb) (do { status \<leftarrow> pull_up_now E f cb; close_fd fd; ret status })"
    by (auto intro!: yields_bind [OF pull_up_now_outcome] yields_bind [OF plain_close_fd] yields_return
        simp: outcome_append)
  with Inr show ?thesis
    by (simp add: finish_setup_def start_monitor_outcome)
qed

lemma setup_links_error: "results (\<lambda>r. \<forall>e. r = Inl e \<longrightarrow> e = ERROR) (setup_links K E f fd)"
proof -
  have link: "results (\<lambda>r. \<forall>e. r = Inl e \<longrightarrow> e = ERROR) (link_if E b fn i)" for b fn i
    unfolding link_if_def link_next_def by (intro results_intros) simp_all
  have ffs: "results (\<lambda>r. \<forall>e. r = Inl e \<longrightarrow> e = ERROR) (setup_ffs E fd dir fn eps i)" for dir fn eps i
    unfolding setup_ffs_def link_next_def by (intro results_intros) simp_all
  have vendor: "results (\<lambda>r. \<forall>e. r = Inl e \<longrightarrow> e = ERROR) (link_vendor E toks i)" for toks i
    by (induction toks arbitrary: i) (auto intro!: results_intros results_mono [OF link])
  show ?thesis
    unfolding setup_links_def setup_media_def setup_vendor_def
    by (intro results_intros) (auto intro!: results_intros results_mono [OF link] results_mono [OF ffs]
        results_mono [OF vendor])
qed

lemma setupFunctions_outcome: "yields (setup_outcome (ffs_enabled K f) f cb) (setupFunctions K E B f cb timeout)"
proof -
  have boot: "yields (\<lambda>_. list_all plain) (get_property E k :: string gadget_op)" for k
    by (rule emits_yields [where P = plain]) (auto intro!: emits_intros)
  note links = yields_emits_results [OF plain_setup_links setup_links_error]
  have inot: "yields (\<lambda>_. list_all plain) (call_num E Inotify_init :: int gadget_op)"
    by (rule yields_call_num) simp
  show ?thesis unfolding setupFunctions_def
    by (intro yields_bind [OF inot] yields_if yields_bind [OF plain_close_fd] yields_return
        yields_bind [OF boot] yields_bind [OF links] yields_mono [OF finish_setup_outcome])
      (simp_all add: outcome_append outcome_plain)
qed


text \<open>What happens after the pause that follows a successful tear-down.\<close>

definition after_sleep :: "gadget_call history \<Rightarrow> gadget_call history" where
  "after_sleep t = dropWhile (\<lambda>e. fst e \<noteq> Usleep 100000) t"

definition torn :: "gadget_call \<times> answer \<Rightarrow> bool" where
  "torn e \<longleftrightarrow> fst e \<noteq> Usleep 100000 \<and> (\<forall>f s. fst e \<noteq> SetCurrentUsbFunctionsCb f s)"

lemma torn_calls [simp]:
  "torn (WriteStringToFile c p, a)" "torn (Write_event fd w, a)" "torn (Thread_join, a)" "torn (Close fd, a)"
  "torn (Opendir p, a)" "torn (Closedir p, a)" "torn (Remove p, a)"
  by (simp_all add: torn_def)

lemma emits_unlink_entries [emits_intros]:
  "(\<And>p r. P (Remove p, Num r)) \<Longrightarrow> emits P (unlink_entries E path es)"
  by (induction es) (auto intro!: emits_intros)

lemma torn_thread: "thread_call e \<Longrightarrow> torn e"
  by (auto simp: thread_call_def torn_def is_pullup_def)

lemma torn_tearDown: "emits torn (tearDownGadget E B)"
  unfolding tearDownGadget_def unlinkFunctions_def stop_monitor_def drop_fds_def
  by (intro emits_intros emits_monitor_while_waiting emits_monitorFfs) (simp_all add: torn_thread)

lemma after_sleep_torn:
  "list_all torn t \<Longrightarrow> after_sleep (t @ u) = after_sleep u"
  "list_all torn t \<Longrightarrow> after_sleep t = []"
  "after_sleep ((Usleep 100000, a) # u) = (Usleep 100000, a) # u"
  unfolding after_sleep_def
  by (auto simp: torn_def list_all_iff intro!: dropWhile_append2)

lemma callbacks_torn: "list_all torn t \<Longrightarrow> callbacks t = []"
  by (rule callbacks_no_cb) (simp add: torn_def list_all_iff)

definition request_outcome :: "bool \<Rightarrow> 64 word \<Rightarrow> 64 word \<Rightarrow> bool \<Rightarrow> gadget_call history \<Rightarrow> bool" where
  "request_outcome ffs none f cb t \<longleftrightarrow>
     (\<exists>s. callbacks t = (if cb then [(f, s)] else []) \<and>
        (s = SUCCESS \<longleftrightarrow> after_sleep t \<noteq> [] \<and> (f = none \<or> seen_up ffs (after_sleep t))))"

lemma request_outcome:
  "list_all torn t \<Longrightarrow> request_outcome ffs none f cb (t @ (Usleep 100000, Void) # u) \<longleftrightarrow>
     (\<exists>s. callbacks u = (if cb then [(f, s)] else []) \<and> (s = SUCCESS \<longleftrightarrow> f = none \<or> seen_up ffs u))"
  "list_all torn t \<Longrightarrow> s \<noteq> SUCCESS \<Longrightarrow>
     request_outcome ffs none f cb (t @ (if cb then [(SetCurrentUsbFunctionsCb f s, Void)] else []))"
proof -
  assume t: "list_all torn t"
  show "request_outcome ffs none f cb (t @ (Usleep 100000, Void) # u) \<longleftrightarrow>
     (\<exists>s. callbacks u = (if cb then [(f, s)] else []) \<and> (s = SUCCESS \<longleftrightarrow> f = none \<or> seen_up ffs u))"
    by (simp add: request_outcome_def callbacks_torn [OF t] after_sleep_torn(1) [OF t] after_sleep_torn(3))
  have answer: "after_sleep [(SetCurrentUsbFunctionsCb f s, Void)] = []"
    by (simp add: after_sleep_def)
  show "s \<noteq> SUCCESS \<Longrightarrow>
      request_outcome ffs none f cb (t @ (if cb then [(SetCurrentUsbFunctionsCb f s, Void)] else []))"
    using answer by (auto simp: request_outcome_def callbacks_torn [OF t] after_sleep_torn(1,2) [OF t])
qed


end
