(* ===== verification/WaitProtocol.thy ===== *)
theory WaitProtocol
  imports Main
begin

text \<open>
  The contract of a condition variable: a thread that waits for a flag, another one that raises the flag
  and then signals, both under one mutex.  The laws are about single steps; what follows is about every
  reachable state: a waiter whose flag is up has been signalled or is about to be.  Both handshakes of the
  USB service, \<open>mPartnerCV\<close> in \<open>usb/Usb.cpp\<close> and \<open>mCv\<close> in \<open>usb/UsbGadget.cpp\<close>, keep the contract.
\<close>

inductive reached :: "('s \<Rightarrow> bool) \<Rightarrow> ('s \<Rightarrow> 's \<Rightarrow> bool) \<Rightarrow> 's \<Rightarrow> bool" for init step where
  initial: "init s \<Longrightarrow> reached init step s"
| next_step: "reached init step s \<Longrightarrow> step s s' \<Longrightarrow> reached init step s'"

text \<open>Runs with the calls that their steps stand for.\<close>

inductive labelled_run :: "('s \<Rightarrow> 's \<Rightarrow> bool) \<Rightarrow> ('s \<Rightarrow> 's \<Rightarrow> 'e list \<Rightarrow> bool) \<Rightarrow> 's \<Rightarrow> 'e list \<Rightarrow> 's \<Rightarrow> bool"
  for step calls where
  stay: "labelled_run step calls h [] h"
| go: "step h h1 \<Longrightarrow> calls h h1 t \<Longrightarrow> labelled_run step calls h1 u h2 \<Longrightarrow> labelled_run step calls h (t @ u) h2"

lemma run_trans:
  "labelled_run step calls h t h1 \<Longrightarrow> labelled_run step calls h1 u h2 \<Longrightarrow> labelled_run step calls h (t @ u) h2"
  by (induction rule: labelled_run.induct) (auto intro: labelled_run.go)

lemma run_step: "step h h1 \<Longrightarrow> calls h h1 t \<Longrightarrow> labelled_run step calls h t h1"
  by (drule (1) labelled_run.go [OF _ _ labelled_run.stay]) simp

lemma run_reached: "labelled_run step calls h t h' \<Longrightarrow> reached init step h \<Longrightarrow> reached init step h'"
  by (induction rule: labelled_run.induct) (auto intro: reached.next_step)

locale wait_protocol =
  fixes init :: "'s \<Rightarrow> bool"
    and step :: "'s \<Rightarrow> 's \<Rightarrow> bool"
    and inv :: "'s \<Rightarrow> bool"              \<comment> \<open>what the mutex guarantees\<close>
    and waiting :: "'s \<Rightarrow> bool"          \<comment> \<open>asleep, the mutex released\<close>
    and flag :: "'s \<Rightarrow> bool"
    and notifying :: "'s \<Rightarrow> bool"        \<comment> \<open>the flag is raised, the signal is still to be sent\<close>
    and signalled :: "'s \<Rightarrow> bool"
  assumes inv_init: "init s \<Longrightarrow> inv s \<and> \<not> waiting s"
    and inv_step: "inv s \<Longrightarrow> step s s' \<Longrightarrow> inv s'"
    and falls_asleep: "inv s \<Longrightarrow> step s s' \<Longrightarrow> \<not> waiting s \<Longrightarrow> waiting s' \<Longrightarrow> \<not> flag s'"
    and raises: "inv s \<Longrightarrow> step s s' \<Longrightarrow> waiting s \<Longrightarrow> waiting s' \<Longrightarrow> flag s' \<Longrightarrow> flag s \<or> notifying s'"
    and sends: "inv s \<Longrightarrow> step s s' \<Longrightarrow> waiting s \<Longrightarrow> waiting s' \<Longrightarrow> notifying s \<Longrightarrow> notifying s' \<or> signalled s'"
    and stays: "inv s \<Longrightarrow> step s s' \<Longrightarrow> waiting s \<Longrightarrow> waiting s' \<Longrightarrow> signalled s \<Longrightarrow> signalled s'"
begin

lemma reached_inv: "reached init step s \<Longrightarrow> inv s"
  by (induction rule: reached.induct) (auto dest: inv_init inv_step)

lemma signalled_when_up:
  "reached init step s \<Longrightarrow> waiting s \<Longrightarrow> flag s \<Longrightarrow> signalled s \<or> notifying s"
proof (induction rule: reached.induct)
  case (initial s)
  then show ?case using inv_init by blast
next
  case (next_step s s')
  note inv = reached_inv [OF next_step.hyps(1)]
  show ?case
  proof (cases "waiting s")
    case False
    then show ?thesis using falls_asleep [OF inv next_step.hyps(2)] next_step.prems by blast
  next
    case True
    with raises [OF inv next_step.hyps(2)] sends [OF inv next_step.hyps(2)] stays [OF inv next_step.hyps(2)]
    show ?thesis using next_step.IH next_step.prems by blast
  qed
qed

end

end
