(* ===== verification/GadgetHandshake.thy ===== *)
theory GadgetHandshake
  imports WaitProtocol
begin

text \<open>
  The handshake between a request of \<open>usb/UsbGadget.cpp\<close> and the monitor thread it starts, step by step:
  \<open>setupFunctions\<close> holds \<open>mLock\<close> from its first statement, waits on \<open>mCv\<close> with the predicate
  \<open>gadgetPullup\<close> for a limited time and answers its client with that flag; \<open>monitorFfs\<close> writes the UDC node,
  takes the mutex, raises the flag and notifies.  Every interleaving of the two threads is a run.
\<close>

section \<open>The steps\<close>

text \<open>The request: \<open>Testing\<close> is the test of the predicate in \<open>wait_for\<close>, \<open>Last_test\<close> the one after a timeout.\<close>

datatype request_pc = Entered | Locked | Cleared | Testing | Sleeping | Last_test | Answering | Answered | Left

datatype thread_pc = Not_started | Checking | Pulled_up | In_section | Raised | Notified

datatype holder = Request | Monitor

record pullup_run =
  r_pc :: request_pc
  t_pc :: thread_pc
  holds :: "holder option"     \<comment> \<open>\<open>mLock\<close>\<close>
  pullup_flag :: bool          \<comment> \<open>\<open>gadgetPullup\<close>\<close>
  applied :: bool              \<comment> \<open>\<open>mCurrentUsbFunctionsApplied\<close>\<close>
  notified :: bool             \<comment> \<open>the sleeping request was notified\<close>
  udc_written :: bool          \<comment> \<open>the monitor of this request has pulled the gadget up\<close>
  raised :: bool               \<comment> \<open>and has raised the flag\<close>
  answer :: "bool option"      \<comment> \<open>the callback was called, with \<open>SUCCESS\<close> or not\<close>

definition request_start :: "bool \<Rightarrow> pullup_run" where
  "request_start stale = \<lparr>r_pc = Entered, t_pc = Not_started, holds = None, pullup_flag = stale, applied = False,
     notified = False, udc_written = False, raised = False, answer = None\<rparr>"

text \<open>The request, from taking \<open>mLock\<close> to the return of \<open>setupFunctions\<close>.\<close>

inductive request_step :: "pullup_run \<Rightarrow> pullup_run \<Rightarrow> bool" where
  lock: "r_pc h = Entered \<Longrightarrow> holds h = None \<Longrightarrow> request_step h (h\<lparr>r_pc := Locked, holds := Some Request\<rparr>)"
| clear: "r_pc h = Locked \<Longrightarrow> request_step h (h\<lparr>r_pc := Cleared, pullup_flag := False\<rparr>)"
| start: "r_pc h = Cleared \<Longrightarrow> request_step h (h\<lparr>r_pc := Testing, t_pc := Checking\<rparr>)"
| no_callback: "r_pc h = Cleared \<Longrightarrow> request_step h (h\<lparr>r_pc := Left, t_pc := Checking, holds := None\<rparr>)"
| found: "r_pc h = Testing \<Longrightarrow> pullup_flag h \<Longrightarrow> request_step h (h\<lparr>r_pc := Answering\<rparr>)"
| sleep: "r_pc h = Testing \<Longrightarrow> \<not> pullup_flag h \<Longrightarrow>
    request_step h (h\<lparr>r_pc := Sleeping, holds := None, notified := False\<rparr>)"
| wake: "r_pc h = Sleeping \<Longrightarrow> holds h = None \<Longrightarrow> request_step h (h\<lparr>r_pc := Testing, holds := Some Request\<rparr>)"
| time_out: "r_pc h = Sleeping \<Longrightarrow> holds h = None \<Longrightarrow> request_step h (h\<lparr>r_pc := Last_test, holds := Some Request\<rparr>)"
| last_test: "r_pc h = Last_test \<Longrightarrow> request_step h (h\<lparr>r_pc := Answering\<rparr>)"
| reply: "r_pc h = Answering \<Longrightarrow> request_step h (h\<lparr>r_pc := Answered, answer := Some (pullup_flag h)\<rparr>)"
| leave: "r_pc h = Answered \<Longrightarrow> request_step h (h\<lparr>r_pc := Left, holds := None\<rparr>)"

text \<open>The monitor thread: a pull-up over present endpoints and its critical section.\<close>

inductive monitor_step :: "pullup_run \<Rightarrow> pullup_run \<Rightarrow> bool" where
  pull_up: "t_pc h = Checking \<Longrightarrow> monitor_step h (h\<lparr>t_pc := Pulled_up, udc_written := True\<rparr>)"
| enter: "t_pc h = Pulled_up \<Longrightarrow> holds h = None \<Longrightarrow> monitor_step h (h\<lparr>t_pc := In_section, holds := Some Monitor\<rparr>)"
| raise_flag: "t_pc h = In_section \<Longrightarrow>
    monitor_step h (h\<lparr>t_pc := Raised, applied := True, pullup_flag := True, raised := True\<rparr>)"
| notify: "t_pc h = Raised \<Longrightarrow>
    monitor_step h (h\<lparr>t_pc := Notified, notified := notified h \<or> r_pc h = Sleeping\<rparr>)"
| leave_section: "t_pc h = Notified \<Longrightarrow> monitor_step h (h\<lparr>t_pc := Checking, holds := None\<rparr>)"

inductive pullup_step :: "pullup_run \<Rightarrow> pullup_run \<Rightarrow> bool" where
  request: "request_step h h' \<Longrightarrow> pullup_step h h'"
| monitor: "monitor_step h h' \<Longrightarrow> pullup_step h h'"

inductive_cases request_stepE: "request_step h h'"
inductive_cases monitor_stepE: "monitor_step h h'"
inductive_cases pullup_stepE: "pullup_step h h'"

lemmas pullup_elims = pullup_stepE request_stepE monitor_stepE

definition pullup_reachable :: "pullup_run \<Rightarrow> bool" where
  "pullup_reachable = reached (\<lambda>h. \<exists>stale. h = request_start stale) pullup_step"

section \<open>The invariant\<close>

fun request_holds :: "request_pc \<Rightarrow> bool" where
  "request_holds Entered = False"
| "request_holds Sleeping = False"
| "request_holds Left = False"
| "request_holds _ = True"

fun monitor_holds :: "thread_pc \<Rightarrow> bool" where
  "monitor_holds In_section = True"
| "monitor_holds Raised = True"
| "monitor_holds Notified = True"
| "monitor_holds _ = False"

fun thread_started :: "request_pc \<Rightarrow> bool" where
  "thread_started Entered = False"
| "thread_started Locked = False"
| "thread_started Cleared = False"
| "thread_started _ = True"

fun flag_cleared :: "request_pc \<Rightarrow> bool" where
  "flag_cleared Entered = False"
| "flag_cleared Locked = False"
| "flag_cleared _ = True"

definition mutex_inv :: "pullup_run \<Rightarrow> bool" where
  "mutex_inv h \<longleftrightarrow> (request_holds (r_pc h) \<longleftrightarrow> holds h = Some Request) \<and>
     (monitor_holds (t_pc h) \<longleftrightarrow> holds h = Some Monitor) \<and> (thread_started (r_pc h) \<longleftrightarrow> t_pc h \<noteq> Not_started)"

definition flag_inv :: "pullup_run \<Rightarrow> bool" where
  "flag_inv h \<longleftrightarrow> (flag_cleared (r_pc h) \<longrightarrow> pullup_flag h = raised h) \<and> applied h = raised h \<and>
     (raised h \<or> t_pc h \<in> {Pulled_up, In_section} \<longrightarrow> udc_written h) \<and>
     (udc_written h \<and> \<not> raised h \<longrightarrow> t_pc h \<in> {Pulled_up, In_section}) \<and>
     (t_pc h = Not_started \<longrightarrow> \<not> raised h \<and> \<not> udc_written h)"

lemma mutex_inv_step: "pullup_step h h' \<Longrightarrow> mutex_inv h \<Longrightarrow> mutex_inv h'"
  by (induction rule: pullup_step.induct; elim request_stepE monitor_stepE) (simp_all add: mutex_inv_def)

lemma flag_inv_step: "pullup_step h h' \<Longrightarrow> mutex_inv h \<Longrightarrow> flag_inv h \<Longrightarrow> flag_inv h'"
  by (induction rule: pullup_step.induct; elim request_stepE monitor_stepE) (simp_all add: mutex_inv_def flag_inv_def)

definition pullup_inv :: "pullup_run \<Rightarrow> bool" where
  "pullup_inv h \<longleftrightarrow> mutex_inv h \<and> flag_inv h"

lemma pullup_inv_start: "pullup_inv (request_start stale)"
  by (simp add: pullup_inv_def mutex_inv_def flag_inv_def request_start_def)

lemma pullup_inv_step: "pullup_inv h \<Longrightarrow> pullup_step h h' \<Longrightarrow> pullup_inv h'"
  using mutex_inv_step flag_inv_step unfolding pullup_inv_def by blast

text \<open>\<open>mCv\<close> keeps the contract of a condition variable.\<close>

interpretation pullup_cv: wait_protocol "\<lambda>h. \<exists>stale. h = request_start stale" pullup_step pullup_inv
  "\<lambda>h. r_pc h = Sleeping" pullup_flag "\<lambda>h. t_pc h = Raised" notified
proof
  fix h h' :: pullup_run
  show "\<exists>stale. h = request_start stale \<Longrightarrow> pullup_inv h \<and> r_pc h \<noteq> Sleeping"
    using pullup_inv_start by auto (simp add: request_start_def)
  show "pullup_inv h \<Longrightarrow> pullup_step h h' \<Longrightarrow> pullup_inv h'" by (rule pullup_inv_step)
  show "pullup_inv h \<Longrightarrow> pullup_step h h' \<Longrightarrow> r_pc h \<noteq> Sleeping \<Longrightarrow> r_pc h' = Sleeping \<Longrightarrow> \<not> pullup_flag h'"
    by (elim pullup_elims) auto
  show "pullup_inv h \<Longrightarrow> pullup_step h h' \<Longrightarrow> r_pc h = Sleeping \<Longrightarrow> r_pc h' = Sleeping \<Longrightarrow> pullup_flag h' \<Longrightarrow>
      pullup_flag h \<or> t_pc h' = Raised"
    by (elim pullup_elims) auto
  show "pullup_inv h \<Longrightarrow> pullup_step h h' \<Longrightarrow> r_pc h = Sleeping \<Longrightarrow> r_pc h' = Sleeping \<Longrightarrow> t_pc h = Raised \<Longrightarrow>
      t_pc h' = Raised \<or> notified h'"
    by (elim pullup_elims) auto
  show "pullup_inv h \<Longrightarrow> pullup_step h h' \<Longrightarrow> r_pc h = Sleeping \<Longrightarrow> r_pc h' = Sleeping \<Longrightarrow> notified h \<Longrightarrow> notified h'"
    by (elim pullup_elims) auto
qed

lemma pullup_reachable_inv: "pullup_reachable h \<Longrightarrow> pullup_inv h"
  unfolding pullup_reachable_def by (rule pullup_cv.reached_inv)

section \<open>The answer\<close>

lemma answer_step:
  assumes inv: "pullup_inv h" and step: "pullup_step h h'" and new: "answer h' \<noteq> answer h"
  shows "r_pc h = Answering \<and> answer h' = Some (raised h) \<and> t_pc h \<in> {Checking, Pulled_up} \<and>
    (\<not> raised h \<longrightarrow> udc_written h = (t_pc h = Pulled_up))"
proof -
  have "r_pc h = Answering \<and> answer h' = Some (pullup_flag h)"
    using step by (elim pullup_elims) (use new in auto)
  with inv show ?thesis
    by (cases "t_pc h") (auto simp: pullup_inv_def mutex_inv_def flag_inv_def)
qed

text \<open>Whoever holds the mutex can go on, so the request can never be stuck for ever.\<close>

lemma request_goes_on:
  assumes "pullup_inv h" and "r_pc h \<noteq> Left"
  shows "\<exists>h'. pullup_step h h'"
proof (cases "holds h")
  case None
  with assms have "r_pc h = Entered \<or> r_pc h = Sleeping"
    by (cases "r_pc h") (simp_all add: pullup_inv_def mutex_inv_def)
  with None show ?thesis using pullup_step.request [OF request_step.lock [of h]] pullup_step.request [OF request_step.time_out [of h]] by blast
next
  case (Some who)
  show ?thesis
  proof (cases who)
    case Request
    with Some assms show ?thesis
      using pullup_step.request [OF request_step.clear [of h]] pullup_step.request [OF request_step.start [of h]] pullup_step.request [OF request_step.found [of h]] pullup_step.request [OF request_step.sleep [of h]]
        pullup_step.request [OF request_step.last_test [of h]] pullup_step.request [OF request_step.reply [of h]] pullup_step.request [OF request_step.leave [of h]]
      by (cases "r_pc h") (auto simp: pullup_inv_def mutex_inv_def)
  next
    case Monitor
    with Some assms show ?thesis
      using pullup_step.monitor [OF monitor_step.raise_flag [of h]] pullup_step.monitor [OF monitor_step.notify [of h]] pullup_step.monitor [OF monitor_step.leave_section [of h]]
      by (cases "t_pc h") (auto simp: pullup_inv_def mutex_inv_def)
  qed
qed

text \<open>
  C3. In every interleaving of a request with the monitor thread it starts: the request answers its client
  with success exactly if the monitor has by then raised \<open>gadgetPullup\<close>, which it does after it has pulled
  the gadget up and together with marking the functions applied; never with what an earlier request left
  in the flag, and also when the wait has timed out.  It answers with an error although the gadget has been
  pulled up exactly if the monitor has written the UDC node and not yet taken \<open>mLock\<close>.  While it
  sleeps and the flag is up it has been notified, or the monitor is just about to; and until it is done
  some step is always possible.
\<close>

theorem pullup_answer:
  assumes reach: "pullup_reachable h" and step: "pullup_step h h'"
  shows "(answer h' \<noteq> answer h \<longrightarrow> answer h = None \<and> answer h' = Some (raised h) \<and> t_pc h \<in> {Checking, Pulled_up}) \<and>
    (answer h' \<noteq> answer h \<and> answer h' = Some False \<longrightarrow> udc_written h = (t_pc h = Pulled_up)) \<and>
    (raised h \<longrightarrow> udc_written h \<and> applied h) \<and>
    (r_pc h = Sleeping \<and> pullup_flag h \<longrightarrow> notified h \<or> t_pc h = Raised) \<and>
    (r_pc h' \<noteq> Left \<longrightarrow> (\<exists>h2. pullup_step h' h2))"
proof -
  note inv = pullup_reachable_inv [OF reach]
  have once: "reached (\<lambda>h. \<exists>stale. h = request_start stale) pullup_step h \<Longrightarrow> \<not> (r_pc h = Answered \<or> r_pc h = Left) \<Longrightarrow> answer h = None"
    for h
  proof (induction rule: reached.induct)
    case (next_step h h')
    show ?case using next_step.hyps(2) by (elim pullup_elims) (use next_step.prems next_step.IH in auto)
  qed (auto simp: request_start_def)
  have "answer h' \<noteq> answer h \<Longrightarrow> answer h = None"
    using answer_step [OF inv step] once [of h] reach by (simp add: pullup_reachable_def)
  moreover have "raised h \<longrightarrow> udc_written h \<and> applied h"
    using inv by (simp add: pullup_inv_def flag_inv_def)
  ultimately show ?thesis
    using answer_step [OF inv step] pullup_cv.signalled_when_up [of h] reach
      request_goes_on [OF pullup_inv_step [OF inv step]]
    by (auto simp: pullup_reachable_def)
qed

text \<open>
  The wait times out while the monitor is in its section; the last test still finds the flag, and the
  answer is success.
\<close>

theorem pullup_answer_witness:
  "\<exists>h h'. pullup_reachable h \<and> pullup_step h h' \<and> r_pc h = Answering \<and> answer h' = Some True \<and> udc_written h \<and>
     (\<exists>h2. pullup_step h' h2)"
proof -
  note go = reached.next_step
  let ?init = "\<lambda>h. \<exists>stale. h = request_start stale"
  let ?h = "\<lambda>r t l p n w a. \<lparr>r_pc = r, t_pc = t, holds = l, pullup_flag = p, applied = a, notified = n, udc_written = w,
     raised = a, answer = None\<rparr>"
  have "reached ?init pullup_step (?h Entered Not_started None True False False False)"
    by (rule reached.initial) (auto simp: request_start_def)
  from go [OF this pullup_step.request [OF request_step.lock]] have "reached ?init pullup_step (?h Locked Not_started (Some Request) True False False False)"
    by simp
  from go [OF this pullup_step.request [OF request_step.clear]] have "reached ?init pullup_step (?h Cleared Not_started (Some Request) False False False False)"
    by simp
  from go [OF this pullup_step.request [OF request_step.start]] have "reached ?init pullup_step (?h Testing Checking (Some Request) False False False False)"
    by simp
  from go [OF this pullup_step.request [OF request_step.sleep]] have "reached ?init pullup_step (?h Sleeping Checking None False False False False)"
    by simp
  from go [OF this pullup_step.monitor [OF monitor_step.pull_up]] have "reached ?init pullup_step (?h Sleeping Pulled_up None False False True False)"
    by simp
  from go [OF this pullup_step.monitor [OF monitor_step.enter]] have "reached ?init pullup_step (?h Sleeping In_section (Some Monitor) False False True False)"
    by simp
  from go [OF this pullup_step.monitor [OF monitor_step.raise_flag]] have "reached ?init pullup_step (?h Sleeping Raised (Some Monitor) True False True True)"
    by simp
  from go [OF this pullup_step.monitor [OF monitor_step.notify]] have "reached ?init pullup_step (?h Sleeping Notified (Some Monitor) True True True True)"
    by simp
  from go [OF this pullup_step.monitor [OF monitor_step.leave_section]] have "reached ?init pullup_step (?h Sleeping Checking None True True True True)"
    by simp
  from go [OF this pullup_step.request [OF request_step.time_out]] have "reached ?init pullup_step (?h Last_test Checking (Some Request) True True True True)"
    by simp
  from go [OF this pullup_step.request [OF request_step.last_test]] have r: "pullup_reachable (?h Answering Checking (Some Request) True True True True)"
    by (simp add: pullup_reachable_def)
  let ?a = "?h Answering Checking (Some Request) True True True True"
  have step: "pullup_step ?a (?a\<lparr>r_pc := Answered, answer := Some True\<rparr>)"
    using pullup_step.request [OF request_step.reply [of ?a]] by simp
  from pullup_answer [OF r step] r step show ?thesis
    by - (rule exI [of _ ?a], rule exI [of _ "?a\<lparr>r_pc := Answered, answer := Some True\<rparr>"], simp)
qed

end
