(* ===== verification/GadgetHandshakeRuns.thy ===== *)
theory GadgetHandshakeRuns
  imports GadgetHandshake UsbGadget
begin

text \<open>
  The code of \<open>start_monitor\<close>, the end of \<open>setupFunctions\<close>, as runs of the handshake: the calls by which
  the request and the monitor thread deal with each other are, in their order, those of a path of the
  step relation.
\<close>

section \<open>The calls of a step\<close>

abbreviation pulls_up :: "gadget_call \<times> answer" where
  "pulls_up \<equiv> (WriteStringToFile GADGET_NAME PULLUP_PATH, Flag True)"

fun request_calls :: "64 word \<Rightarrow> bool \<Rightarrow> request_pc \<Rightarrow> request_pc \<Rightarrow> gadget_call history \<Rightarrow> bool" where
  "request_calls f up Cleared Testing t = (t = [(Thread_create, Void)])"
| "request_calls f up Cleared Left t = (t = [(Thread_create, Void)])"
| "request_calls f up Testing Sleeping t = (\<exists>timeout. t = [(Cv_wait_for timeout, Void)])"
| "request_calls f up Answering Answered t =
     (t = [(SetCurrentUsbFunctionsCb f (if up then SUCCESS else ERROR), Void)])"
| "request_calls f up _ _ t = (t = [])"

fun monitor_calls :: "thread_pc \<Rightarrow> thread_pc \<Rightarrow> gadget_call history \<Rightarrow> bool" where
  "monitor_calls Checking Pulled_up t = (t = [pulls_up])"
| "monitor_calls Raised Notified t = (t = [(Notify_all, Void)])"
| "monitor_calls _ _ t = (t = [])"

definition pullup_calls :: "64 word \<Rightarrow> pullup_run \<Rightarrow> pullup_run \<Rightarrow> gadget_call history \<Rightarrow> bool" where
  "pullup_calls f h h' t \<longleftrightarrow>
     (if r_pc h \<noteq> r_pc h' then request_calls f (pullup_flag h) (r_pc h) (r_pc h') t
      else monitor_calls (t_pc h) (t_pc h') t)"

abbreviation pullup_path :: "64 word \<Rightarrow> pullup_run \<Rightarrow> gadget_call history \<Rightarrow> pullup_run \<Rightarrow> bool" where
  "pullup_path f \<equiv> labelled_run pullup_step (pullup_calls f)"

text \<open>The calls that the two threads exchange; the others are private to one of them.\<close>

definition shared :: "gadget_call \<times> answer \<Rightarrow> bool" where
  "shared e \<longleftrightarrow> e = pulls_up \<or> fst e \<in> {Notify_all, Thread_create} \<or> (\<exists>t. fst e = Cv_wait_for t) \<or>
     (\<exists>f s. fst e = SetCurrentUsbFunctionsCb f s)"

section \<open>The monitor thread\<close>

definition pulls :: "nat \<Rightarrow> gadget_call history" where
  "pulls n = concat (replicate n [pulls_up, (Notify_all, Void)])"

text \<open>A part of the monitor: its shared calls are pull-ups, each with its notification.\<close>

definition paired :: "'a gadget_op \<Rightarrow> bool" where
  "paired m \<longleftrightarrow> yields (\<lambda>_ t. \<exists>n. filter shared t = pulls n) m"

named_theorems paired_intros

lemma pulls_add: "pulls n @ pulls m = pulls (n + m)"
  by (simp add: pulls_def replicate_add)

lemma paired_bind [paired_intros]: "paired m \<Longrightarrow> (\<And>a. paired (f a)) \<Longrightarrow> paired (State_Monad.bind m f)"
  unfolding paired_def
proof (erule yields_bind)
  fix a t
  assume f: "\<And>a. yields (\<lambda>_ t. \<exists>n. filter shared t = pulls n) (f a)" and "\<exists>n. filter shared t = pulls n"
  then obtain n where "filter shared t = pulls n" by blast
  then show "yields (\<lambda>b u. \<exists>n. filter shared (t @ u) = pulls n) (f a)"
    by (intro yields_mono [OF f]) (auto simp: pulls_add)
qed

lemma paired_quiet: "emits (\<lambda>e. \<not> shared e) m \<Longrightarrow> paired m"
  unfolding paired_def by (erule emits_yields) (auto simp: list_all_iff pulls_def filter_empty_conv intro!: exI [of _ 0])

lemma paired_if [paired_intros]: "(b \<Longrightarrow> paired m) \<Longrightarrow> (\<not> b \<Longrightarrow> paired n) \<Longrightarrow> paired (if b then m else n)"
  by simp

lemma paired_return [paired_intros]: "paired (State_Monad.return a)"
  by (intro paired_quiet emits_intros)

lemma paired_gets [paired_intros]: "paired (gets f)"
  by (intro paired_quiet emits_intros)

lemma paired_modify [paired_intros]: "(\<And>g. hist (f g) = hist g) \<Longrightarrow> paired (modify f)"
  by (intro paired_quiet emits_intros)

lemma paired_for_each [paired_intros]: "(\<And>x. paired (f x)) \<Longrightarrow> paired (for_each xs f)"
  by (induction xs) (auto intro!: paired_intros)

lemma emits_endpoints: "emits (\<lambda>e. \<exists>ep. fst e = Access ep) (endpoints_present E eps)"
  by (induction eps) (auto intro!: emits_intros)

lemma paired_endpoints [paired_intros]: "paired (endpoints_present E eps)"
  by (rule paired_quiet, rule emits_mono [OF emits_endpoints]) (auto simp: shared_def)

text \<open>The write of the UDC node and, after a success, the critical section, with what is done in between.\<close>

lemma paired_pull_up [paired_intros]:
  assumes "\<And>g. hist (f g) = hist g"
  shows "paired (do { ok \<leftarrow> write_file E GADGET_NAME PULLUP_PATH;
      if ok then do { modify f; signal_pullup } else ret () })"
proof -
  have "filter shared [pulls_up, (Notify_all, Void)] = pulls 1" by (simp add: shared_def pulls_def)
  moreover have "filter shared [(WriteStringToFile GADGET_NAME PULLUP_PATH, Flag False)] = pulls 0"
    by (simp add: shared_def pulls_def)
  ultimately show ?thesis
    unfolding paired_def write_file_def signal_pullup_def using assms
    by (intro yieldsI) (auto simp: run_calls intro: exI [of _ "pulls 1"])
qed

lemma paired_record [paired_intros]: "paired (monitor_record E)"
  unfolding monitor_record_def by (intro paired_intros) simp_all

lemma modify_same: "State_Monad.bind (modify (\<lambda>g. g)) f = f ()"
  by (rule state_ext) simp

lemma paired_start [paired_intros]: "paired (monitor_start E)"
proof -
  have up: "paired (do { ok \<leftarrow> write_file E GADGET_NAME PULLUP_PATH; if ok then signal_pullup else ret () })"
    using paired_pull_up [of "\<lambda>g. g" E] unfolding modify_same by simp
  show ?thesis unfolding monitor_start_def by (rule up paired_intros | simp)+
qed

lemma paired_batch [paired_intros]: "paired (monitor_batch E evs)"
  by (induction E evs rule: monitor_batch.induct) (auto intro!: paired_intros)

lemma paired_loop [paired_intros]: "paired (monitor_loop E batches)"
  by (induction E batches rule: monitor_loop.induct) (auto intro!: paired_intros)

lemma paired_monitor: "paired (monitorFfs E batches)"
  unfolding monitorFfs_def by (intro paired_intros)

lemma monitor_while_waiting_run:
  assumes "run_state (monitor_while_waiting E B) g = ((), g')"
  obtains t n where "hist g' = hist g @ t" and "filter shared t = pulls n" and
    "gadgetPullup g' = (gadgetPullup g \<or> 0 < n)"
proof (cases "B (hist g)")
  case None
  with assms that [of "[]" 0] show thesis by (simp add: monitor_while_waiting_def pulls_def)
next
  case (Some batches)
  let ?m = "monitorFfs E batches"
  from Some assms have g': "g' = snd (run_state ?m g)" by (simp add: monitor_while_waiting_def)
  from yields_emitted [OF paired_monitor [unfolded paired_def], of E batches g] g'
  obtain n where t: "hist g' = hist g @ emitted ?m g" "filter shared (emitted ?m g) = pulls n" by blast
  have "pulled_up (emitted ?m g) \<longleftrightarrow> pulls_up \<in> set (filter shared (emitted ?m g))"
    by (simp add: pulled_up_def shared_def)
  also have "\<dots> \<longleftrightarrow> 0 < n" unfolding t(2) by (cases n) (auto simp: pulls_def)
  finally have "gadgetPullup g' = (gadgetPullup g \<or> 0 < n)"
    using g' by (simp add: monitor_applied_iff)
  with t show thesis by (rule that)
qed

section \<open>The wait\<close>

definition asleep :: "pullup_run \<Rightarrow> bool \<Rightarrow> bool" where
  "asleep h up \<longleftrightarrow> r_pc h = Sleeping \<and> t_pc h = Checking \<and> holds h = None \<and> pullup_flag h = up"

lemma pull_path:
  assumes "asleep h up"
  shows "\<exists>h'. pullup_path f h [pulls_up, (Notify_all, Void)] h' \<and> asleep h' True"
proof -
  let ?h1 = "h\<lparr>t_pc := Pulled_up, udc_written := True\<rparr>"
  let ?h2 = "?h1\<lparr>t_pc := In_section, holds := Some Monitor\<rparr>"
  let ?h3 = "?h2\<lparr>t_pc := Raised, applied := True, pullup_flag := True, raised := True\<rparr>"
  let ?h4 = "?h3\<lparr>t_pc := Notified, notified := True\<rparr>"
  have 1: "pullup_path f h [pulls_up] ?h1"
    using assms by (intro run_step pullup_step.monitor [OF monitor_step.pull_up]) (simp_all add: asleep_def pullup_calls_def)
  have 2: "pullup_path f ?h1 [] ?h2"
    using assms by (intro run_step pullup_step.monitor [OF monitor_step.enter]) (simp_all add: asleep_def pullup_calls_def)
  have 3: "pullup_path f ?h2 [] ?h3"
    by (intro run_step pullup_step.monitor [OF monitor_step.raise_flag]) (simp_all add: pullup_calls_def)
  have 4: "pullup_path f ?h3 [(Notify_all, Void)] ?h4"
    using assms pullup_step.monitor [OF monitor_step.notify [of ?h3]] by (intro run_step) (simp_all add: asleep_def pullup_calls_def)
  have 5: "pullup_path f ?h4 [] (?h4\<lparr>t_pc := Checking, holds := None\<rparr>)"
    by (intro run_step pullup_step.monitor [OF monitor_step.leave_section]) (simp_all add: pullup_calls_def)
  from run_trans [OF 1 run_trans [OF 2 run_trans [OF 3 run_trans [OF 4 5]]]] assms
  show ?thesis by (intro exI [of _ "?h4\<lparr>t_pc := Checking, holds := None\<rparr>"]) (simp add: asleep_def)
qed

lemma pulls_path: "asleep h up \<Longrightarrow> \<exists>h'. pullup_path f h (pulls n) h' \<and> asleep h' (up \<or> 0 < n)"
proof (induction n arbitrary: h up)
  case 0
  then show ?case by (intro exI [of _ h]) (simp add: pulls_def labelled_run.stay)
next
  case (Suc n)
  from pull_path [OF Suc.prems] obtain h1 where h1: "pullup_path f h [pulls_up, (Notify_all, Void)] h1" "asleep h1 True"
    by blast
  from Suc.IH [OF h1(2)] obtain h2 where "pullup_path f h1 (pulls n) h2" "asleep h2 True" by auto
  with run_trans [OF h1(1)] show ?case by (auto simp: pulls_def)
qed

section \<open>A request is a run of the handshake\<close>

lemma entered_path:
  "pullup_path f (request_start stale) [] ((request_start stale)\<lparr>r_pc := Cleared, holds := Some Request, pullup_flag := False\<rparr>)"
proof -
  let ?h = "(request_start stale)\<lparr>r_pc := Locked, holds := Some Request\<rparr>"
  have 1: "pullup_path f (request_start stale) [] ?h"
    by (intro run_step pullup_step.request [OF request_step.lock]) (simp_all add: request_start_def pullup_calls_def)
  have 2: "pullup_path f ?h [] (?h\<lparr>r_pc := Cleared, pullup_flag := False\<rparr>)"
    by (intro run_step pullup_step.request [OF request_step.clear]) (simp_all add: pullup_calls_def)
  from run_trans [OF 1 2] show ?thesis by (simp add: request_start_def)
qed

lemma without_callback_path:
  "\<exists>h. pullup_path f (request_start stale) [(Thread_create, Void)] h \<and> r_pc h = Left \<and> answer h = None \<and> \<not> pullup_flag h"
proof -
  let ?c = "(request_start stale)\<lparr>r_pc := Cleared, holds := Some Request, pullup_flag := False\<rparr>"
  have "pullup_path f ?c [(Thread_create, Void)] (?c\<lparr>r_pc := Left, t_pc := Checking, holds := None\<rparr>)"
    by (intro run_step pullup_step.request [OF request_step.no_callback]) (simp_all add: pullup_calls_def)
  from run_trans [OF entered_path this] show ?thesis
    by (intro exI [of _ "?c\<lparr>r_pc := Left, t_pc := Checking, holds := None\<rparr>"]) (simp add: request_start_def)
qed

lemma asleep_path:
  "\<exists>h. pullup_path f (request_start stale) [(Thread_create, Void), (Cv_wait_for timeout, Void)] h \<and> asleep h False \<and>
     answer h = None"
proof -
  let ?c = "(request_start stale)\<lparr>r_pc := Cleared, holds := Some Request, pullup_flag := False\<rparr>"
  let ?t = "?c\<lparr>r_pc := Testing, t_pc := Checking\<rparr>" let ?s = "?t\<lparr>r_pc := Sleeping, holds := None, notified := False\<rparr>"
  have 1: "pullup_path f ?c [(Thread_create, Void)] ?t"
    by (intro run_step pullup_step.request [OF request_step.start]) (simp_all add: pullup_calls_def)
  have 2: "pullup_path f ?t [(Cv_wait_for timeout, Void)] ?s"
    by (intro run_step pullup_step.request [OF request_step.sleep]) (simp_all add: pullup_calls_def)
  from run_trans [OF entered_path run_trans [OF 1 2]] show ?thesis
    by (intro exI [of _ ?s]) (simp add: asleep_def request_start_def)
qed

lemma answer_path:
  assumes "asleep h up"
  shows "\<exists>h'. pullup_path f h [(SetCurrentUsbFunctionsCb f (if up then SUCCESS else ERROR), Void)] h' \<and> r_pc h' = Left \<and>
    answer h' = Some up \<and> pullup_flag h' = up"
proof -
  let ?l = "h\<lparr>r_pc := Last_test, holds := Some Request\<rparr>" let ?a = "?l\<lparr>r_pc := Answering\<rparr>"
  let ?d = "?a\<lparr>r_pc := Answered, answer := Some up\<rparr>"
  have 1: "pullup_path f h [] ?l"
    using assms by (intro run_step pullup_step.request [OF request_step.time_out]) (simp_all add: asleep_def pullup_calls_def)
  have 2: "pullup_path f ?l [] ?a"
    by (intro run_step pullup_step.request [OF request_step.last_test]) (simp_all add: pullup_calls_def)
  have 3: "pullup_path f ?a [(SetCurrentUsbFunctionsCb f (if up then SUCCESS else ERROR), Void)] ?d"
    using assms pullup_step.request [OF request_step.reply [of ?a]] by (intro run_step) (simp_all add: asleep_def pullup_calls_def)
  have 4: "pullup_path f ?d [] (?d\<lparr>r_pc := Left, holds := None\<rparr>)"
    by (intro run_step pullup_step.request [OF request_step.leave]) (simp_all add: pullup_calls_def)
  from run_trans [OF 1 run_trans [OF 2 run_trans [OF 3 4]]] assms
  show ?thesis by (intro exI [of _ "?d\<lparr>r_pc := Left, holds := None\<rparr>"]) (simp add: asleep_def)
qed

lemma quiet_open: "emits (\<lambda>e. \<not> shared e) (open_monitor_fds E fd)"
  unfolding open_monitor_fds_def addEpollFd_def keep_fds_def close_fd_def by (intro emits_intros) (simp_all add: shared_def)

text \<open>Creating the descriptors is private to the request, and succeeds when the monitor is started.\<close>

lemma descriptors_open:
  assumes run: "run_state (start_monitor E B f cb timeout fd) g = (SUCCESS, g')"
  obtains g1 t where "run_state (open_monitor_fds E fd) g = (Inr (), g1)" and "hist g1 = hist g @ t" and "filter shared t = []"
proof -
  obtain r g1 where open_fds: "run_state (open_monitor_fds E fd) g = (r, g1)"
    by (cases "run_state (open_monitor_fds E fd) g")
  from emitsE [OF quiet_open this] obtain t where t: "hist g1 = hist g @ t" "list_all (\<lambda>e. \<not> shared e) t" .
  have "r = Inl ERROR \<or> r = Inr ()"
    using open_fds by (auto simp: open_monitor_fds_def addEpollFd_def keep_fds_def close_fd_def run_calls
      split: if_splits prod.splits)
  with run open_fds have "r = Inr ()" by (auto simp: start_monitor_def returned_def or_return_def)
  with open_fds t that [of g1 t] show thesis by (simp add: list_all_iff filter_empty_conv)
qed

text \<open>
  C5. The end of \<open>setupFunctions\<close> refines the handshake: when the descriptors were created, the calls that
  the request and its monitor exchange are those of a path of the step relation, from the entry of
  \<open>setupFunctions\<close> to its return, that gives the client the answer the code gives and leaves \<open>gadgetPullup\<close>
  as the code does; so the theorem about all interleavings speaks about the code.
\<close>

theorem start_monitor_is_handshake:
  assumes run: "run_state (start_monitor E B functions cb timeout inotifyFd) g = (SUCCESS, g')"
  shows "\<exists>t h. hist g' = hist g @ t \<and> pullup_path functions (request_start (gadgetPullup g)) (filter shared t) h \<and>
    pullup_reachable h \<and> r_pc h = Left \<and> pullup_flag h = gadgetPullup g' \<and>
    (answer h \<noteq> None \<longleftrightarrow> cb) \<and>
    (cb \<longrightarrow> (\<exists>u. t = u @ [(SetCurrentUsbFunctionsCb functions (if answer h = Some True then SUCCESS else ERROR), Void)]))"
proof -
  obtain g1 t1 where open_fds: "run_state (open_monitor_fds E inotifyFd) g = (Inr (), g1)"
    and t1: "hist g1 = hist g @ t1" and quiet1: "filter shared t1 = []" by (rule descriptors_open [OF run])
  let ?g2 = "g1\<lparr>gadgetPullup := False, hist := hist g1 @ [(Thread_create, Void)], mMonitorCreated := True, mon_pc := Created\<rparr>"
  have path_reach: "pullup_path functions (request_start (gadgetPullup g)) u h \<Longrightarrow> pullup_reachable h" for u h
    unfolding pullup_reachable_def by (erule run_reached) (auto intro: reached.initial)
  show ?thesis
  proof (cases cb)
    case False
    with run open_fds have g': "g' = ?g2"
      by (simp add: start_monitor_def returned_def or_return_def wait_for_pullup_def call_void_def)
    from without_callback_path [where f = "functions" and stale = "gadgetPullup g"] obtain h where
      h: "pullup_path functions (request_start (gadgetPullup g)) [(Thread_create, Void)] h"
      "r_pc h = Left" "answer h = None" "\<not> pullup_flag h" by blast
    have "filter shared (t1 @ [(Thread_create, Void)]) = [(Thread_create, Void)]" using quiet1 by (simp add: shared_def)
    with h path_reach [OF h(1)] t1 False show ?thesis
      by (intro exI [of _ "t1 @ [(Thread_create, Void)]"] exI [of _ h]) (simp add: g')
  next
    case True
    let ?g3 = "?g2\<lparr>hist := hist ?g2 @ [(Cv_wait_for timeout, Void)]\<rparr>"
    obtain g4 where m: "run_state (monitor_while_waiting E B) ?g3 = ((), g4)"
      by (cases "run_state (monitor_while_waiting E B) ?g3") simp
    obtain t2 n where t2: "hist g4 = hist ?g3 @ t2" "filter shared t2 = pulls n" "gadgetPullup g4 = (0 < n)"
      by (rule monitor_while_waiting_run [OF m]) simp
    let ?ans = "(SetCurrentUsbFunctionsCb functions (if 0 < n then SUCCESS else ERROR), Void)"
    have g': "hist g' = hist g4 @ [?ans] \<and> gadgetPullup g' = (0 < n)"
      using run open_fds True m t2(3)
      by (auto simp: start_monitor_def returned_def or_return_def wait_for_pullup_def call_void_def)
    from asleep_path [where f = "functions" and stale = "gadgetPullup g" and timeout = timeout] obtain h1 where h1:
      "pullup_path functions (request_start (gadgetPullup g)) [(Thread_create, Void), (Cv_wait_for timeout, Void)] h1"
      "asleep h1 False" by blast
    from pulls_path [OF h1(2), where f = "functions" and n = n] obtain h2 where h2: "pullup_path functions h1 (pulls n) h2" "asleep h2 (0 < n)"
      by auto
    from answer_path [OF h2(2), where f = "functions"] obtain h where h: "pullup_path functions h2 [?ans] h" "r_pc h = Left"
      "answer h = Some (0 < n)" "pullup_flag h = (0 < n)" by blast
    let ?t = "t1 @ [(Thread_create, Void), (Cv_wait_for timeout, Void)] @ t2 @ [?ans]"
    have "filter shared ?t = [(Thread_create, Void), (Cv_wait_for timeout, Void)] @ pulls n @ [?ans]"
      using quiet1 t2(2) by (simp add: shared_def)
    with run_trans [OF h1(1) run_trans [OF h2(1) h(1)]]
    have path: "pullup_path functions (request_start (gadgetPullup g)) (filter shared ?t) h" by simp
    have "hist g' = hist g @ ?t" using g' t1 t2(1) by simp
    with path path_reach [OF path] h(2-4) g' True show ?thesis
      by (intro exI [of _ ?t] exI [of _ h]) simp
  qed
qed

text \<open>A monitor that pulls the gadget up while the request waits: the path ends with the answer success.\<close>

theorem start_monitor_is_handshake_witness:
  "\<exists>t h. pullup_path 5 (request_start False) t h \<and> pullup_flag h \<and> answer h \<noteq> None \<and> r_pc h = Left"
proof -
  let ?run = "run_state (start_monitor quiet_env (\<lambda>_. Some [[Inotify_readable [1]]]) 5 True 1000 7) (new_gadget 0 quiet_env)"
  have "fst ?run = SUCCESS" and up: "gadgetPullup (snd ?run)" by code_simp+
  then have run: "?run = (SUCCESS, snd ?run)" by (simp add: prod_eq_iff)
  have down: "\<not> gadgetPullup (new_gadget 0 quiet_env)" by code_simp
  from start_monitor_is_handshake [OF run] up down show ?thesis by auto
qed

end
