(* ===== verification/StopProtocol.thy ===== *)
theory StopProtocol
  imports WaitProtocol
begin

text \<open>
  The contract of stopping a thread: one thread tells another to end and joins it.  The laws are about
  single steps while the join waits: each step of the two threads decreases an effort, and one of them
  can move unless the thread to be stopped is blocked.  What follows is that the join returns within a
  number of steps known beforehand, or waits for a thread that only something from outside can wake.
  \<open>UsbGadget::tearDownGadget\<close>, which stops its monitor through an event descriptor, keeps the contract
  with no blocked state; \<open>Usb::setCallback\<close>, which sends a signal, keeps it with one.
\<close>

locale stop_protocol =
  fixes init :: "'s \<Rightarrow> bool"
    and step :: "'s \<Rightarrow> 's \<Rightarrow> bool"      \<comment> \<open>also what comes from outside\<close>
    and own :: "'s \<Rightarrow> 's \<Rightarrow> bool"       \<comment> \<open>the steps of the two threads\<close>
    and inv :: "'s \<Rightarrow> bool"
    and joining :: "'s \<Rightarrow> bool"
    and joined :: "'s \<Rightarrow> bool"
    and blocked :: "'s \<Rightarrow> bool"
    and effort :: "'s \<Rightarrow> nat"
  assumes inv_init: "init s \<Longrightarrow> inv s"
    and inv_step: "inv s \<Longrightarrow> step s s' \<Longrightarrow> inv s'"
    and own_step: "inv s \<Longrightarrow> own s s' \<Longrightarrow> step s s'"
    and decreases: "inv s \<Longrightarrow> joining s \<Longrightarrow> own s s' \<Longrightarrow> effort s' < effort s"
    and stays: "inv s \<Longrightarrow> joining s \<Longrightarrow> own s s' \<Longrightarrow> joining s' \<or> joined s'"
    and progress: "inv s \<Longrightarrow> joining s \<Longrightarrow> \<not> blocked s \<Longrightarrow> \<exists>s'. own s s'"
begin

text \<open>The steps of the two threads while the join waits.\<close>

abbreviation waits :: "'s \<Rightarrow> 's \<Rightarrow> bool" where
  "waits s s' \<equiv> joining s \<and> own s s'"

lemma reached_inv: "reached init step s \<Longrightarrow> inv s"
  by (induction rule: reached.induct) (auto intro: inv_init inv_step)

lemma wait_bounded:
  "inv s \<Longrightarrow> (waits ^^ n) s s' \<Longrightarrow> inv s' \<and> n + effort s' \<le> effort s \<and> (n = 0 \<or> joining s' \<or> joined s')"
proof (induction n arbitrary: s')
  case (Suc n)
  from Suc.prems(2) obtain t where run: "(waits ^^ n) s t" and last: "joining t" "own t s'"
    by (blast elim: relpowp_Suc_E)
  from Suc.IH [OF Suc.prems(1) run] have t: "inv t" "n + effort t \<le> effort s" by blast+
  with last have "inv s'" "effort s' < effort t" "joining s' \<or> joined s'"
    by (auto intro: inv_step own_step decreases dest: stays)
  with t(2) show ?case by simp
qed simp

text \<open>However the threads are scheduled, the wait ends, and it ends with the join unless the thread is blocked.\<close>

lemma join_returns:
  assumes "inv s" and "joining s" and "(waits ^^ n) s s'"
  shows "n \<le> effort s \<and> (joined s' \<or> blocked s' \<or> (\<exists>t. waits s' t))"
proof -
  from wait_bounded [OF assms(1,3)] have s': "inv s'" "n + effort s' \<le> effort s" "n = 0 \<or> joining s' \<or> joined s'"
    by blast+
  have "joining s' \<or> joined s'"
  proof (cases n)
    case 0
    with assms(2,3) show ?thesis by simp
  qed (use s'(3) in simp)
  with s' progress [of s'] show ?thesis by auto
qed

lemma join_reachable:
  "inv s \<Longrightarrow> joining s \<Longrightarrow> \<exists>n s'. (waits ^^ n) s s' \<and> (joined s' \<or> joining s' \<and> blocked s')"
proof (induction "effort s" arbitrary: s rule: less_induct)
  case less
  show ?case
  proof (cases "blocked s")
    case True
    with less.prems show ?thesis by (intro exI [of _ 0] exI [of _ s]) simp
  next
    case False
    with progress less.prems obtain t where t: "waits s t" by blast
    show ?thesis
    proof (cases "joining t")
      case True
      from t less.prems have "inv t" "effort t < effort s" by (auto intro: inv_step own_step decreases)
      with less.hyps True obtain n s' where run: "(waits ^^ n) t s'" and "joined s' \<or> joining s' \<and> blocked s'" by blast
      then show ?thesis using relpowp_Suc_I2 [of waits, OF t run] by blast
    next
      case False
      with t less.prems stays have "joined t" by blast
      moreover have "(waits ^^ Suc 0) s t" using t by (simp only: relpowp_Suc_0)
      ultimately show ?thesis by blast
    qed
  qed
qed

end

end
