(* ===== verification/GadgetTeardown.thy ===== *)
theory GadgetTeardown
  imports StopProtocol
begin

text \<open>
  A request of \<open>usb/UsbGadget.cpp\<close> and the monitor thread of the request before it, step by step:
  \<open>setCurrentUsbFunctions\<close> forgets that the functions are applied, \<open>tearDownGadget\<close> pulls the gadget down,
  unlinks the functions, writes the stop value into the event descriptor and joins the thread, which goes
  on testing endpoints, pulling the gadget up and taking \<open>mLock\<close> all the while.  Every interleaving of
  the two is a run; what the kernel reports and whether a call succeeds is left open.
\<close>

section \<open>The steps\<close>

text \<open>
  The request: \<open>Joining\<close> is \<open>mMonitor->join()\<close>, \<open>Torn_down\<close> the successful return of \<open>tearDownGadget\<close>,
  \<open>Setting_up\<close> the start of \<open>setupFunctions\<close> with \<open>mLock\<close> held.
\<close>

datatype teardown_pc = Requested | Forgotten | Pulled_down | Unlinked | Joining | Joined | Torn_down | Setting_up | Failed

text \<open>
  The monitor: the first check and those of the loop (the argument tells which) go through the same
  statements; \<open>Between\<close> is the top of the loops over the inotify records and the events.
\<close>

datatype monitor_at =
    Checking bool | Found bool | Pulled_up bool | In_section bool | Raised bool
  | Between | Polling | Ended

text \<open>What one \<open>epoll_wait\<close> reports: the inotify descriptor, with the number of records \<open>read\<close> returns, or the stop value.\<close>

datatype reported = Records nat | Stop_value

datatype lock_holder = Request | Monitor

record teardown =
  req :: teardown_pc
  mon :: monitor_at
  todo :: "reported list"          \<comment> \<open>the rest of \<open>events\<close> and of the buffer\<close>
  write_udc :: bool                \<comment> \<open>\<open>writeUdc\<close>\<close>
  m_lock :: "lock_holder option"   \<comment> \<open>\<open>mLock\<close>\<close>
  stop_sent :: bool                \<comment> \<open>the value 100 is in the event descriptor\<close>
  udc_up :: bool                   \<comment> \<open>the UDC node names a controller\<close>
  applied :: bool                  \<comment> \<open>\<open>mCurrentUsbFunctionsApplied\<close>\<close>
  went_down :: bool                \<comment> \<open>the write of \<open>none\<close> succeeded\<close>
  late_up :: bool                  \<comment> \<open>the monitor wrote the node after that\<close>
  late_raise :: bool               \<comment> \<open>the monitor raised its flags after the request cleared them\<close>

definition EPOLL_EVENTS :: nat where "EPOLL_EVENTS = 10"
definition BUFFER_SIZE :: nat where "BUFFER_SIZE = 512"

text \<open>\<open>sizeof(struct inotify_event)\<close> without a name: the shortest record.\<close>

definition INOTIFY_EVENT_SIZE :: nat where "INOTIFY_EVENT_SIZE = 16"

text \<open>
  The two descriptors of the epoll set are level triggered and \<open>EPOLL_EVENTS\<close> leaves room for both: each
  is reported once if it is readable, in any order.  A wait that returns without an event (after a signal,
  say) is repeated at once and is no step.
\<close>

definition max_records :: nat where
  "max_records = BUFFER_SIZE div INOTIFY_EVENT_SIZE"

definition epoll_result :: "bool \<Rightarrow> reported list \<Rightarrow> bool" where
  "epoll_result stop es \<longleftrightarrow> es \<noteq> [] \<and> length es \<le> EPOLL_EVENTS \<and>
     (\<exists>n \<le> max_records. es \<in> {[Records n], [Stop_value], [Records n, Stop_value], [Stop_value, Records n]}) \<and>
     (Stop_value \<in> set es \<longleftrightarrow> stop)"

inductive stopper_step :: "teardown \<Rightarrow> teardown \<Rightarrow> bool" where
  forget: "req h = Requested \<Longrightarrow> stopper_step h (h\<lparr>req := Forgotten, applied := False\<rparr>)"
| pull_down: "req h = Forgotten \<Longrightarrow> stopper_step h (h\<lparr>req := Pulled_down, udc_up := False, went_down := True\<rparr>)"
| pull_down_failed: "req h = Forgotten \<Longrightarrow> stopper_step h (h\<lparr>req := Pulled_down\<rparr>)"
| unlink: "req h = Pulled_down \<Longrightarrow> stopper_step h (h\<lparr>req := Unlinked\<rparr>)"
| unlink_failed: "req h = Pulled_down \<Longrightarrow> stopper_step h (h\<lparr>req := Failed\<rparr>)"
| send_stop: "req h = Unlinked \<Longrightarrow> stopper_step h (h\<lparr>req := Joining, stop_sent := True\<rparr>)"
| join: "req h = Joining \<Longrightarrow> mon h = Ended \<Longrightarrow> stopper_step h (h\<lparr>req := Joined\<rparr>)"
| drop: "req h = Joined \<Longrightarrow> stopper_step h (h\<lparr>req := Torn_down\<rparr>)"
| set_up: "req h = Torn_down \<Longrightarrow> m_lock h = None \<Longrightarrow>
    stopper_step h (h\<lparr>req := Setting_up, m_lock := Some Request\<rparr>)"

inductive stopped_step :: "teardown \<Rightarrow> teardown \<Rightarrow> bool" where
  present: "mon h = Checking first \<Longrightarrow> first \<or> write_udc h \<Longrightarrow> stopped_step h (h\<lparr>mon := Found first\<rparr>)"
| still_present: "mon h = Checking False \<Longrightarrow> \<not> write_udc h \<Longrightarrow> stopped_step h (h\<lparr>mon := Between\<rparr>)"
| absent: "mon h = Checking first \<Longrightarrow>
    stopped_step h (h\<lparr>mon := Between, write_udc := (if first then write_udc h else True)\<rparr>)"
| pull_up: "mon h = Found first \<Longrightarrow> stopped_step h (h\<lparr>mon := Pulled_up first, udc_up := True,
    late_up := late_up h \<or> went_down h\<rparr>)"
| pull_up_failed: "mon h = Found first \<Longrightarrow> stopped_step h (h\<lparr>mon := Between\<rparr>)"
| enter: "mon h = Pulled_up first \<Longrightarrow> m_lock h = None \<Longrightarrow>
    stopped_step h (h\<lparr>mon := In_section first, m_lock := Some Monitor\<rparr>)"
| raise_flags: "mon h = In_section first \<Longrightarrow>
    stopped_step h (h\<lparr>mon := Raised first, applied := True, write_udc := first \<and> write_udc h,
      late_raise := late_raise h \<or> req h \<noteq> Requested\<rparr>)"
| notify: "mon h = Raised first \<Longrightarrow> stopped_step h (h\<lparr>mon := Between, m_lock := None\<rparr>)"
| next_record: "mon h = Between \<Longrightarrow> todo h = Records (Suc n) # es \<Longrightarrow>
    stopped_step h (h\<lparr>mon := Checking False, todo := Records n # es\<rparr>)"
| last_record: "mon h = Between \<Longrightarrow> todo h = Records 0 # es \<Longrightarrow> stopped_step h (h\<lparr>todo := es\<rparr>)"
| stop: "mon h = Between \<Longrightarrow> todo h = Stop_value # es \<Longrightarrow> stopped_step h (h\<lparr>mon := Ended, todo := []\<rparr>)"
| wait_again: "mon h = Between \<Longrightarrow> todo h = [] \<Longrightarrow> stopped_step h (h\<lparr>mon := Polling\<rparr>)"
| poll: "mon h = Polling \<Longrightarrow> epoll_result (stop_sent h) es \<Longrightarrow> stopped_step h (h\<lparr>mon := Between, todo := es\<rparr>)"

inductive teardown_step :: "teardown \<Rightarrow> teardown \<Rightarrow> bool" where
  stopper: "stopper_step h h' \<Longrightarrow> teardown_step h h'"
| stopped: "stopped_step h h' \<Longrightarrow> teardown_step h h'"

inductive_cases stopper_stepE: "stopper_step h h'"
inductive_cases stopped_stepE: "stopped_step h h'"
inductive_cases teardown_stepE: "teardown_step h h'"

lemmas teardown_elims = teardown_stepE stopper_stepE stopped_stepE

text \<open>The monitor of an earlier request, anywhere outside its critical section, with any of its flags.\<close>

definition teardown_start :: "teardown \<Rightarrow> bool" where
  "teardown_start h \<longleftrightarrow> req h = Requested \<and> mon h \<in> {Checking True, Polling} \<and> todo h = [] \<and> m_lock h = None \<and>
     \<not> stop_sent h \<and> \<not> went_down h \<and> \<not> late_up h \<and> \<not> late_raise h"

abbreviation teardown_reached :: "teardown \<Rightarrow> bool" where
  "teardown_reached \<equiv> reached teardown_start teardown_step"

section \<open>The invariant\<close>

fun monitor_cost :: "monitor_at \<Rightarrow> nat" where
  "monitor_cost (Checking _) = 5"
| "monitor_cost (Found _) = 4"
| "monitor_cost (Pulled_up _) = 3"
| "monitor_cost (In_section _) = 2"
| "monitor_cost (Raised _) = 1"
| "monitor_cost _ = 0"

fun reported_cost :: "reported \<Rightarrow> nat" where
  "reported_cost (Records n) = 6 * n + 1"
| "reported_cost Stop_value = 1"

definition todo_cost :: "reported list \<Rightarrow> nat" where
  "todo_cost es = sum_list (map reported_cost es)"

text \<open>The most that one result of \<open>epoll_wait\<close> can cost.\<close>

definition full_cost :: nat where "full_cost = 6 * max_records + 2"

lemma todo_cost_simps [simp]:
  "todo_cost [] = 0" "todo_cost (e # es) = reported_cost e + todo_cost es"
  by (simp_all add: todo_cost_def)

lemma epoll_result_cost: "epoll_result stop es \<Longrightarrow> todo_cost es \<le> full_cost"
  by (auto simp: epoll_result_def full_cost_def)

lemma full_cost_eq: "full_cost = 194"
  by (simp add: full_cost_def max_records_def BUFFER_SIZE_def INOTIFY_EVENT_SIZE_def)

fun in_section :: "monitor_at \<Rightarrow> bool" where
  "in_section (In_section _) = True"
| "in_section (Raised _) = True"
| "in_section _ = False"

fun stop_written :: "teardown_pc \<Rightarrow> bool" where
  "stop_written Joining = True"
| "stop_written Joined = True"
| "stop_written Torn_down = True"
| "stop_written Setting_up = True"
| "stop_written _ = False"

fun after_join :: "teardown_pc \<Rightarrow> bool" where
  "after_join Joined = True"
| "after_join Torn_down = True"
| "after_join Setting_up = True"
| "after_join _ = False"

definition locks_ok :: "teardown \<Rightarrow> bool" where
  "locks_ok h \<longleftrightarrow> (m_lock h = Some Monitor \<longleftrightarrow> in_section (mon h)) \<and> (m_lock h = Some Request \<longleftrightarrow> req h = Setting_up)"

definition queue_ok :: "teardown \<Rightarrow> bool" where
  "queue_ok h \<longleftrightarrow> (mon h \<in> {Polling, Ended} \<longrightarrow> todo h = []) \<and> monitor_cost (mon h) + todo_cost (todo h) \<le> full_cost \<and>
     (Stop_value \<in> set (todo h) \<or> mon h = Ended \<longrightarrow> stop_sent h) \<and> stop_sent h = stop_written (req h) \<and>
     (after_join (req h) \<longrightarrow> mon h = Ended)"

definition flags_ok :: "teardown \<Rightarrow> bool" where
  "flags_ok h \<longleftrightarrow> (late_up h \<longrightarrow> went_down h) \<and> (went_down h \<longrightarrow> udc_up h = late_up h \<and> req h \<notin> {Requested, Forgotten}) \<and>
     (if req h = Requested then \<not> late_raise h else applied h = late_raise h)"

definition teardown_inv :: "teardown \<Rightarrow> bool" where
  "teardown_inv h \<longleftrightarrow> locks_ok h \<and> queue_ok h \<and> flags_ok h"

lemma teardown_inv_start: "teardown_start h \<Longrightarrow> teardown_inv h"
  by (auto simp: teardown_start_def teardown_inv_def locks_ok_def queue_ok_def flags_ok_def full_cost_eq)

lemma locks_ok_step: "locks_ok h \<Longrightarrow> teardown_step h h' \<Longrightarrow> locks_ok h'"
  by (elim teardown_elims) (auto simp: locks_ok_def)

lemma queue_ok_step:
  assumes "queue_ok h" and "teardown_step h h'"
  shows "queue_ok h'"
  using assms(2)
proof (cases rule: teardown_step.cases)
  case stopper
  then show ?thesis using assms(1) by (elim stopper_stepE) (auto simp: queue_ok_def)
next
  case stopped
  then show ?thesis
  proof (cases rule: stopped_step.cases)
    case (poll es)
    moreover from poll have "todo_cost es \<le> full_cost" "Stop_value \<in> set es \<longleftrightarrow> stop_sent h"
      by (auto simp: epoll_result_cost) (auto simp: epoll_result_def)
    ultimately show ?thesis using assms(1) by (auto simp: queue_ok_def)
  qed (use assms(1) in \<open>auto simp: queue_ok_def\<close>)
qed

lemma flags_ok_step: "flags_ok h \<Longrightarrow> teardown_step h h' \<Longrightarrow> flags_ok h'"
  by (elim teardown_elims) (auto simp: flags_ok_def split: if_splits)

lemma teardown_inv_step: "teardown_inv h \<Longrightarrow> teardown_step h h' \<Longrightarrow> teardown_inv h'"
  using locks_ok_step queue_ok_step flags_ok_step unfolding teardown_inv_def by blast

section \<open>The join returns\<close>

definition teardown_effort :: "teardown \<Rightarrow> nat" where
  "teardown_effort h =
     (if req h \<noteq> Joining then 0
      else if mon h = Ended then 1
      else 2 + monitor_cost (mon h) + todo_cost (todo h) +
        (if mon h = Polling then full_cost + 1 else if Stop_value \<in> set (todo h) then 0 else full_cost + 2))"

lemma effort_bound: "teardown_inv h \<Longrightarrow> teardown_effort h \<le> 2 * full_cost + 4"
  by (auto simp: teardown_effort_def teardown_inv_def queue_ok_def)

lemma effort_decreases:
  assumes inv: "teardown_inv h" and "req h = Joining" and "teardown_step h h'"
  shows "teardown_effort h' < teardown_effort h"
  using assms(3)
proof (cases rule: teardown_step.cases)
  case stopper
  then show ?thesis using assms(1,2) by (elim stopper_stepE) (auto simp: teardown_effort_def)
next
  case stopped
  then show ?thesis
  proof (cases rule: stopped_step.cases)
    case (poll es)
    with inv assms(2) have "Stop_value \<in> set es" "todo_cost es \<le> full_cost" "todo h = []"
      by (auto simp: teardown_inv_def queue_ok_def epoll_result_cost) (auto simp: epoll_result_def)
    with poll assms(2) show ?thesis by (auto simp: teardown_effort_def)
  qed (use assms(1,2) in \<open>auto simp: teardown_effort_def teardown_inv_def queue_ok_def\<close>)
qed

lemma epoll_result_exists: "epoll_result True [Stop_value]"
  by (auto simp: epoll_result_def EPOLL_EVENTS_def)

text \<open>The request does not hold \<open>mLock\<close> while it joins, so whatever the monitor does next it can do.\<close>

lemma teardown_progress:
  assumes "teardown_inv h" and "req h = Joining"
  shows "\<exists>h'. teardown_step h h'"
proof -
  have free: "m_lock h = None" if "\<not> in_section (mon h)"
    using that assms by (cases "m_lock h") (auto simp: teardown_inv_def locks_ok_def, metis lock_holder.exhaust)
  have "stop_sent h" using assms by (simp add: teardown_inv_def queue_ok_def)
  then have poll: "mon h = Polling \<Longrightarrow> \<exists>h'. stopped_step h h'"
    using stopped_step.poll [of h "[Stop_value]"] epoll_result_exists by auto
  have queue: "mon h = Between \<Longrightarrow> \<exists>h'. stopped_step h h'"
  proof (cases "todo h")
    case Nil
    then show "mon h = Between \<Longrightarrow> ?thesis" using stopped_step.wait_again [of h] by blast
  next
    case (Cons e es)
    then show "mon h = Between \<Longrightarrow> ?thesis"
      using stopped_step.stop [of h es] stopped_step.last_record [of h es] stopped_step.next_record [of h _ es]
      by (cases e rule: reported_cost.cases) (metis not0_implies_Suc)+
  qed
  have "mon h = Ended \<or> (\<exists>h'. stopped_step h h')"
  proof (cases "mon h")
    case (Checking first) then show ?thesis using stopped_step.absent [of h first] by blast
  next
    case (Found first) then show ?thesis using stopped_step.pull_up_failed [of h first] by blast
  next
    case (Pulled_up first) then show ?thesis using stopped_step.enter [of h first] free by auto
  next
    case (In_section first) then show ?thesis using stopped_step.raise_flags [of h first] by blast
  next
    case (Raised first) then show ?thesis using stopped_step.notify [of h first] by blast
  qed (use poll queue in auto)
  with assms(2) show ?thesis
    using stopper_step.join [of h] teardown_step.stopper teardown_step.stopped by blast
qed

interpretation monitor_stop: stop_protocol teardown_start teardown_step teardown_step teardown_inv
  "\<lambda>h. req h = Joining" "\<lambda>h. req h = Joined" "\<lambda>_. False" teardown_effort
proof
  fix h h' :: teardown
  show "teardown_inv h \<Longrightarrow> req h = Joining \<Longrightarrow> teardown_step h h' \<Longrightarrow> req h' = Joining \<or> req h' = Joined"
    by (elim teardown_elims) auto
qed (use teardown_inv_start teardown_inv_step effort_decreases teardown_progress in blast)+

abbreviation join_waits :: "teardown \<Rightarrow> teardown \<Rightarrow> bool" where
  "join_waits h h' \<equiv> req h = Joining \<and> teardown_step h h'"

text \<open>
  C5. The join of a tear-down returns: however the two threads are scheduled, whatever the monitor was
  doing when the stop value was written, whatever \<open>epoll_wait\<close> and the endpoints tell it and whether its
  writes succeed, the request waits for at most 392 steps, and as long as it waits one of the two can move.
\<close>

theorem teardown_join_returns:
  assumes reach: "teardown_reached h" and joining: "req h = Joining" and run: "(join_waits ^^ n) h h'"
  shows "n \<le> 392 \<and> (req h' = Joined \<or> (\<exists>h2. join_waits h' h2))"
proof -
  have inv: "teardown_inv h" by (rule monitor_stop.reached_inv [OF reach])
  from effort_bound [OF this] have "teardown_effort h \<le> 392" by (simp add: full_cost_eq)
  with monitor_stop.join_returns [OF inv joining run] show ?thesis by auto
qed

text \<open>A run: the monitor has pulled the gadget up when the request comes, and enters its section afterwards.\<close>

abbreviation stale :: "teardown_pc \<Rightarrow> monitor_at \<Rightarrow> reported list \<Rightarrow> bool \<Rightarrow> teardown" where
  "stale r m es sent \<equiv> \<lparr>req = r, mon = m, todo = es, write_udc = False, m_lock = None, stop_sent = sent,
     udc_up = False, applied = True, went_down = True, late_up = False, late_raise = True\<rparr>"

lemma stale_run: "teardown_reached (stale Joining Between [] True)"
proof -
  note go = reached.next_step and own = teardown_step.stopper and mon = teardown_step.stopped
  let ?w = "\<lambda>m es u. \<lparr>req = Requested, mon = m, todo = es, write_udc = True, m_lock = None, stop_sent = False,
     udc_up = u, applied = False, went_down = False, late_up = False, late_raise = False\<rparr>"
  have poll: "epoll_result False [Records 1]"
    by (auto simp: epoll_result_def EPOLL_EVENTS_def max_records_def BUFFER_SIZE_def INOTIFY_EVENT_SIZE_def)
  have "teardown_reached (?w Polling [] False)"
    by (rule reached.initial) (simp add: teardown_start_def)
  from go [OF this mon [OF stopped_step.poll [where es = "[Records 1]"]]] have "teardown_reached (?w Between [Records 1] False)"
    using poll by simp
  from go [OF this mon [OF stopped_step.next_record]] have "teardown_reached (?w (Checking False) [Records 0] False)"
    by simp
  from go [OF this mon [OF stopped_step.present [where first = False]]] have "teardown_reached (?w (Found False) [Records 0] False)"
    by simp
  from go [OF this mon [OF stopped_step.pull_up [where first = False]]] have "teardown_reached (?w (Pulled_up False) [Records 0] True)"
    by simp
  note go [OF this own [OF forget]]
  note go [OF this own [OF pull_down]]
  note go [OF this mon [OF stopped_step.enter [where first = False]]]
  note go [OF this mon [OF stopped_step.raise_flags [where first = False]]]
  note go [OF this mon [OF stopped_step.notify [where first = False]]]
  then have "teardown_reached (stale Pulled_down Between [Records 0] False)" by simp
  from go [OF this own [OF unlink]] have "teardown_reached (stale Unlinked Between [Records 0] False)" by simp
  from go [OF this own [OF send_stop]] have "teardown_reached (stale Joining Between [Records 0] True)" by simp
  from go [OF this mon [OF stopped_step.last_record]] show ?thesis by simp
qed

text \<open>Two steps later the thread waits for events, and all that is left is to fetch the stop value.\<close>

theorem teardown_join_returns_witness:
  "\<exists>h h' h2. teardown_reached h \<and> req h = Joining \<and> (join_waits ^^ 1) h h' \<and> join_waits h' h2"
proof -
  let ?h = "stale Joining Between [] True" and ?h' = "stale Joining Polling [] True"
  have "join_waits ?h ?h'"
    using teardown_step.stopped [OF stopped_step.wait_again [of ?h]] by simp
  then have run: "(join_waits ^^ 1) ?h ?h'" by (simp only: relpowp_1)
  from teardown_join_returns [OF stale_run _ run] obtain h2 where "join_waits ?h' h2" by auto
  with stale_run run show ?thesis by (intro exI [of _ ?h] exI [of _ ?h'] exI [of _ h2]) (simp only: teardown.select_convs simp_thms)
qed

section \<open>What the tear-down leaves\<close>

text \<open>
  C6. When a tear-down has returned with success, also later while \<open>setupFunctions\<close> holds \<open>mLock\<close>, no
  monitor runs and the thread does not hold \<open>mLock\<close>; if the gadget could be pulled down it is down unless
  the old monitor has written the node since; and the functions count as applied exactly if the old monitor
  has raised its flags since the request cleared them, which it can have done although the gadget is down.
\<close>

theorem teardown_leaves:
  assumes "teardown_reached h" and "req h \<in> {Torn_down, Setting_up}"
  shows "mon h = Ended \<and> m_lock h \<noteq> Some Monitor \<and> (went_down h \<longrightarrow> udc_up h = late_up h) \<and> applied h = late_raise h"
proof -
  from monitor_stop.reached_inv [OF assms(1)] have "locks_ok h" "queue_ok h" "flags_ok h"
    by (simp_all add: teardown_inv_def)
  moreover from assms(2) have "after_join (req h)" "req h \<noteq> Requested" by auto
  ultimately show ?thesis by (simp add: locks_ok_def queue_ok_def flags_ok_def)
qed

theorem teardown_leaves_witness:
  "\<exists>h. teardown_reached h \<and> req h = Torn_down \<and> applied h \<and> \<not> udc_up h \<and> mon h = Ended"
proof -
  note go = reached.next_step and own = teardown_step.stopper and mon = teardown_step.stopped
  from go [OF stale_run mon [OF stopped_step.wait_again]] have "teardown_reached (stale Joining Polling [] True)" by simp
  from go [OF this mon [OF stopped_step.poll [where es = "[Stop_value]"]]] have "teardown_reached (stale Joining Between [Stop_value] True)"
    using epoll_result_exists by simp
  from go [OF this mon [OF stopped_step.stop]] have "teardown_reached (stale Joining Ended [] True)" by simp
  from go [OF this own [OF join]] have "teardown_reached (stale Joined Ended [] True)" by simp
  from go [OF this own [OF drop]] have r: "teardown_reached (stale Torn_down Ended [] True)" by simp
  from teardown_leaves [OF r] r show ?thesis by (intro exI [of _ "stale Torn_down Ended [] True"]) simp
qed

end
