(* ===== verification/GadgetPaths.thy ===== *)
theory GadgetPaths
  imports UsbGadget
begin

text \<open>
  The path buffers of \<open>usb/UsbGadget.cpp\<close>: \<open>linkFunction\<close> and \<open>unlinkFunctions\<close> build paths with \<open>sprintf\<close>
  in arrays of \<open>MAX_FILE_PATH_LENGTH\<close> bytes.
\<close>

definition MAX_FILE_PATH_LENGTH :: nat where "MAX_FILE_PATH_LENGTH = 256"

text \<open>A path with its terminating NUL fits a buffer.\<close>

definition fits :: "string \<Rightarrow> bool" where
  "fits p \<longleftrightarrow> length p < MAX_FILE_PATH_LENGTH"

definition link_fits :: "gadget_call \<times> answer \<Rightarrow> bool" where
  "link_fits e \<longleftrightarrow> (\<forall>target link. fst e = Symlink target link \<longrightarrow>
     fits target \<and> (\<exists>i. link = FUNCTION_PATH @ print_nat i \<and> (i < 2 ^ 31 \<longrightarrow> fits link)))"

definition unlink_fits :: "gadget_call \<times> answer \<Rightarrow> bool" where
  "unlink_fits e \<longleftrightarrow> (\<forall>p. fst e = Remove p \<longrightarrow>
     (\<exists>d. p = CONFIG_PATH @ ''/'' @ d \<and> (fits p \<longleftrightarrow> length d \<le> 220)))"

lemma FUNCTION_PATH_length: "length FUNCTION_PATH < 200" "length FUNCTIONS_PATH < 200"
  by code_simp+

lemma link_next_fits [emits_intros]: "length f \<le> 50 \<Longrightarrow> emits link_fits (link_next E f i)"
  unfolding link_next_def linkFunction_def
proof (intro emits_intros)
  fix r assume f: "length f \<le> 50"
  have "i < 2 ^ 31 \<Longrightarrow> length (print_nat i) \<le> 10"
    by (rule print_nat_length) (auto elim: less_le_trans)
  then have "i < 2 ^ 31 \<Longrightarrow> fits (FUNCTION_PATH @ print_nat i)"
    using FUNCTION_PATH_length(1) by (simp add: fits_def MAX_FILE_PATH_LENGTH_def)
  then show "link_fits (Symlink (FUNCTIONS_PATH @ f) (FUNCTION_PATH @ print_nat i), Num r)"
    using f FUNCTION_PATH_length(2) by (auto simp: link_fits_def fits_def MAX_FILE_PATH_LENGTH_def)
qed

lemma link_if_fits [emits_intros]: "length f \<le> 50 \<Longrightarrow> emits link_fits (link_if E b f i)"
  unfolding link_if_def by (intro emits_intros)

lemma other_fits: "(\<And>p q. c \<noteq> Symlink p q) \<Longrightarrow> link_fits (c, a)"
  by (simp add: link_fits_def)

lemma setup_ffs_fits [emits_intros]: "length f \<le> 50 \<Longrightarrow> emits link_fits (setup_ffs E fd dir f eps i)"
  unfolding setup_ffs_def write_file_def by (intro emits_intros other_fits) simp_all

lemma link_vendor_fits [emits_intros]: "emits link_fits (link_vendor E fs i)"
  by (induction E fs i rule: link_vendor.induct) (simp_all only: link_vendor.simps, (intro emits_intros; simp)+)

lemma getVendorFunctions_fits [emits_intros]: "emits link_fits (getVendorFunctions E)"
  unfolding getVendorFunctions_def get_property_def Let_def by (intro emits_intros other_fits) simp_all

lemma setup_links_fits: "emits link_fits (setup_links K E functions fd)"
  unfolding setup_links_def setup_media_def setup_vendor_def
  by (intro emits_intros other_fits) simp_all

lemma unlink_entries_paths:
  "emits (\<lambda>e. \<exists>d s. fst e = Remove (path @ ''/'' @ d) \<and> (d, s) \<in> set es \<and> contains d FUNCTION_NAME) (unlink_entries E path es)"
proof (induction es)
  case (Cons e es)
  obtain d s where e: "e = (d, s)" by (cases e)
  show ?case
    unfolding e unlink_entries.simps by (intro emits_intros emits_mono [OF Cons.IH]) auto
qed (simp add: emits_intros)

text \<open>
  The path buffers.  Whatever functions are asked for and whatever vendor functions are configured, each
  target that \<open>setupFunctions\<close> links fits its buffer of 256 bytes, and so does the name of the link for every
  index in the range of \<open>int\<close>.  A path that \<open>unlinkFunctions\<close> removes fits exactly if the directory entry has at
  most 220 characters; file systems allow 255.
\<close>

theorem path_buffers:
  "list_all link_fits (emitted (setup_links K E functions fd) g) \<and>
   list_all unlink_fits (emitted (unlink_entries E CONFIG_PATH es) g)"
proof -
  have len: "length CONFIG_PATH = 34" by code_simp
  have "fits (CONFIG_PATH @ ''/'' @ d) \<longleftrightarrow> length d \<le> 220" for d
    by (auto simp: fits_def MAX_FILE_PATH_LENGTH_def len)
  then have "emits unlink_fits (unlink_entries E CONFIG_PATH es)"
    by (intro emits_mono [OF unlink_entries_paths]) (auto simp: unlink_fits_def)
  with setup_links_fits show ?thesis by (blast intro: emits_all)
qed

end
