(* ===== verification/InotifyDisplay.thy ===== *)
theory InotifyDisplay
  imports "HOL-Library.Word"
begin

text \<open>
  \<open>displayInotifyEvent\<close> of \<open>usb/UsbGadget.cpp\<close>: the log messages that describe an inotify record, each a
  format with its arguments.  The monitor thread calls it for each record when \<open>DEBUG\<close> is set, which it is
  not in the source; it has no effect but the messages.  The masks are those of \<open>sys/inotify.h\<close>.
\<close>

unbundle bit_operations_syntax

definition DEBUG :: bool where "DEBUG = False"

record inotify_event =
  wd :: int
  event_mask :: "32 word"
  cookie :: "32 word"
  len :: "32 word"
  event_name :: string

datatype log_arg = Int_arg int | Text_arg string

type_synonym log_message = "string \<times> log_arg list"

text \<open>The tests of the event_mask in the order of the source, each with the name it logs.\<close>

definition mask_names :: "(32 word \<times> string) list" where
  "mask_names =
     [(0x1, ''IN_ACCESS ''), (0x4, ''IN_ATTRIB ''), (0x10, ''IN_CLOSE_NOWRITE ''), (0x8, ''IN_CLOSE_WRITE ''),
      (0x100, ''IN_CREATE ''), (0x200, ''IN_DELETE ''), (0x400, ''IN_DELETE_SELF ''), (0x8000, ''IN_IGNORED ''),
      (0x40000000, ''IN_ISDIR ''), (0x2, ''IN_MODIFY ''), (0x800, ''IN_MOVE_SELF ''), (0x40, ''IN_MOVED_FROM ''),
      (0x80, ''IN_MOVED_TO ''), (0x20, ''IN_OPEN ''), (0x4000, ''IN_Q_OVERFLOW ''), (0x2000, ''IN_UNMOUNT '')]"

definition mask_messages :: "32 word \<Rightarrow> log_message list" where
  "mask_messages m = map (\<lambda>(b, name). (name, [])) (filter (\<lambda>(b, name). m AND b \<noteq> 0) mask_names)"

definition displayInotifyEvent :: "inotify_event \<Rightarrow> log_message list" where
  "displayInotifyEvent i =
     [(''    wd =%2d; '', [Int_arg (wd i)])] @
     (if cookie i > 0 then [(''cookie =%4d; '', [Int_arg (sint (cookie i))])] else []) @
     [(''mask = '', [])] @ mask_messages (event_mask i) @ [([CHR 0x0A], [])] @
     (if len i > 0 then [(''        name = %s'' @ [CHR 0x0A], [Text_arg (event_name i)])] else [])"

section \<open>What the messages tell\<close>

text \<open>The mask back from the messages: the names are those of single bits, no two the same.\<close>

definition told_mask :: "log_message list \<Rightarrow> 32 word" where
  "told_mask ms = fold (\<lambda>(b, name) m. if (name, []) \<in> set ms then m OR b else m) mask_names 0"

definition known_mask :: "32 word" where
  "known_mask = fold (\<lambda>(b, name) m. m OR b) mask_names 0"

lemma distinct_names: "distinct (map snd mask_names)"
  by (simp add: mask_names_def)

lemma same_name: "(a, name) \<in> set mask_names \<Longrightarrow> (b, name) \<in> set mask_names \<Longrightarrow> a = b"
  by (simp add: mask_names_def) auto

lemma message_iff: "(b, name) \<in> set mask_names \<Longrightarrow> (name, []) \<in> set (mask_messages m) \<longleftrightarrow> m AND b \<noteq> 0"
  by (auto simp: mask_messages_def dest: same_name)

lemma displayed_iff:
  "(b, name) \<in> set mask_names \<Longrightarrow> (name, []) \<in> set (displayInotifyEvent i) \<longleftrightarrow> event_mask i AND b \<noteq> 0"
  using message_iff [of b name "event_mask i"] by (auto simp: displayInotifyEvent_def mask_names_def)

lemma single_bits: "(b, name) \<in> set mask_names \<Longrightarrow> \<exists>k. b = 2 ^ k"
proof -
  have "list_all (\<lambda>(b, name). b \<in> (\<lambda>k. 2 ^ k) ` {0::nat..<31}) mask_names"
    by code_simp
  then show "(b, name) \<in> set mask_names \<Longrightarrow> ?thesis" by (auto simp: list_all_iff)
qed

lemma and_single_bit: "(m :: 32 word) AND 2 ^ k = (if m AND 2 ^ k = 0 then 0 else 2 ^ k)"
  by (rule bit_eqI) (auto simp: bit_and_iff bit_exp_iff and_exp_eq_0_iff_not_bit)

lemma fold_or: "fold (\<lambda>(b, name) m. m OR b) xs acc = acc OR fold (\<lambda>(b, name) m. m OR b) xs (0 :: 32 word)"
proof (induction xs arbitrary: acc)
  case (Cons e xs)
  obtain b name where e: "e = (b, name)" by (cases e)
  show ?case using Cons.IH [of "acc OR b"] Cons.IH [of b] by (simp only: e fold.simps comp_apply prod.case or.assoc) simp
qed simp

text \<open>The messages tell the mask, in all the bits that have a name.\<close>

theorem display_tells_mask: "told_mask (displayInotifyEvent i) = event_mask i AND known_mask"
proof -
  let ?ms = "displayInotifyEvent i"
  let ?or = "\<lambda>(b, name) m. m OR b :: 32 word"
  let ?told = "\<lambda>(b, name) m. if (name, []) \<in> set ?ms then m OR b else m :: 32 word"
  have "set xs \<subseteq> set mask_names \<Longrightarrow> fold ?told xs acc = acc OR (event_mask i AND fold ?or xs 0)" for xs acc
  proof (induction xs arbitrary: acc)
    case (Cons e xs)
    obtain b name where e: "e = (b, name)" by (cases e)
    with Cons.prems have "(b, name) \<in> set mask_names" by simp
    then have "(if (name, []) \<in> set ?ms then acc OR b else acc) = acc OR (event_mask i AND b)"
      using displayed_iff [of b name i] and_single_bit [of "event_mask i"] single_bits [of b name]
      by (metis bit.disj_zero_right)
    with Cons.IH [of "acc OR (event_mask i AND b)"] Cons.prems show ?case
      using fold_or [of xs b] by (simp add: e bit.conj_disj_distrib or.assoc)
  qed simp
  from this [of mask_names 0] show ?thesis by (simp add: told_mask_def known_mask_def)
qed

end
