(* ===== verification/UsbRoles.thy ===== *)
theory UsbRoles
  imports CText
begin

text \<open>
  \<open>usb/Usb.cpp\<close>, first part: the type-C nodes under \<open>/sys/class/typec\<close>, reading and writing them,
  the text form of a port role and what the current role of a port is.

  The numbers of the roles are enums of the HIDL interface, generated and not in the repository: the
  record \<open>usb_roles\<close> is a parameter, and \<open>usb_roles_ok\<close> says that the two values of each kind that
  the code compares are different.
\<close>

section \<open>Calls and constants\<close>

datatype usb_status = Status_SUCCESS | Status_ERROR | Status_UNRECOGNIZED_ROLE

text \<open>\<open>PortRoleType\<close>; a value outside the enum, which the transport may deliver, is \<open>Other_type\<close>.\<close>

datatype role_type = DATA_ROLE | POWER_ROLE | MODE | Other_type

record port_role =
  role_type :: role_type
  role_num :: "32 word"

record usb_roles =
  PowerRole_NONE :: "32 word"
  PowerRole_SOURCE :: "32 word"
  PowerRole_SINK :: "32 word"
  DataRole_NONE :: "32 word"
  DataRole_HOST :: "32 word"
  DataRole_DEVICE :: "32 word"
  Mode_NONE :: "32 word"
  Mode_UFP :: "32 word"
  Mode_DFP :: "32 word"
  Mode_AUDIO_ACCESSORY :: "32 word"
  Mode_DEBUG_ACCESSORY :: "32 word"

definition usb_roles_ok :: "usb_roles \<Rightarrow> bool" where
  "usb_roles_ok K \<longleftrightarrow> PowerRole_SOURCE K \<noteq> PowerRole_SINK K \<and> DataRole_HOST K \<noteq> DataRole_DEVICE K \<and>
     Mode_UFP K \<noteq> Mode_DFP K"

datatype mutex =
    RoleSwitchLock   \<comment> \<open>\<open>mRoleSwitchLock\<close>\<close>
  | PartnerLock      \<comment> \<open>\<open>mPartnerLock\<close>\<close>
  | CallbackLock     \<comment> \<open>\<open>mLock\<close>\<close>

text \<open>\<open>V1_0::PortStatus\<close>, and \<open>PortStatus_1_1\<close>, which holds it in its field \<open>status\<close>.\<close>

record port_status =
  portName :: string
  currentPowerRole :: "32 word"
  currentDataRole :: "32 word"
  currentMode :: "32 word"
  canChangeMode :: bool
  canChangeDataRole :: bool
  canChangePowerRole :: bool
  supportedModes :: "32 word"

record port_status_1_1 = port_status +
  currentMode_1_1 :: "32 word"
  supportedModes_1_1 :: "32 word"

datatype usb_call =
    Read_node string                 \<comment> \<open>open for reading: the contents, or the open failed\<close>
  | Fopen_w string
  | Fputs string string              \<comment> \<open>path, text\<close>
  | Fclose string
  | Opendir_typec string
  | Closedir_typec string
  | Lock mutex
  | Unlock mutex
  | Trylock mutex                    \<comment> \<open>whether the mutex was taken\<close>
  | Clock_gettime
  | Cv_wait_start                    \<comment> \<open>the wait begins: the mutex is released\<close>
  | Cv_timedwait int                 \<comment> \<open>the wait until a time ends: the mutex is held again\<close>
  | Cv_signal
  | NotifyRoleSwitchStatus string port_role usb_status
  | NotifyPortStatusChange "port_status list" usb_status
  | NotifyPortStatusChange_1_1 "port_status_1_1 list" usb_status
  | Uevent_open_socket
  | Fcntl_nonblock int
  | Epoll_create_usb
  | Epoll_ctl_usb int int
  | Uevent_recv int
  | Close_usb int
  | Signal_sigusr1                   \<comment> \<open>\<open>signal(SIGUSR1, sighandler)\<close>\<close>
  | Pthread_create
  | Pthread_kill
  | Pthread_join

section \<open>Reading and writing a node\<close>

text \<open>
  \<open>readFile\<close>: the first line up to its newline, as a C string; an empty file leaves \<open>contents\<close> as it
  was.  The value says whether the file was opened.
\<close>

definition readFile ::
  "usb_call env \<Rightarrow> string \<Rightarrow> string \<Rightarrow> ((usb_call, 'm) world_scheme, bool \<times> string) state" where
  "readFile E filename contents = do {
     r \<leftarrow> call_text E (Read_node filename);
     ret (case r of
        None \<Rightarrow> (False, contents)
      | Some text \<Rightarrow> (True, if text = [] then contents else takeWhile (\<lambda>c. c \<noteq> LF \<and> c \<noteq> NUL) text))
   }"

text \<open>\<open>fopen(w)\<close>, \<open>fputs\<close>, \<open>fclose\<close>: whether the text was accepted.\<close>

definition put_node :: "usb_call env \<Rightarrow> string \<Rightarrow> string \<Rightarrow> ((usb_call, 'm) world_scheme, bool) state" where
  "put_node E filename text = do {
     opened \<leftarrow> call_flag E (Fopen_w filename);
     if opened then do {
       ok \<leftarrow> call_flag E (Fputs filename (c_str text));
       call_void (Fclose filename);
       ret ok
     }
     else ret False
   }"

definition writeFile :: "usb_call env \<Rightarrow> string \<Rightarrow> string \<Rightarrow> ((usb_call, 'm) world_scheme, bool) state" where
  "writeFile E filename contents = put_node E filename contents"

section \<open>Roles as text\<close>

definition appendRoleNodeHelper :: "string \<Rightarrow> role_type \<Rightarrow> string" where
  "appendRoleNodeHelper port type =
     (let node = ''/sys/class/typec/'' @ port in
      case type of
        DATA_ROLE \<Rightarrow> node @ ''/data_role''
      | POWER_ROLE \<Rightarrow> node @ ''/power_role''
      | MODE \<Rightarrow> node @ ''/port_type''
      | Other_type \<Rightarrow> [])"

definition convertRoletoString :: "usb_roles \<Rightarrow> port_role \<Rightarrow> string" where
  "convertRoletoString K role =
     (if role_type role = POWER_ROLE \<and> role_num role = PowerRole_SOURCE K then ''source''
      else if role_type role = POWER_ROLE \<and> role_num role = PowerRole_SINK K then ''sink''
      else if role_type role = DATA_ROLE \<and> role_num role = DataRole_HOST K then ''host''
      else if role_type role = DATA_ROLE \<and> role_num role = DataRole_DEVICE K then ''device''
      else if role_type role = MODE \<and> role_num role = Mode_UFP K then ''sink''
      else if role_type role = MODE \<and> role_num role = Mode_DFP K then ''source''
      else ''none'')"

text \<open>
  \<open>extractRole\<close>: the text between the brackets.  The length argument of \<open>substr\<close> is a \<open>size_t\<close>,
  which wraps when the closing bracket comes first; \<open>substr\<close> then takes what is left.
\<close>

definition extractRole :: "string \<Rightarrow> string" where
  "extractRole s =
     (case (find_sub ''['' s, find_sub '']'' s) of
        (Some i, Some j) \<Rightarrow> take (unat (of_nat j - of_nat i - 1 :: 64 word)) (drop (i + 1) s)
      | _ \<Rightarrow> s)"

definition getAccessoryConnected ::
  "usb_call env \<Rightarrow> string \<Rightarrow> string \<Rightarrow> ((usb_call, 'm) world_scheme, usb_status \<times> string) state" where
  "getAccessoryConnected E port accessory = do {
     (ok, accessory) \<leftarrow> readFile E (''/sys/class/typec/'' @ port @ ''-partner/accessory_mode'') accessory;
     ret (if ok then Status_SUCCESS else Status_ERROR, accessory)
   }"

text \<open>What the text of a role node means for the type asked; \<open>none\<close> leaves the role as it was.\<close>

definition role_of_text ::
  "usb_roles \<Rightarrow> role_type \<Rightarrow> string \<Rightarrow> 32 word \<Rightarrow> usb_status \<times> 32 word" where
  "role_of_text K type roleName currentRole =
     (if roleName = ''source'' then (Status_SUCCESS, PowerRole_SOURCE K)
      else if roleName = ''sink'' then (Status_SUCCESS, PowerRole_SINK K)
      else if roleName = ''host'' then
        (Status_SUCCESS, if type = DATA_ROLE then DataRole_HOST K else Mode_DFP K)
      else if roleName = ''device'' then
        (Status_SUCCESS, if type = DATA_ROLE then DataRole_DEVICE K else Mode_UFP K)
      else if roleName \<noteq> ''none'' then (Status_UNRECOGNIZED_ROLE, currentRole)
      else (Status_SUCCESS, currentRole))"

text \<open>The last part of \<open>getCurrentRoleHelper\<close>: read the role node.\<close>

definition read_role ::
  "usb_roles \<Rightarrow> usb_call env \<Rightarrow> string \<Rightarrow> role_type \<Rightarrow> 32 word \<Rightarrow>
     ((usb_call, 'm) world_scheme, usb_status \<times> 32 word) state" where
  "read_role K E filename type currentRole = do {
     (ok, roleName) \<leftarrow> readFile E filename [];
     ret (if \<not> ok then (Status_ERROR, currentRole)
          else role_of_text K type (extractRole roleName) currentRole)
   }"

text \<open>\<open>getCurrentRoleHelper\<close>: the status and \<open>*currentRole\<close>.\<close>

definition getCurrentRoleHelper ::
  "usb_roles \<Rightarrow> usb_call env \<Rightarrow> string \<Rightarrow> bool \<Rightarrow> role_type \<Rightarrow> 32 word \<Rightarrow>
     ((usb_call, 'm) world_scheme, usb_status \<times> 32 word) state" where
  "getCurrentRoleHelper K E port connected type currentRole =
     (let node = ''/sys/class/typec/'' @ port;
          filename = (if type = POWER_ROLE then node @ ''/power_role'' else node @ ''/data_role'');
          none = (case type of POWER_ROLE \<Rightarrow> PowerRole_NONE K | DATA_ROLE \<Rightarrow> DataRole_NONE K
                  | MODE \<Rightarrow> Mode_NONE K | Other_type \<Rightarrow> currentRole)
      in if type = Other_type then ret (Status_ERROR, currentRole)
         else if \<not> connected then ret (Status_SUCCESS, none)
         else if type = MODE then do {
           (status, accessory) \<leftarrow> getAccessoryConnected E port [];
           if status \<noteq> Status_SUCCESS then ret (Status_ERROR, none)
           else if accessory = ''analog_audio'' then ret (Status_SUCCESS, Mode_AUDIO_ACCESSORY K)
           else if accessory = ''debug'' then ret (Status_SUCCESS, Mode_DEBUG_ACCESSORY K)
           else read_role K E filename type none
         }
         else read_role K E filename type none)"

definition canSwitchRoleHelper ::
  "usb_call env \<Rightarrow> string \<Rightarrow> ((usb_call, 'm) world_scheme, bool) state" where
  "canSwitchRoleHelper E port = do {
     (ok, supportsPD) \<leftarrow> readFile E (''/sys/class/typec/'' @ port @ ''-partner/supports_usb_power_delivery'') [];
     ret (ok \<and> supportsPD = ''yes'')
   }"

section \<open>What is written is what is read\<close>

lemma size_t_len: "i < j \<Longrightarrow> j < 2 ^ 64 \<Longrightarrow>
    unat (of_nat j - of_nat i - 1 :: 64 word) = j - i - 1"
proof -
  assume lt: "i < j" "j < 2 ^ 64"
  then have eq: "(of_nat j - of_nat i - 1 :: 64 word) = of_nat (j - i - 1)"
    by (simp add: of_nat_diff)
  show ?thesis unfolding eq unat_of_nat using lt by simp
qed

lemma find_sub_bracket:
  "CHR ''['' \<notin> set a \<Longrightarrow> find_sub ''['' (a @ CHR ''['' # s) = Some (length a)"
  by (rule find_sub_char_some)

lemma extractRole_bracketed:
  assumes "CHR ''['' \<notin> set a" and "CHR '']'' \<notin> set a" and "CHR '']'' \<notin> set r"
    and "length a + length r + 1 < 2 ^ 64"
  shows "extractRole (a @ CHR ''['' # r @ CHR '']'' # b) = r"
proof -
  have close: "find_sub '']'' (a @ CHR ''['' # r @ CHR '']'' # b) = Some (length a + length r + 1)"
    using find_sub_char_some [of "CHR '']''" "a @ CHR ''['' # r" b] assms(2,3) by simp
  have "unat (of_nat (length a + length r + 1) - of_nat (length a) - 1 :: 64 word) = length r"
    using size_t_len [of "length a" "length a + length r + 1"] assms(4) by simp
  then show ?thesis
    unfolding extractRole_def find_sub_bracket [OF assms(1)] close by simp
qed

lemma extractRole_plain: "CHR ''['' \<notin> set s \<Longrightarrow> extractRole s = s"
  by (simp add: extractRole_def find_sub_char_none)

text \<open>
  A role node shows a role: alone, or in brackets in the list of all roles, on one line.
\<close>

definition shows_role :: "string \<Rightarrow> string \<Rightarrow> bool" where
  "shows_role text role \<longleftrightarrow>
     (\<exists>a b rest. list_all (\<lambda>c. c \<noteq> LF \<and> c \<noteq> NUL \<and> c \<noteq> CHR ''['' \<and> c \<noteq> CHR '']'') (a @ role @ b) \<and>
        (rest = [] \<or> hd rest = LF) \<and> length (a @ role @ b) < 2 ^ 63 \<and>
        (text = role @ rest \<and> role \<noteq> [] \<or> text = a @ CHR ''['' # role @ CHR '']'' # b @ rest))"

lemma takeWhile_line:
  "list_all (\<lambda>c. c \<noteq> LF \<and> c \<noteq> NUL) s \<Longrightarrow> rest = [] \<or> hd rest = LF \<Longrightarrow>
     takeWhile (\<lambda>c. c \<noteq> LF \<and> c \<noteq> NUL) (s @ rest) = s"
  by (rule takeWhile_dropWhile_all [THEN conjunct1]) auto

lemma shows_role_read:
  assumes "shows_role text role"
  shows "text \<noteq> [] \<and> extractRole (takeWhile (\<lambda>c. c \<noteq> LF \<and> c \<noteq> NUL) text) = role"
proof -
  from assms obtain a b rest where
    ok: "list_all (\<lambda>c. c \<noteq> LF \<and> c \<noteq> NUL \<and> c \<noteq> CHR ''['' \<and> c \<noteq> CHR '']'') (a @ role @ b)" and
    rest: "rest = [] \<or> hd rest = LF" and len: "length (a @ role @ b) < 2 ^ 63" and
    t0: "text = role @ rest \<and> role \<noteq> [] \<or> text = a @ CHR ''['' # role @ CHR '']'' # b @ rest"
    unfolding shows_role_def by blast
  from t0 show ?thesis
  proof
    assume t: "text = role @ rest \<and> role \<noteq> []"
    have "takeWhile (\<lambda>c. c \<noteq> LF \<and> c \<noteq> NUL) (role @ rest) = role"
      by (rule takeWhile_line) (use ok rest in \<open>auto simp: list_all_iff\<close>)
    moreover have "extractRole role = role"
      by (rule extractRole_plain) (use ok in \<open>auto simp: list_all_iff\<close>)
    ultimately show ?thesis using t by simp
  next
    assume t: "text = a @ CHR ''['' # role @ CHR '']'' # b @ rest"
    have "takeWhile (\<lambda>c. c \<noteq> LF \<and> c \<noteq> NUL) ((a @ CHR ''['' # role @ CHR '']'' # b) @ rest) =
        a @ CHR ''['' # role @ CHR '']'' # b"
      by (rule takeWhile_line) (use ok rest in \<open>auto simp: list_all_iff\<close>)
    moreover have "extractRole (a @ CHR ''['' # role @ CHR '']'' # b) = role"
      by (rule extractRole_bracketed) (use ok len in \<open>auto simp: list_all_iff\<close>)
    ultimately show ?thesis using t by simp
  qed
qed


lemma convert_known:
  assumes "role_type role = POWER_ROLE \<and> role_num role \<in> {PowerRole_SOURCE K, PowerRole_SINK K} \<or>
     role_type role = DATA_ROLE \<and> role_num role \<in> {DataRole_HOST K, DataRole_DEVICE K}"
  shows "role_of_text K (role_type role) (convertRoletoString K role) r = (Status_SUCCESS, role_num role)"
  using assms by (auto simp: convertRoletoString_def role_of_text_def)

text \<open>
  C11. Writing and reading a role agree: when the node shows the text that \<open>switchRole\<close> writes for a
  power or data role, alone or in brackets among the other roles, \<open>getCurrentRoleHelper\<close> reports that
  role, whatever the value was before.
\<close>

theorem role_round_trip:
  assumes known: "role_type role = POWER_ROLE \<and> role_num role \<in> {PowerRole_SOURCE K, PowerRole_SINK K} \<or>
     role_type role = DATA_ROLE \<and> role_num role \<in> {DataRole_HOST K, DataRole_DEVICE K}"
    and node: "e_text E (hist s) (Read_node (appendRoleNodeHelper port (role_type role))) = Some contents"
    and shown: "shows_role contents (convertRoletoString K role)"
  shows "fst (run_state (getCurrentRoleHelper K E port True (role_type role) old) s) =
     (Status_SUCCESS, role_num role)"
  using known node convert_known [OF known] shows_role_read [OF shown]
  by (auto simp: getCurrentRoleHelper_def read_role_def readFile_def call_text_def Let_def
      appendRoleNodeHelper_def)

definition sample_roles :: usb_roles where
  "sample_roles = \<lparr>PowerRole_NONE = 0, PowerRole_SOURCE = 1, PowerRole_SINK = 2, DataRole_NONE = 0,
     DataRole_HOST = 1, DataRole_DEVICE = 2, Mode_NONE = 0, Mode_UFP = 1, Mode_DFP = 2,
     Mode_AUDIO_ACCESSORY = 4, Mode_DEBUG_ACCESSORY = 8\<rparr>"

definition node_env :: "(string \<Rightarrow> string option) \<Rightarrow> usb_call env" where
  "node_env node = \<lparr>e_num = (\<lambda>_ _. 0), e_flag = (\<lambda>_ _. True),
     e_text = (\<lambda>_ c. case c of Read_node p \<Rightarrow> node p | _ \<Rightarrow> None), e_entries = (\<lambda>_ _. None)\<rparr>"

theorem role_round_trip_witness:
  "fst (run_state (getCurrentRoleHelper sample_roles (node_env (\<lambda>_. Some (''host [device]'' @ [LF])))
      ''port0'' True DATA_ROLE 7) \<lparr>hist = []\<rparr>) = (Status_SUCCESS, 2)"
proof -
  have shown: "shows_role (''host [device]'' @ [LF])
      (convertRoletoString sample_roles \<lparr>role_type = DATA_ROLE, role_num = 2\<rparr>)"
    unfolding shows_role_def
    by (rule exI [of _ "''host ''"], rule exI [of _ "[]"], rule exI [of _ "[LF]"])
      (simp add: convertRoletoString_def sample_roles_def)
  from role_round_trip [where role = "\<lparr>role_type = DATA_ROLE, role_num = 2\<rparr>" and K = sample_roles
      and E = "node_env (\<lambda>_. Some (''host [device]'' @ [LF]))" and s = "\<lparr>hist = []\<rparr>" and port = "''port0''"
      and old = 7, OF _ _ shown]
  show ?thesis by (simp add: node_env_def sample_roles_def)
qed

end
