(* ===== verification/UsbPorts.thy ===== *)
theory UsbPorts
  imports UsbRoles "HOL-Library.AList" "HOL-Library.Multiset"
begin

text \<open>
  \<open>usb/Usb.cpp\<close>, second part: which ports there are (\<open>getTypeCPortNamesHelper\<close>) and their status
  (\<open>getPortStatusHelper\<close>).  The \<open>unordered_map\<close> of the ports is an association list without
  duplicate keys; the order in which the container enumerates it is the parameter \<open>order\<close>.
\<close>

unbundle bit_operations_syntax

section \<open>The ports\<close>

text \<open>One directory entry, a name and whether it is a link.\<close>

definition port_entry :: "string \<times> bool \<Rightarrow> (string \<times> bool) list \<Rightarrow> (string \<times> bool) list" where
  "port_entry entry names =
     (case entry of (d_name, link) \<Rightarrow>
        if \<not> link then names
        else if find_sub ''-partner'' d_name = None then
          (if map_of names d_name = None then AList.update d_name False names else names)
        else (case strtok_first ''-'' d_name of
                Some port \<Rightarrow> AList.update port True names
              | None \<Rightarrow> names))"

definition port_names :: "(string \<times> bool) list \<Rightarrow> (string \<times> bool) list" where
  "port_names entries = fold port_entry entries []"

text \<open>\<open>getTypeCPortNamesHelper\<close>; \<open>None\<close> is \<open>Status::ERROR\<close>.\<close>

definition getTypeCPortNamesHelper ::
  "usb_call env \<Rightarrow> ((usb_call, 'm) world_scheme, (string \<times> bool) list option) state" where
  "getTypeCPortNamesHelper E = do {
     dp \<leftarrow> call_entries E (Opendir_typec ''/sys/class/typec'');
     case dp of
       None \<Rightarrow> ret None
     | Some entries \<Rightarrow> do { call_void (Closedir_typec ''/sys/class/typec''); ret (Some (port_names entries)) }
   }"

section \<open>Their status\<close>

text \<open>
  The constants of \<open>V1_0::PortMode\<close>, and the value a status has before it is filled in.
\<close>

record usb_modes =
  PortMode_NONE :: "32 word"
  PortMode_DFP :: "32 word"
  blank_status :: port_status_1_1

text \<open>
  The body of the loop of \<open>getPortStatusHelper\<close> for one port: \<open>Inl\<close> leaves by \<open>goto done\<close>, with what is
  filled in so far.
\<close>

definition port_status_of ::
  "usb_roles \<Rightarrow> usb_modes \<Rightarrow> usb_call env \<Rightarrow> bool \<Rightarrow> string \<times> bool \<Rightarrow>
     ((usb_call, 'm) world_scheme, port_status_1_1 + port_status_1_1) state" where
  "port_status_of K M E V1_0 entry = (case entry of (port, connected) \<Rightarrow> do {
     let st = (blank_status M)\<lparr>portName := port\<rparr>;
     (r, power) \<leftarrow> getCurrentRoleHelper K E port connected POWER_ROLE 0;
     if r \<noteq> Status_SUCCESS then ret (Inl st)
     else do {
       let st = st\<lparr>currentPowerRole := power\<rparr>;
       (r, data) \<leftarrow> getCurrentRoleHelper K E port connected DATA_ROLE power;
       if r \<noteq> Status_SUCCESS then ret (Inl st)
       else do {
         let st = st\<lparr>currentDataRole := data\<rparr>;
         (r, mode) \<leftarrow> getCurrentRoleHelper K E port connected MODE data;
         if r \<noteq> Status_SUCCESS then ret (Inl st)
         else do {
           let st = st\<lparr>currentMode_1_1 := mode, currentMode := mode, canChangeMode := True\<rparr>;
           canData \<leftarrow> (if connected then canSwitchRoleHelper E port else ret False);
           canPower \<leftarrow> (if connected then canSwitchRoleHelper E port else ret False);
           let st = st\<lparr>canChangeDataRole := canData, canChangePowerRole := canPower\<rparr>;
           ret (Inr (if V1_0 then st\<lparr>supportedModes := PortMode_DFP M\<rparr>
                     else st\<lparr>supportedModes_1_1 := Mode_UFP K OR Mode_DFP K,
                            supportedModes := PortMode_NONE M, currentMode := PortMode_NONE M\<rparr>))
         }
       }
     }
   })"

text \<open>The loop: on a failure the rest of the vector keeps its initial elements.\<close>

fun port_statuses ::
  "usb_roles \<Rightarrow> usb_modes \<Rightarrow> usb_call env \<Rightarrow> bool \<Rightarrow> (string \<times> bool) list \<Rightarrow>
     ((usb_call, 'm) world_scheme, port_status_1_1 list \<times> bool) state" where
  "port_statuses K M E V1_0 [] = ret ([], True)"
| "port_statuses K M E V1_0 (port # ports) = do {
     r \<leftarrow> port_status_of K M E V1_0 port;
     case r of
       Inl st \<Rightarrow> ret (st # replicate (length ports) (blank_status M), False)
     | Inr st \<Rightarrow> do {
         (sts, ok) \<leftarrow> port_statuses K M E V1_0 ports;
         ret (st # sts, ok)
       }
   }"

definition getPortStatusHelper ::
  "usb_roles \<Rightarrow> usb_modes \<Rightarrow> usb_call env \<Rightarrow> ((string \<times> bool) list \<Rightarrow> (string \<times> bool) list) \<Rightarrow> bool \<Rightarrow>
     ((usb_call, 'm) world_scheme, port_status_1_1 list \<times> usb_status) state" where
  "getPortStatusHelper K M E order V1_0 = do {
     names \<leftarrow> getTypeCPortNamesHelper E;
     case names of
       None \<Rightarrow> ret ([], Status_ERROR)
     | Some names \<Rightarrow> do {
         (sts, ok) \<leftarrow> port_statuses K M E V1_0 (order names);
         ret (sts, if ok then Status_SUCCESS else Status_ERROR)
       }
   }"


section \<open>Which ports are reported\<close>

definition is_partner :: "string \<Rightarrow> bool" where
  "is_partner d \<longleftrightarrow> find_sub ''-partner'' d \<noteq> None"

text \<open>The specification: a port is connected when it has a partner link.\<close>

definition port_state :: "(string \<times> bool) list \<Rightarrow> string \<Rightarrow> bool option" where
  "port_state entries p =
     (if \<exists>d. (d, True) \<in> set entries \<and> is_partner d \<and> strtok_first ''-'' d = Some p then Some True
      else if (p, True) \<in> set entries \<and> \<not> is_partner p then Some False
      else None)"

lemma port_entry_map:
  "map_of (port_entry (d, link) names) p =
     (if link \<and> is_partner d \<and> strtok_first ''-'' d = Some p then Some True
      else if link \<and> \<not> is_partner d \<and> d = p \<and> map_of names p = None then Some False
      else map_of names p)"
  by (auto simp: port_entry_def is_partner_def update_conv' split: option.split)

lemma port_names_snoc: "port_names (entries @ [e]) = port_entry e (port_names entries)"
  by (simp add: port_names_def)

lemma port_names_distinct: "distinct (map fst (port_names entries))"
proof (induction entries rule: rev_induct)
  case (snoc e entries)
  then show ?case
    by (auto simp: port_names_snoc port_entry_def distinct_update split: prod.split option.split)
qed (simp add: port_names_def)

text \<open>
  C12. The ports reported are those of the links in the directory, each once, and a port is reported
  connected exactly when some link names its partner; the order in which the directory is read does
  not matter.
\<close>

theorem port_names_spec:
  "map_of (port_names entries) = port_state entries \<and> distinct (map fst (port_names entries))"
proof (intro conjI ext port_names_distinct)
  fix p
  show "map_of (port_names entries) p = port_state entries p"
  proof (induction entries rule: rev_induct)
    case Nil
    then show ?case by (simp add: port_names_def port_state_def)
  next
    case (snoc e entries)
    obtain d link where e: "e = (d, link)" by (cases e)
    show ?case
      unfolding port_names_snoc e port_entry_map snoc.IH
      by (auto simp: port_state_def)
  qed
qed

section \<open>What the status says\<close>

lemma disconnected_role:
  "type \<noteq> Other_type \<Longrightarrow> getCurrentRoleHelper K E port False type cur =
     ret (Status_SUCCESS, case type of POWER_ROLE \<Rightarrow> PowerRole_NONE K | DATA_ROLE \<Rightarrow> DataRole_NONE K
        | MODE \<Rightarrow> Mode_NONE K | Other_type \<Rightarrow> cur)"
  by (simp add: getCurrentRoleHelper_def Let_def)

definition status_fits :: "usb_roles \<Rightarrow> string \<times> bool \<Rightarrow> port_status_1_1 \<Rightarrow> bool" where
  "status_fits K entry st \<longleftrightarrow> portName st = fst entry \<and> canChangeMode st \<and>
     (\<not> snd entry \<longrightarrow> currentPowerRole st = PowerRole_NONE K \<and> currentDataRole st = DataRole_NONE K \<and>
        currentMode_1_1 st = Mode_NONE K \<and> \<not> canChangeDataRole st \<and> \<not> canChangePowerRole st)"

lemma port_status_of_fits:
  "results (\<lambda>r. \<forall>st. r = Inr st \<longrightarrow> status_fits K entry st) (port_status_of K M E V1_0 entry)"
proof (cases entry)
  case (Pair port connected)
  show ?thesis
  proof (cases connected)
    case True
    then show ?thesis
      unfolding Pair port_status_of_def Let_def prod.case
      by (intro results_bind) (auto split: prod.split intro!: results_intros simp: status_fits_def)
  next
    case False
    then show ?thesis
      unfolding Pair port_status_of_def Let_def prod.case
      by (auto simp: disconnected_role results_def status_fits_def)
  qed
qed

lemma port_statuses_fit:
  "run_state (port_statuses K M E V1_0 ports) s = ((sts, ok), s') \<Longrightarrow>
     length sts = length ports \<and> (ok \<longrightarrow> list_all2 (status_fits K) ports sts)"
proof (induction ports arbitrary: s sts ok s')
  case (Cons port ports)
  obtain r s1 where r: "run_state (port_status_of K M E V1_0 port) s = (r, s1)"
    by (cases "run_state (port_status_of K M E V1_0 port) s")
  show ?case
  proof (cases r)
    case (Inl st)
    with Cons.prems r show ?thesis by auto
  next
    case (Inr st)
    obtain sts1 ok1 s2 where rest: "run_state (port_statuses K M E V1_0 ports) s1 = ((sts1, ok1), s2)"
      by (metis prod.collapse)
    from port_status_of_fits [of K port M E V1_0] r Inr have "status_fits K port st"
      unfolding results_def by (metis fst_conv)
    with Cons.IH [OF rest] Cons.prems r Inr rest show ?thesis by auto
  qed
qed simp


text \<open>
  A successful \<open>getPortStatusHelper\<close> reports one status for each port, in the order of the map; a
  port without a partner has no role and cannot change its data or power role.
\<close>

theorem port_status_reported:
  assumes entries: "e_entries E (hist s) (Opendir_typec ''/sys/class/typec'') = Some entries"
    and ok: "fst (run_state (getPortStatusHelper K M E order V1_0) s) = (sts, Status_SUCCESS)"
  shows "list_all2 (status_fits K) (order (port_names entries)) sts"
proof -
  let ?s = "s\<lparr>hist := hist s @ [(Opendir_typec ''/sys/class/typec'', Entries (Some entries)),
     (Closedir_typec ''/sys/class/typec'', Void)]\<rparr>"
  obtain sts1 ok1 s1 where run: "run_state (port_statuses K M E V1_0 (order (port_names entries))) ?s =
      ((sts1, ok1), s1)" by (metis prod.collapse)
  with ok entries have "sts1 = sts \<and> ok1"
    by (auto simp: getPortStatusHelper_def getTypeCPortNamesHelper_def run_calls split: if_splits)
  with port_statuses_fit [OF run] show ?thesis by simp
qed

definition sample_modes :: usb_modes where
  "sample_modes = \<lparr>PortMode_NONE = 0, PortMode_DFP = 2, blank_status =
     \<lparr>portName = [], currentPowerRole = 0, currentDataRole = 0, currentMode = 0, canChangeMode = False,
      canChangeDataRole = False, canChangePowerRole = False, supportedModes = 0, currentMode_1_1 = 0,
      supportedModes_1_1 = 0\<rparr>\<rparr>"

definition sample_ports :: "usb_call env" where
  "sample_ports = (node_env (\<lambda>p. if suffix ''data_role'' p then Some (''[host] device'' @ [LF])
       else if suffix ''power_role'' p then Some (''source [sink]'' @ [LF]) else Some (''none'' @ [LF])))
     \<lparr>e_entries := (\<lambda>_ _. Some [(''.'', False), (''port1'', True), (''port0-partner'', True), (''port0'', True)])\<rparr>"

theorem port_status_reported_witness:
  "list_all2 (status_fits sample_roles) [(''port1'', False), (''port0'', True)]
     (fst (fst (run_state (getPortStatusHelper sample_roles sample_modes sample_ports id False) \<lparr>hist = []\<rparr>)))"
proof -
  have names: "port_names [(''.'', False), (''port1'', True), (''port0-partner'', True), (''port0'', True)] =
      [(''port1'', False), (''port0'', True)]" by code_simp
  have st: "snd (fst (run_state (getPortStatusHelper sample_roles sample_modes sample_ports id False) \<lparr>hist = []\<rparr>)) =
      Status_SUCCESS" by code_simp
  have entries: "e_entries sample_ports (hist \<lparr>hist = []\<rparr>) (Opendir_typec ''/sys/class/typec'') =
      Some [(''.'', False), (''port1'', True), (''port0-partner'', True), (''port0'', True)]"
    by (simp add: sample_ports_def)
  show ?thesis
    using port_status_reported [OF entries, of sample_roles sample_modes id False
        "fst (fst (run_state (getPortStatusHelper sample_roles sample_modes sample_ports id False) \<lparr>hist = []\<rparr>))"] st
    by (simp add: names prod_eq_iff)
qed

end
