(* ===== verification/UsbTypes.thy ===== *)
theory UsbTypes
  imports UsbPorts
begin

text \<open>
  The roles that \<open>getPortStatusHelper\<close> of \<open>usb/Usb.cpp\<close> stores are cast from numbers without a check:
  they are values of the enums they are cast to, provided that each role node shows one of the words the
  kernel has for it.
\<close>

section \<open>What the nodes show\<close>

definition power_words :: "string set" where "power_words = {''source'', ''sink'', ''none''}"
definition data_words :: "string set" where "data_words = {''host'', ''device'', ''none''}"

definition shows_words :: "usb_call env \<Rightarrow> string \<Rightarrow> string set \<Rightarrow> bool" where
  "shows_words E p words \<longleftrightarrow> (\<forall>h text. e_text E h (Read_node p) = Some text \<longrightarrow>
     text \<noteq> [] \<and> extractRole (takeWhile (\<lambda>c. c \<noteq> LF \<and> c \<noteq> NUL) text) \<in> words)"

definition kernel_words :: "usb_call env \<Rightarrow> string \<Rightarrow> bool" where
  "kernel_words E port \<longleftrightarrow>
     shows_words E (''/sys/class/typec/'' @ port @ ''/power_role'') power_words \<and>
     shows_words E (''/sys/class/typec/'' @ port @ ''/data_role'') data_words"

section \<open>The types\<close>

text \<open>The enums as sets of numbers.\<close>

definition PortPowerRole :: "usb_roles \<Rightarrow> 32 word set" where
  "PortPowerRole K = {PowerRole_NONE K, PowerRole_SOURCE K, PowerRole_SINK K}"

definition PortDataRole :: "usb_roles \<Rightarrow> 32 word set" where
  "PortDataRole K = {DataRole_NONE K, DataRole_HOST K, DataRole_DEVICE K}"

definition PortMode_1_1 :: "usb_roles \<Rightarrow> 32 word set" where
  "PortMode_1_1 K =
     {Mode_NONE K, Mode_UFP K, Mode_DFP K, Mode_AUDIO_ACCESSORY K, Mode_DEBUG_ACCESSORY K}"

text \<open>
  Of \<open>V1_0::PortMode\<close>, which \<open>PortMode_1_1\<close> extends by the two accessory modes: the values that a port can
  report (\<open>DRP\<close> is only a supported mode).
\<close>

definition PortMode_1_0 :: "usb_roles \<Rightarrow> 32 word set" where
  "PortMode_1_0 K = {Mode_NONE K, Mode_UFP K, Mode_DFP K}"

definition accessory_modes :: "usb_roles \<Rightarrow> 32 word set" where
  "accessory_modes K = {Mode_AUDIO_ACCESSORY K, Mode_DEBUG_ACCESSORY K}"

definition role_enum :: "usb_roles \<Rightarrow> role_type \<Rightarrow> 32 word set" where
  "role_enum K type = (case type of POWER_ROLE \<Rightarrow> PortPowerRole K | DATA_ROLE \<Rightarrow> PortDataRole K
     | MODE \<Rightarrow> PortMode_1_1 K | Other_type \<Rightarrow> {})"

definition status_typed :: "usb_roles \<Rightarrow> usb_modes \<Rightarrow> bool \<Rightarrow> port_status_1_1 \<Rightarrow> bool" where
  "status_typed K M V1_0 st \<longleftrightarrow> currentPowerRole st \<in> PortPowerRole K \<and> currentDataRole st \<in> PortDataRole K \<and>
     currentMode_1_1 st \<in> PortMode_1_1 K \<and> currentMode st = (if V1_0 then currentMode_1_1 st else PortMode_NONE M)"

lemmas enum_defs = role_enum_def PortPowerRole_def PortDataRole_def PortMode_1_1_def power_words_def data_words_def

text \<open>The node that \<open>getCurrentRoleHelper\<close> reads, and the words it may show.\<close>

definition node_words :: "role_type \<Rightarrow> string set" where
  "node_words type = (if type = POWER_ROLE then power_words else data_words)"

lemma role_of_text_typed:
  "word \<in> node_words type \<Longrightarrow> old \<in> role_enum K type \<Longrightarrow>
     fst (role_of_text K type word old) = Status_SUCCESS \<and> snd (role_of_text K type word old) \<in> role_enum K type"
  by (cases type) (auto simp: node_words_def role_of_text_def enum_defs)

lemma read_role_typed:
  assumes "shows_words E f (node_words type)" and "old \<in> role_enum K type"
  shows "results (\<lambda>(r, role). r = Status_SUCCESS \<longrightarrow> role \<in> role_enum K type) (read_role K E f type old)"
  unfolding results_def
proof
  fix s
  show "case fst (run_state (read_role K E f type old) s) of (r, role) \<Rightarrow> r = Status_SUCCESS \<longrightarrow> role \<in> role_enum K type"
  proof (cases "e_text E (hist s) (Read_node f)")
    case None
    then show ?thesis by (simp add: read_role_def readFile_def run_calls)
  next
    case (Some t)
    with assms(1) have "t \<noteq> []" and "extractRole (takeWhile (\<lambda>c. c \<noteq> LF \<and> c \<noteq> NUL) t) \<in> node_words type"
      unfolding shows_words_def by blast+
    with Some role_of_text_typed [OF this(2) assms(2)] show ?thesis
      by (simp add: read_role_def readFile_def run_calls split_beta)
  qed
qed

lemma current_role_typed:
  assumes words: "kernel_words E port"
  shows "results (\<lambda>(r, role). r = Status_SUCCESS \<longrightarrow> role \<in> role_enum K type)
    (getCurrentRoleHelper K E port connected type old)"
proof -
  let ?none = "case type of POWER_ROLE \<Rightarrow> PowerRole_NONE K | DATA_ROLE \<Rightarrow> DataRole_NONE K | MODE \<Rightarrow> Mode_NONE K
    | Other_type \<Rightarrow> old"
  have none: "type \<noteq> Other_type \<Longrightarrow> ?none \<in> role_enum K type" by (cases type) (auto simp: enum_defs)
  have read: "type \<noteq> Other_type \<Longrightarrow>
    results (\<lambda>(r, role). r = Status_SUCCESS \<longrightarrow> role \<in> role_enum K type)
      (read_role K E (if type = POWER_ROLE then ''/sys/class/typec/'' @ port @ ''/power_role''
         else ''/sys/class/typec/'' @ port @ ''/data_role'') type ?none)"
    by (rule read_role_typed) (use words none in \<open>auto simp: kernel_words_def node_words_def\<close>)
  show ?thesis
    unfolding getCurrentRoleHelper_def Let_def append_assoc
    by (intro results_if results_bind results_return) (use none read in \<open>auto simp: enum_defs
      intro!: results_intros split: prod.split\<close>)
qed

lemma results_bind_with: "results P m \<Longrightarrow> (\<And>a. P a \<Longrightarrow> results Q (f a)) \<Longrightarrow> results Q (State_Monad.bind m f)"
  by (simp add: results_def split_beta)

lemma results_case_prod:
  "(\<And>a b. x = (a, b) \<Longrightarrow> results Q (f a b)) \<Longrightarrow> results Q (case x of (a, b) \<Rightarrow> f a b)"
  by (simp split: prod.split)

lemma port_status_typed1:
  assumes "kernel_words E (fst entry)"
  shows "results (\<lambda>r. \<forall>st. r = Inr st \<longrightarrow> status_typed K M V1_0 st) (port_status_of K M E V1_0 entry)"
proof (cases entry)
  case (Pair port connected)
  note typed = current_role_typed [OF assms [unfolded Pair fst_conv], of K]
  show ?thesis
    unfolding Pair port_status_of_def Let_def prod.case
    by (intro results_bind_with [OF typed] results_case_prod results_if results_return)
      (auto intro!: results_return results_bind simp: status_typed_def role_enum_def)
qed

lemma port_statuses_typed:
  "\<forall>p\<in>set ports. kernel_words E (fst p) \<Longrightarrow>
     results (\<lambda>(sts, ok). ok \<longrightarrow> list_all (status_typed K M V1_0) sts) (port_statuses K M E V1_0 ports)"
proof (induction ports)
  case (Cons port ports)
  then have port: "kernel_words E (fst port)" and ports: "\<forall>p\<in>set ports. kernel_words E (fst p)" by simp_all
  show ?case
    unfolding port_statuses.simps
    by (intro results_bind_with [OF port_status_typed1 [OF port, of K M V1_0]])
      (auto intro!: results_bind_with [OF Cons.IH [OF ports]] results_return split: sum.split prod.split)
qed (simp add: results_return)

text \<open>
  C13. Every role that a successful \<open>getPortStatusHelper\<close> reports is a value of the enum it is cast to,
  connected or not, where each role node shows one of the kernel's words: the power role, the data role and
  the mode of V1_1.  The mode of \<open>V1_0\<close> is \<open>NONE\<close> for a client of V1_1; for a client of V1_0 it is the
  mode of V1_1, cast, and so a value of \<open>V1_0::PortMode\<close> unless an accessory is attached.
\<close>

theorem port_status_typed:
  assumes words: "\<And>port. kernel_words E port"
    and ok: "fst (run_state (getPortStatusHelper K M E order V1_0) (s :: (usb_call, 'm) world_scheme)) = (sts, Status_SUCCESS)"
  shows "list_all (\<lambda>st. currentPowerRole st \<in> PortPowerRole K \<and> currentDataRole st \<in> PortDataRole K \<and>
     currentMode_1_1 st \<in> PortMode_1_1 K \<and>
     (if V1_0 then currentMode st = currentMode_1_1 st \<and>
        (currentMode st \<in> PortMode_1_0 K \<or> currentMode st \<in> accessory_modes K)
      else currentMode st = PortMode_NONE M)) sts"
proof -
  have mode: "m \<in> PortMode_1_1 K \<Longrightarrow> m \<in> PortMode_1_0 K \<or> m \<in> accessory_modes K" for m
    by (auto simp: PortMode_1_1_def PortMode_1_0_def accessory_modes_def)
  have typed: "results (\<lambda>(sts, ok). ok \<longrightarrow> list_all (status_typed K M V1_0) sts)
      (port_statuses K M E V1_0 ports :: ((usb_call, 'm) world_scheme, _) state)" for ports
    by (rule port_statuses_typed) (use words in blast)
  have "results (\<lambda>(sts, r). r = Status_SUCCESS \<longrightarrow> list_all (status_typed K M V1_0) sts)
      (getPortStatusHelper K M E order V1_0 :: ((usb_call, 'm) world_scheme, _) state)"
    unfolding getPortStatusHelper_def
    by (intro results_bind results_case_option results_bind_with [OF typed])
      (auto intro!: results_return split: prod.split)
  with ok have "list_all (status_typed K M V1_0) sts" unfolding results_def by (auto dest!: spec [where x = s])
  then show ?thesis by (rule list.pred_mono_strong) (use mode in \<open>auto simp: status_typed_def\<close>)
qed

text \<open>A board with a connected port: its roles are typed.\<close>

lemma sample_words: "kernel_words sample_ports port"
proof -
  have power: "extractRole (takeWhile (\<lambda>c. c \<noteq> LF \<and> c \<noteq> NUL) (''source [sink]'' @ [LF])) = ''sink''" by code_simp
  have data: "extractRole (takeWhile (\<lambda>c. c \<noteq> LF \<and> c \<noteq> NUL) (''[host] device'' @ [LF])) = ''host''" by code_simp
  have "\<not> suffix ''data_role'' (''/sys/class/typec/'' @ port @ ''/power_role'')"
    and "suffix ''power_role'' (''/sys/class/typec/'' @ port @ ''/power_role'')"
    and "suffix ''data_role'' (''/sys/class/typec/'' @ port @ ''/data_role'')"
    by (simp_all add: suffix_to_prefix)
  with power data show ?thesis
    by (simp add: kernel_words_def shows_words_def sample_ports_def node_env_def power_words_def data_words_def)
qed

theorem port_status_typed_witness:
  "\<exists>st. fst (run_state (getPortStatusHelper sample_roles sample_modes sample_ports id False) \<lparr>hist = []\<rparr>) =
       (st, Status_SUCCESS) \<and> length st = 2 \<and>
     list_all (\<lambda>st. currentDataRole st \<in> PortDataRole sample_roles) st"
proof -
  let ?r = "fst (run_state (getPortStatusHelper sample_roles sample_modes sample_ports id False) \<lparr>hist = []\<rparr>)"
  have "snd ?r = Status_SUCCESS" and len: "length (fst ?r) = 2" by code_simp+
  then have ok: "?r = (fst ?r, Status_SUCCESS)" by (simp add: prod_eq_iff)
  have "list_all (\<lambda>st. currentDataRole st \<in> PortDataRole sample_roles) (fst ?r)"
    using port_status_typed [OF sample_words ok] by (rule list.pred_mono_strong) simp
  with ok len show ?thesis by blast
qed

text \<open>
  With an audio accessory attached a client of V1_0 is sent a mode that \<open>V1_0::PortMode\<close> does not have.
\<close>

definition accessory_ports :: "usb_call env" where
  "accessory_ports = (node_env (\<lambda>p. if suffix ''data_role'' p then Some (''[host] device'' @ [LF])
       else if suffix ''power_role'' p then Some (''source [sink]'' @ [LF]) else Some (''analog_audio'' @ [LF])))
     \<lparr>e_entries := (\<lambda>_ _. Some [(''port0-partner'', True), (''port0'', True)])\<rparr>"

lemma accessory_outside_1_0:
  "map currentMode (fst (fst (run_state (getPortStatusHelper sample_roles sample_modes accessory_ports id True) \<lparr>hist = []\<rparr>))) =
     [Mode_AUDIO_ACCESSORY sample_roles]"
  "Mode_AUDIO_ACCESSORY sample_roles \<notin> PortMode_1_0 sample_roles"
  by code_simp (simp add: PortMode_1_0_def sample_roles_def)

end
