(* ===== verification/Usb.thy ===== *)
theory Usb
  imports UsbPorts
begin

text \<open>
  \<open>usb/Usb.cpp\<close>, third part: the USB service object, switching roles, reporting the port status, the
  uevent thread and the registration of the client's callback.

  A mode switch waits for the uevent thread.  The parameter \<open>P\<close> says, for each wait of the condition
  variable, whether the uevent thread handles a \<open>partner added\<close> event while the wait has released the
  mutex.  The wait may be woken for no reason any number of times, so the loop is a
  \<open>partial_function\<close>: \<open>None\<close> is a switch that never returns.
\<close>

section \<open>The object\<close>

datatype usb_callback = No_callback | Callback_1_0 | Callback_1_1

record usb = "usb_call world" +
  mCallback :: usb_callback
  mPartnerUp :: bool
  destroyThread :: bool        \<comment> \<open>the global variable\<close>
  worker :: bool               \<comment> \<open>a thread \<open>mPoll\<close> has been created and not joined\<close>

type_synonym 'a usb_op = "(usb, 'a) state"

definition new_usb :: usb where
  "new_usb = \<lparr>hist = [], mCallback = No_callback, mPartnerUp = False, destroyThread = False, worker = False\<rparr>"

definition PORT_TYPE_TIMEOUT :: int where "PORT_TYPE_TIMEOUT = 8"
definition ETIMEDOUT :: int where "ETIMEDOUT = 110"
definition UEVENT_MSG_LEN :: nat where "UEVENT_MSG_LEN = 2048"

section \<open>Switching roles\<close>

definition switchToDrp :: "usb_call env \<Rightarrow> string \<Rightarrow> ((usb_call, 'm) world_scheme, unit) state" where
  "switchToDrp E port =
     (let filename = appendRoleNodeHelper (c_str port) MODE
      in if filename \<noteq> [] then do { _ \<leftarrow> put_node E filename ''dual''; ret () } else ret ())"

text \<open>The uevent thread's reaction to a partner.\<close>

definition partner_added :: "unit usb_op" where
  "partner_added = do {
     call_void (Lock PartnerLock);
     modify (\<lambda>u. u\<lparr>mPartnerUp := True\<rparr>);
     call_void Cv_signal;
     call_void (Unlock PartnerLock)
   }"

text \<open>One round of \<open>wait_again\<close> up to the return of \<open>pthread_cond_timedwait\<close>.\<close>

definition timed_wait :: "usb_call env \<Rightarrow> (usb_call history \<Rightarrow> bool) \<Rightarrow> int usb_op" where
  "timed_wait E P = do {
     now \<leftarrow> call_num E Clock_gettime;
     call_void Cv_wait_start;
     h \<leftarrow> gets hist;
     (if P h then partner_added else ret ());
     call_num E (Cv_timedwait (now + PORT_TYPE_TIMEOUT))
   }"

partial_function (option) wait_again ::
  "usb_call env \<Rightarrow> (usb_call history \<Rightarrow> bool) \<Rightarrow> usb \<Rightarrow> (bool \<times> usb) option" where
  "wait_again E P u =
     (case run_state (timed_wait E P) u of (err, u) \<Rightarrow>
        if err = ETIMEDOUT then Some (False, u)
        else if \<not> mPartnerUp u then wait_again E P u
        else Some (True, u))"

text \<open>The write under \<open>mPartnerLock\<close>: \<open>None\<close> if the node could not be opened.\<close>

definition write_mode :: "usb_call env \<Rightarrow> string \<Rightarrow> string \<Rightarrow> bool option usb_op" where
  "write_mode E filename text = do {
     opened \<leftarrow> call_flag E (Fopen_w filename);
     if \<not> opened then ret None
     else do {
       call_void (Lock PartnerLock);
       modify (\<lambda>u. u\<lparr>mPartnerUp := False\<rparr>);
       ok \<leftarrow> call_flag E (Fputs filename text);
       call_void (Fclose filename);
       ret (Some ok)
     }
   }"

definition end_switch :: "usb_call env \<Rightarrow> string \<Rightarrow> bool \<Rightarrow> bool usb_op" where
  "end_switch E port roleSwitch = do {
     (if \<not> roleSwitch then switchToDrp E (c_str port) else ret ());
     ret roleSwitch
   }"

definition switchMode ::
  "usb_roles \<Rightarrow> usb_call env \<Rightarrow> (usb_call history \<Rightarrow> bool) \<Rightarrow> string \<Rightarrow> port_role \<Rightarrow> usb \<Rightarrow>
     (bool \<times> usb) option" where
  "switchMode K E P port newRole u =
     (let filename = appendRoleNodeHelper (c_str port) (role_type newRole)
      in if filename = [] then Some (False, u)
         else case run_state (write_mode E filename (convertRoletoString K newRole)) u of
           (None, u) \<Rightarrow> Some (run_state (end_switch E port False) u)
         | (Some ok, u) \<Rightarrow>
             Option.bind (if ok then wait_again E P u else Some (False, u)) (\<lambda>(roleSwitch, u).
               Some (run_state (do { call_void (Unlock PartnerLock); end_switch E port roleSwitch }) u)))"

text \<open>The other kinds of role: write the node, read it back, compare.\<close>

definition write_role ::
  "usb_roles \<Rightarrow> usb_call env \<Rightarrow> string \<Rightarrow> port_role \<Rightarrow> ((usb_call, 'm) world_scheme, bool) state" where
  "write_role K E filename newRole = do {
     ok \<leftarrow> put_node E filename (convertRoletoString K newRole);
     if ok then do {
       (opened, written) \<leftarrow> readFile E filename [];
       ret (opened \<and> extractRole written = convertRoletoString K newRole)
     }
     else ret False
   }"

definition notify_role :: "string \<Rightarrow> port_role \<Rightarrow> bool \<Rightarrow> unit usb_op" where
  "notify_role port newRole roleSwitch = do {
     call_void (Lock CallbackLock);
     cb \<leftarrow> gets mCallback;
     (if cb \<noteq> No_callback
      then call_void (NotifyRoleSwitchStatus port newRole (if roleSwitch then Status_SUCCESS else Status_ERROR))
      else ret ());
     call_void (Unlock CallbackLock);
     call_void (Unlock RoleSwitchLock)
   }"

definition switchRole ::
  "usb_roles \<Rightarrow> usb_call env \<Rightarrow> (usb_call history \<Rightarrow> bool) \<Rightarrow> string \<Rightarrow> port_role \<Rightarrow> usb \<Rightarrow>
     (unit \<times> usb) option" where
  "switchRole K E P port newRole u =
     (let filename = appendRoleNodeHelper (c_str port) (role_type newRole)
      in if filename = [] then Some ((), u)
         else case run_state (call_void (Lock RoleSwitchLock)) u of (_, u) \<Rightarrow>
           Option.bind
             (if role_type newRole = MODE then switchMode K E P port newRole u
              else Some (run_state (write_role K E filename newRole) u))
             (\<lambda>(roleSwitch, u). Some (run_state (notify_role port newRole roleSwitch) u)))"

section \<open>Reporting the ports\<close>

definition report_ports ::
  "usb_roles \<Rightarrow> usb_modes \<Rightarrow> usb_call env \<Rightarrow> ((string \<times> bool) list \<Rightarrow> (string \<times> bool) list) \<Rightarrow> bool \<Rightarrow>
     ((usb_call, 'm) world_scheme, port_status_1_1 list) state" where
  "report_ports K M E order is_1_1 = do {
     (sts, status) \<leftarrow> getPortStatusHelper K M E order (\<not> is_1_1);
     call_void (if is_1_1 then NotifyPortStatusChange_1_1 sts status
                else NotifyPortStatusChange (map port_status.truncate sts) status);
     ret sts
   }"

text \<open>
  The callback is cast to V1_1 before \<open>mLock\<close> is taken; the question of \<open>castFrom\<close> to the client about its
  version has no event here, its answer is the kind of the callback.
\<close>

definition queryPortStatus ::
  "usb_roles \<Rightarrow> usb_modes \<Rightarrow> usb_call env \<Rightarrow> ((string \<times> bool) list \<Rightarrow> (string \<times> bool) list) \<Rightarrow> unit usb_op"
  where
  "queryPortStatus K M E order = do {
     cast \<leftarrow> gets mCallback;
     call_void (Lock CallbackLock);
     cb \<leftarrow> gets mCallback;
     (if cb \<noteq> No_callback then do { _ \<leftarrow> report_ports K M E order (cast = Callback_1_1); ret () } else ret ());
     call_void (Unlock CallbackLock)
   }"

section \<open>Auto suspend\<close>

definition GOOGLE_USB_VENDOR_ID_STR :: string where "GOOGLE_USB_VENDOR_ID_STR = ''18d1''"
definition GOOGLE_USBC_35_ADAPTER_UNPLUGGED_ID_STR :: string where
  "GOOGLE_USBC_35_ADAPTER_UNPLUGGED_ID_STR = ''5029''"

definition canProductAutoSuspend :: "string \<Rightarrow> string \<Rightarrow> bool" where
  "canProductAutoSuspend deviceIdVendor deviceIdProduct \<longleftrightarrow>
     deviceIdVendor = GOOGLE_USB_VENDOR_ID_STR \<and> deviceIdProduct = GOOGLE_USBC_35_ADAPTER_UNPLUGGED_ID_STR"

definition canUsbDeviceAutoSuspend ::
  "usb_call env \<Rightarrow> string \<Rightarrow> ((usb_call, 'm) world_scheme, bool) state" where
  "canUsbDeviceAutoSuspend E devicePath = do {
     (_, deviceIdVendor) \<leftarrow> readFile E (devicePath @ ''/idVendor'') [];
     (_, deviceIdProduct) \<leftarrow> readFile E (devicePath @ ''/idProduct'') [];
     ret (canProductAutoSuspend deviceIdVendor deviceIdProduct)
   }"

definition checkUsbDeviceAutoSuspend ::
  "usb_call env \<Rightarrow> string \<Rightarrow> ((usb_call, 'm) world_scheme, unit) state" where
  "checkUsbDeviceAutoSuspend E devicePath = do {
     can \<leftarrow> canUsbDeviceAutoSuspend E devicePath;
     if can then do { _ \<leftarrow> writeFile E (devicePath @ ''/power/control'') ''auto''; ret () } else ret ()
   }"

end
