(* ===== verification/UsbEvents.thy ===== *)
theory UsbEvents
  imports Usb
begin

text \<open>
  \<open>usb/Usb.cpp\<close>, fourth part: the uevent thread.  \<open>uevent_event\<close> walks over the NUL-terminated records
  of a kernel message in a buffer with two more NULs after it; the model keeps the buffer and the
  position, and \<open>None\<close> would be a read outside the buffer.
\<close>

section \<open>One record\<close>

definition any_char :: "char \<Rightarrow> bool" where
  "any_char c \<longleftrightarrow> c \<noteq> LF \<and> c \<noteq> CR"

text \<open>\<open>regex("(add)(.*)(-partner)")\<close>, matched against the whole record.\<close>

definition match_partner :: "string \<Rightarrow> bool" where
  "match_partner s \<longleftrightarrow> prefix ''add'' s \<and> suffix ''-partner'' s \<and> 11 \<le> length s \<and>
     list_all any_char (take (length s - 11) (drop 3 s))"

definition device_prefix :: string where
  "device_prefix = ''/devices/soc/a800000.ssusb/a800000.dwc3/xhci-hcd.0.auto/usb''"

text \<open>The other \<open>regex\<close>: an \<open>add@\<close> event below a USB device; the value is the first group.\<close>

definition match_usb_device :: "string \<Rightarrow> string option" where
  "match_usb_device s =
     (if \<not> prefix (''add@'' @ device_prefix) s then None
      else case drop (4 + length device_prefix) s of
        bus # c1 # root # c2 # port # c3 # rest \<Rightarrow>
          (if isdigit bus \<and> c1 = CHR ''/'' \<and> isdigit root \<and> c2 = CHR ''-'' \<and> isdigit port \<and> c3 = CHR ''/'' \<and>
             list_all any_char rest
           then Some (device_prefix @ [bus, c1, root, c2, port]) else None)
      | _ \<Rightarrow> None)"

text \<open>The loop over the reported ports under \<open>mRoleSwitchLock\<close>.\<close>

definition check_port :: "usb_call env \<Rightarrow> port_status_1_1 \<Rightarrow> ((usb_call, 'm) world_scheme, unit) state" where
  "check_port E st = (let path = ''/sys/class/typec/'' @ c_str (portName st) @ ''-partner'' in do {
     dp \<leftarrow> call_entries E (Opendir_typec path);
     case dp of
       None \<Rightarrow> switchToDrp E (portName st)
     | Some _ \<Rightarrow> call_void (Closedir_typec path)
   })"

definition typec_changed ::
  "usb_roles \<Rightarrow> usb_modes \<Rightarrow> usb_call env \<Rightarrow> ((string \<times> bool) list \<Rightarrow> (string \<times> bool) list) \<Rightarrow> unit usb_op"
  where
  "typec_changed K M E order = do {
     call_void (Lock CallbackLock);
     cb \<leftarrow> gets mCallback;
     sts \<leftarrow> (if cb \<noteq> No_callback then report_ports K M E order (cb = Callback_1_1) else ret []);
     call_void (Unlock CallbackLock);
     taken \<leftarrow> call_flag E (Trylock RoleSwitchLock);
     if taken then do { for_each sts (check_port E); call_void (Unlock RoleSwitchLock) } else ret ()
   }"

text \<open>The body of the loop; the value tells whether it leaves the loop (\<open>break\<close>).\<close>

definition uevent_record ::
  "usb_roles \<Rightarrow> usb_modes \<Rightarrow> usb_call env \<Rightarrow> ((string \<times> bool) list \<Rightarrow> (string \<times> bool) list) \<Rightarrow> string \<Rightarrow>
     bool usb_op" where
  "uevent_record K M E order cp =
     (if match_partner cp then do { partner_added; ret False }
      else if prefix ''DEVTYPE=typec_'' cp then do { typec_changed K M E order; ret True }
      else case match_usb_device cp of
        Some path \<Rightarrow> do { checkUsbDeviceAutoSuspend E (''/sys'' @ path); ret False }
      | None \<Rightarrow> ret False)"

section \<open>The message\<close>

text \<open>\<open>while (*cp)\<close> over the buffer, from position \<open>cp\<close>; \<open>None\<close> is a read outside \<open>buf\<close>.\<close>

function uevent_scan ::
  "usb_roles \<Rightarrow> usb_modes \<Rightarrow> usb_call env \<Rightarrow> ((string \<times> bool) list \<Rightarrow> (string \<times> bool) list) \<Rightarrow> string \<Rightarrow>
     nat \<Rightarrow> unit option usb_op" where
  "uevent_scan K M E order buf cp =
     (if length buf \<le> cp then ret None
      else if buf ! cp = NUL then ret (Some ())
      else do {
        leave \<leftarrow> uevent_record K M E order (c_str (drop cp buf));
        if leave then ret (Some ())
        else uevent_scan K M E order buf (cp + length (c_str (drop cp buf)) + 1)
      })"
  by pat_completeness auto
termination by (relation "measure (\<lambda>(K, M, E, order, buf, cp). length buf - cp)") auto

declare uevent_scan.simps [simp del]

definition uevent_event ::
  "usb_roles \<Rightarrow> usb_modes \<Rightarrow> usb_call env \<Rightarrow> ((string \<times> bool) list \<Rightarrow> (string \<times> bool) list) \<Rightarrow> int \<Rightarrow>
     unit option usb_op" where
  "uevent_event K M E order uevent_fd = do {
     r \<leftarrow> call_text E (Uevent_recv uevent_fd);
     case r of
       None \<Rightarrow> ret (Some ())
     | Some msg \<Rightarrow>
         if msg = [] \<or> UEVENT_MSG_LEN \<le> length msg then ret (Some ())
         else uevent_scan K M E order (msg @ [NUL, NUL]) 0
   }"

section \<open>The thread\<close>

definition SIGUSR1 :: int where "SIGUSR1 = 10"

definition sighandler :: "int \<Rightarrow> unit usb_op" where
  "sighandler sig = (if sig = SIGUSR1 then modify (\<lambda>u. u\<lparr>destroyThread := True\<rparr>)
     else call_void Signal_sigusr1)"

text \<open>
  What one \<open>epoll_wait\<close> returned, and whether \<open>SIGUSR1\<close> was delivered by then.
\<close>

datatype uevent_wait = Interrupted | Wait_failed | Ready nat

text \<open>\<open>while (!destroyThread)\<close>; the value tells whether the loop was left.\<close>

fun work_loop ::
  "usb_roles \<Rightarrow> usb_modes \<Rightarrow> usb_call env \<Rightarrow> ((string \<times> bool) list \<Rightarrow> (string \<times> bool) list) \<Rightarrow> int \<Rightarrow>
     (bool \<times> uevent_wait) list \<Rightarrow> bool usb_op" where
  "work_loop K M E order fd [] = gets destroyThread"
| "work_loop K M E order fd ((signalled, w) # ws) = do {
     stop \<leftarrow> gets destroyThread;
     if stop then ret True
     else do {
       (if signalled then sighandler SIGUSR1 else ret ());
       case w of
         Interrupted \<Rightarrow> work_loop K M E order fd ws
       | Wait_failed \<Rightarrow> ret True
       | Ready n \<Rightarrow> do {
           for_each [0..<n] (\<lambda>_. do { _ \<leftarrow> uevent_event K M E order fd; ret () });
           work_loop K M E order fd ws
         }
     }
   }"

definition work ::
  "usb_roles \<Rightarrow> usb_modes \<Rightarrow> usb_call env \<Rightarrow> ((string \<times> bool) list \<Rightarrow> (string \<times> bool) list) \<Rightarrow>
     (bool \<times> uevent_wait) list \<Rightarrow> unit usb_op" where
  "work K M E order ws = do {
     uevent_fd \<leftarrow> call_num E Uevent_open_socket;
     if uevent_fd < 0 then ret ()
     else do {
       call_void (Fcntl_nonblock uevent_fd);
       epoll_fd \<leftarrow> call_num E Epoll_create_usb;
       if epoll_fd = -1 then call_void (Close_usb uevent_fd)
       else do {
         r \<leftarrow> call_num E (Epoll_ctl_usb epoll_fd uevent_fd);
         left \<leftarrow> (if r = -1 then ret True else work_loop K M E order uevent_fd ws);
         if left then do {
           call_void (Close_usb uevent_fd);
           if epoll_fd \<ge> 0 then call_void (Close_usb epoll_fd) else ret ()
         }
         else ret ()
       }
     }
   }"

section \<open>Registering the callback\<close>

definition setCallback :: "usb_call env \<Rightarrow> usb_callback \<Rightarrow> unit usb_op" where
  "setCallback E callback = do {
     call_void (Lock CallbackLock);
     old \<leftarrow> gets mCallback;
     modify (\<lambda>u. u\<lparr>mCallback := callback\<rparr>);
     if old = No_callback \<and> callback = No_callback \<or> old \<noteq> No_callback \<and> callback \<noteq> No_callback then
       call_void (Unlock CallbackLock)
     else if callback = No_callback then do {
       call_void (Unlock CallbackLock);
       r \<leftarrow> call_num E Pthread_kill;
       if r = 0 then do {
         sighandler SIGUSR1;
         call_void Pthread_join;
         modify (\<lambda>u. u\<lparr>worker := False\<rparr>)
       }
       else ret ()
     }
     else do {
       modify (\<lambda>u. u\<lparr>destroyThread := False\<rparr>);
       call_void Signal_sigusr1;
       r \<leftarrow> call_num E Pthread_create;
       (if r \<noteq> 0 then modify (\<lambda>u. u\<lparr>mCallback := No_callback\<rparr>) else modify (\<lambda>u. u\<lparr>worker := True\<rparr>));
       call_void (Unlock CallbackLock)
     }
   }"

end
