(* ===== verification/UsbPatterns.thy ===== *)
theory UsbPatterns
  imports UsbEvents
begin

text \<open>
  The two regular expressions of \<open>uevent_event\<close> in \<open>usb/Usb.cpp\<close>: what \<open>std::regex_match\<close> means on the
  part of the ECMAScript grammar that they use, with the groups, a matcher by derivatives, and the proof
  that the predicates of the model, which read the record directly, decide the patterns of the source.
\<close>

section \<open>Regular expressions with groups\<close>

datatype regex =
    No_match
  | Eps
  | Lit char
  | Dot
  | Decimal
  | Seq regex regex
  | Alt regex regex
  | Star regex
  | Group regex

text \<open>A match of a whole text, with the text of each group in the order of the groups; a group below a
  star is not reported, which no pattern here has.\<close>

inductive matches :: "regex \<Rightarrow> string \<Rightarrow> string list \<Rightarrow> bool" where
  eps: "matches Eps [] []"
| lit: "matches (Lit c) [c] []"
| dot: "any_char c \<Longrightarrow> matches Dot [c] []"
| decimal: "isdigit c \<Longrightarrow> matches Decimal [c] []"
| seq: "matches r s g \<Longrightarrow> matches q t h \<Longrightarrow> matches (Seq r q) (s @ t) (g @ h)"
| left: "matches r s g \<Longrightarrow> matches (Alt r q) s g"
| right: "matches q s g \<Longrightarrow> matches (Alt r q) s g"
| enough: "matches (Star r) [] []"
| more: "matches r s g \<Longrightarrow> matches (Star r) t [] \<Longrightarrow> matches (Star r) (s @ t) []"
| group: "matches r s g \<Longrightarrow> matches (Group r) s (s # g)"

inductive_simps matches_simps [simp]:
  "matches No_match s g" "matches Eps s g" "matches (Lit c) s g" "matches Dot s g" "matches Decimal s g"
  "matches (Alt r q) s g" "matches (Group r) s g"

inductive_simps matches_Seq: "matches (Seq r q) s g"

definition language :: "regex \<Rightarrow> string set" where
  "language r = {s. \<exists>g. matches r s g}"

section \<open>The matcher\<close>

fun nullable :: "regex \<Rightarrow> bool" where
  "nullable Eps = True"
| "nullable (Seq r q) = (nullable r \<and> nullable q)"
| "nullable (Alt r q) = (nullable r \<or> nullable q)"
| "nullable (Star r) = True"
| "nullable (Group r) = nullable r"
| "nullable _ = False"

fun deriv :: "char \<Rightarrow> regex \<Rightarrow> regex" where
  "deriv c (Lit d) = (if c = d then Eps else No_match)"
| "deriv c Dot = (if any_char c then Eps else No_match)"
| "deriv c Decimal = (if isdigit c then Eps else No_match)"
| "deriv c (Seq r q) = (if nullable r then Alt (Seq (deriv c r) q) (deriv c q) else Seq (deriv c r) q)"
| "deriv c (Alt r q) = Alt (deriv c r) (deriv c q)"
| "deriv c (Star r) = Seq (deriv c r) (Star r)"
| "deriv c (Group r) = deriv c r"
| "deriv c _ = No_match"

definition regex_match :: "regex \<Rightarrow> string \<Rightarrow> bool" where
  "regex_match r s = nullable (foldl (\<lambda>r c. deriv c r) r s)"

lemma star_no_groups: "matches (Star r) s g \<Longrightarrow> g = []"
  by (induction "Star r" s g rule: matches.induct) simp_all

lemma language_simps:
  "language No_match = {}" "language Eps = {[]}" "language (Lit c) = {[c]}" "language Dot = {[c] | c. any_char c}"
  "language Decimal = {[c] | c. isdigit c}" "language (Alt r q) = language r \<union> language q"
  "language (Group r) = language r"
  by (auto simp: language_def)

lemma in_Seq: "s \<in> language (Seq r q) \<longleftrightarrow> (\<exists>t u. s = t @ u \<and> t \<in> language r \<and> u \<in> language q)"
  unfolding language_def mem_Collect_eq matches_Seq by blast

lemma Nil_in_Star: "[] \<in> language (Star r)"
  unfolding language_def by (auto intro: matches.enough)

lemma in_Star: "s \<in> language (Star r) \<longleftrightarrow> s = [] \<or> (\<exists>c t u. s = c # t @ u \<and> c # t \<in> language r \<and> u \<in> language (Star r))"
proof
  have "matches (Star r) s g \<Longrightarrow> s = [] \<or> (\<exists>c t u. s = c # t @ u \<and> c # t \<in> language r \<and> u \<in> language (Star r))" for g
  proof (induction "Star r" s g rule: matches.induct)
    case (more s g t)
    then show ?case unfolding language_def by (cases s) auto
  qed simp
  then show "s \<in> language (Star r) \<Longrightarrow> s = [] \<or> (\<exists>c t u. s = c # t @ u \<and> c # t \<in> language r \<and> u \<in> language (Star r))"
    unfolding language_def by blast
  have "matches r (c # t) g \<Longrightarrow> matches (Star r) u h \<Longrightarrow> matches (Star r) (c # t @ u) []" for c t u g h
    using matches.more [of r "c # t" g u] star_no_groups by fastforce
  then show "s = [] \<or> (\<exists>c t u. s = c # t @ u \<and> c # t \<in> language r \<and> u \<in> language (Star r)) \<Longrightarrow> s \<in> language (Star r)"
    using Nil_in_Star unfolding language_def by blast
qed

lemma nullable_language: "nullable r \<longleftrightarrow> [] \<in> language r"
  by (induction r) (auto simp: language_simps in_Seq Nil_in_Star)

lemma deriv_language: "s \<in> language (deriv c r) \<longleftrightarrow> c # s \<in> language r"
proof (induction r arbitrary: s)
  case (Seq r q)
  have "c # s \<in> language (Seq r q) \<longleftrightarrow>
      [] \<in> language r \<and> c # s \<in> language q \<or> (\<exists>t u. s = t @ u \<and> c # t \<in> language r \<and> u \<in> language q)"
    unfolding in_Seq Cons_eq_append_conv by blast
  with Seq show ?case by (auto simp: language_simps in_Seq nullable_language)
next
  case (Star r)
  then show ?case by (auto simp: in_Seq in_Star [of "c # s"])
qed (auto simp: language_simps)

lemma regex_match_language: "regex_match r s \<longleftrightarrow> s \<in> language r"
  by (induction s arbitrary: r) (simp_all add: regex_match_def nullable_language deriv_language)

section \<open>The patterns of the source\<close>

definition literal :: "string \<Rightarrow> regex" where
  "literal t = foldr (\<lambda>c. Seq (Lit c)) t Eps"

definition partner_regex :: regex where
  "partner_regex = Seq (Group (literal ''add'')) (Seq (Group (Star Dot)) (Group (literal ''-partner'')))"

definition device_regex :: regex where
  "device_regex =
     Seq (literal ''add@'')
       (Seq (Group (Seq (literal device_prefix)
           (Seq Decimal (Seq (literal ''/'') (Seq Decimal (Seq (literal ''-'') Decimal))))))
         (Seq (literal ''/'') (Star Dot)))"

text \<open>The text of a pattern: the characters with a meaning of their own are escaped.\<close>

fun pattern_text :: "regex \<Rightarrow> string" where
  "pattern_text (Lit c) = (if c \<in> set ''^$.*+?()[]{}|'' \<or> c = CHR 0x5C then [CHR 0x5C, c] else [c])"
| "pattern_text Dot = ''.''"
| "pattern_text Decimal = [CHR 0x5C, CHR ''d'']"
| "pattern_text (Seq r q) = pattern_text r @ pattern_text q"
| "pattern_text (Alt r q) = pattern_text r @ ''|'' @ pattern_text q"
| "pattern_text (Star r) = pattern_text r @ ''*''"
| "pattern_text (Group r) = ''('' @ pattern_text r @ '')''"
| "pattern_text _ = []"

lemma matches_literal [simp]: "matches (literal t) s g \<longleftrightarrow> s = t \<and> g = []"
  by (induction t arbitrary: s g) (auto simp: literal_def matches_Seq)

lemma matches_dots [simp]: "matches (Star Dot) s g \<longleftrightarrow> list_all any_char s \<and> g = []"
proof
  show "matches (Star Dot) s g \<Longrightarrow> list_all any_char s \<and> g = []"
    by (induction "Star Dot" s g rule: matches.induct) auto
  have "list_all any_char s \<Longrightarrow> matches (Star Dot) s []"
  proof (induction s)
    case (Cons c s)
    then show ?case using matches.more [of Dot "[c]" "[]" s] by simp
  qed (rule matches.enough)
  then show "list_all any_char s \<and> g = [] \<Longrightarrow> matches (Star Dot) s g" by simp
qed

lemma matches_Seq_literal: "matches (Seq (literal t) q) s g \<longleftrightarrow> (\<exists>u. s = t @ u \<and> matches q u g)"
proof
  show "matches (Seq (literal t) q) s g \<Longrightarrow> \<exists>u. s = t @ u \<and> matches q u g"
    unfolding matches_Seq by auto
  show "\<exists>u. s = t @ u \<and> matches q u g \<Longrightarrow> matches (Seq (literal t) q) s g"
    using matches.seq [of "literal t" t "[]" q] by auto
qed

lemma matches_Seq_Decimal: "matches (Seq Decimal q) s g \<longleftrightarrow> (\<exists>c u. s = c # u \<and> isdigit c \<and> matches q u g)"
proof
  show "matches (Seq Decimal q) s g \<Longrightarrow> \<exists>c u. s = c # u \<and> isdigit c \<and> matches q u g"
    unfolding matches_Seq by auto
  show "\<exists>c u. s = c # u \<and> isdigit c \<and> matches q u g \<Longrightarrow> matches (Seq Decimal q) s g"
    using matches.seq [of Decimal _ "[]" q] by fastforce
qed

lemma matches_Seq_Group:
  "matches (Seq (Group r) q) s g \<longleftrightarrow>
     (\<exists>t x u h. matches r t x \<and> matches q u h \<and> s = t @ u \<and> g = t # x @ h)"
proof
  show "matches (Seq (Group r) q) s g \<Longrightarrow> \<exists>t x u h. matches r t x \<and> matches q u h \<and> s = t @ u \<and> g = t # x @ h"
    by (auto simp: matches_Seq) blast
  show "\<exists>t x u h. matches r t x \<and> matches q u h \<and> s = t @ u \<and> g = t # x @ h \<Longrightarrow> matches (Seq (Group r) q) s g"
    using matches.seq [OF matches.group] by fastforce
qed

lemma matches_partner:
  "matches partner_regex s g \<longleftrightarrow>
     (\<exists>m. s = ''add'' @ m @ ''-partner'' \<and> list_all any_char m \<and> g = [''add'', m, ''-partner''])"
  unfolding partner_regex_def matches_Seq_Group by simp blast

lemma match_partner_parts: "match_partner s \<longleftrightarrow> (\<exists>m. s = ''add'' @ m @ ''-partner'' \<and> list_all any_char m)"
proof
  assume m: "match_partner s"
  then obtain x y where x: "s = ''add'' @ x" and y: "s = y @ ''-partner''"
    unfolding match_partner_def prefix_def suffix_def by blast
  let ?m = "take (length x - 8) x"
  have n: "8 \<le> length x" using m x by (simp add: match_partner_def)
  have "drop (length x - 8) x = drop (length s - 8) s" using x n by (simp add: drop_Cons' numeral_eq_Suc)
  also have "\<dots> = ''-partner''" unfolding y by simp
  finally have "x = ?m @ ''-partner''" by (metis append_take_drop_id)
  moreover have "list_all any_char ?m" using m x by (simp add: match_partner_def)
  ultimately show "\<exists>m. s = ''add'' @ m @ ''-partner'' \<and> list_all any_char m" using x by metis
qed (auto simp: match_partner_def suffix_def)

lemma matches_path:
  "matches (Seq (literal device_prefix) (Seq Decimal (Seq (literal ''/'') (Seq Decimal (Seq (literal ''-'') Decimal))))) s g
     \<longleftrightarrow> (\<exists>bus root port. s = device_prefix @ [bus, CHR ''/'', root, CHR ''-'', port] \<and>
        isdigit bus \<and> isdigit root \<and> isdigit port \<and> g = [])"
  unfolding matches_Seq_literal matches_Seq_Decimal by auto

lemma matches_device:
  "matches device_regex s g \<longleftrightarrow>
     (\<exists>bus root port rest. s = ''add@'' @ device_prefix @ [bus, CHR ''/'', root, CHR ''-'', port] @ CHR ''/'' # rest \<and>
        isdigit bus \<and> isdigit root \<and> isdigit port \<and> list_all any_char rest \<and>
        g = [device_prefix @ [bus, CHR ''/'', root, CHR ''-'', port]])"
  (is "_ \<longleftrightarrow> ?R")
proof -
  let ?path = "Seq (literal device_prefix) (Seq Decimal (Seq (literal ''/'') (Seq Decimal (Seq (literal ''-'') Decimal))))"
  have "matches device_regex s g \<longleftrightarrow>
      (\<exists>v t x u h. s = ''add@'' @ v \<and> matches ?path t x \<and> matches (Seq (literal ''/'') (Star Dot)) u h \<and> v = t @ u \<and> g = t # x @ h)"
    unfolding device_regex_def matches_Seq_literal [of "''add@''"] matches_Seq_Group by blast
  also have "\<dots> \<longleftrightarrow> ?R"
    unfolding matches_path matches_Seq_literal [of "''/''"] matches_dots
  proof (rule iffI)
    assume ?R
    then obtain bus root port rest where "s = ''add@'' @ device_prefix @ [bus, CHR ''/'', root, CHR ''-'', port] @ CHR ''/'' # rest"
      "isdigit bus \<and> isdigit root \<and> isdigit port \<and> list_all any_char rest"
      "g = [device_prefix @ [bus, CHR ''/'', root, CHR ''-'', port]]" by blast
    then show "\<exists>v t x u h. s = ''add@'' @ v \<and> (\<exists>bus root port. t = device_prefix @ [bus, CHR ''/'', root, CHR ''-'', port] \<and>
        isdigit bus \<and> isdigit root \<and> isdigit port \<and> x = []) \<and>
        (\<exists>ua. u = ''/'' @ ua \<and> list_all any_char ua \<and> h = []) \<and> v = t @ u \<and> g = t # x @ h"
      by (intro exI [of _ "device_prefix @ [bus, CHR ''/'', root, CHR ''-'', port] @ CHR ''/'' # rest"]
          exI [of _ "device_prefix @ [bus, CHR ''/'', root, CHR ''-'', port]"] exI [of _ "[]"] exI [of _ "CHR ''/'' # rest"])
        simp
  qed auto
  finally show ?thesis .
qed

lemma drop_device: "drop (4 + length device_prefix) (''add@'' @ device_prefix @ t) = t"
  by (simp add: drop_Cons' numeral_eq_Suc)

lemma match_usb_device_parts:
  "match_usb_device s = Some p \<longleftrightarrow>
     (\<exists>bus root port rest. s = ''add@'' @ device_prefix @ [bus, CHR ''/'', root, CHR ''-'', port] @ CHR ''/'' # rest \<and>
        isdigit bus \<and> isdigit root \<and> isdigit port \<and> list_all any_char rest \<and>
        p = device_prefix @ [bus, CHR ''/'', root, CHR ''-'', port])"
  (is "_ \<longleftrightarrow> ?R")
proof
  assume m: "match_usb_device s = Some p"
  then have "prefix (''add@'' @ device_prefix) s" by (simp add: match_usb_device_def split: if_splits)
  then obtain t where s: "s = (''add@'' @ device_prefix) @ t" unfolding prefix_def by blast
  have "drop (4 + length device_prefix) s = t" unfolding s append_assoc by (rule drop_device)
  with m have "(case t of
        bus # c1 # root # c2 # port # c3 # rest \<Rightarrow>
          (if isdigit bus \<and> c1 = CHR ''/'' \<and> isdigit root \<and> c2 = CHR ''-'' \<and> isdigit port \<and> c3 = CHR ''/'' \<and>
             list_all any_char rest
           then Some (device_prefix @ [bus, c1, root, c2, port]) else None)
      | _ \<Rightarrow> None) = Some p" unfolding match_usb_device_def by (simp split: if_splits)
  then show ?R unfolding s by (auto split: list.splits if_splits)
next
  assume ?R
  then obtain bus root port rest where s: "s = ''add@'' @ device_prefix @ [bus, CHR ''/'', root, CHR ''-'', port] @ CHR ''/'' # rest"
    and p: "isdigit bus" "isdigit root" "isdigit port" "list_all any_char rest"
      "p = device_prefix @ [bus, CHR ''/'', root, CHR ''-'', port]" by blast
  have "prefix (''add@'' @ device_prefix) s" unfolding s by simp
  moreover have "drop (4 + length device_prefix) s = bus # CHR ''/'' # root # CHR ''-'' # port # CHR ''/'' # rest"
    unfolding s drop_device by simp
  ultimately show "match_usb_device s = Some p" using p by (simp add: match_usb_device_def)
qed

text \<open>
  C17. The predicates by which the model classifies a record decide exactly the two patterns of the
  source, whose text is given: a record is a partner event if the whole of it matches the first, and a
  device event, with the one group of the match as its path, if the whole of it matches the second; and
  each agrees with the matcher by derivatives.
\<close>

theorem records_match_patterns:
  "pattern_text partner_regex = ''(add)(.*)(-partner)'' \<and>
   pattern_text device_regex = ''add@(/devices/soc/a800000'' @ [CHR 0x5C] @ ''.ssusb/a800000'' @ [CHR 0x5C] @
     ''.dwc3/xhci-hcd'' @ [CHR 0x5C] @ ''.0'' @ [CHR 0x5C] @ ''.auto/usb'' @ [CHR 0x5C] @ ''d/'' @ [CHR 0x5C] @ ''d-'' @
     [CHR 0x5C] @ ''d)/.*'' \<and>
   (match_partner s \<longleftrightarrow> regex_match partner_regex s) \<and>
   (matches device_regex s groups \<longleftrightarrow> (\<exists>path. groups = [path] \<and> match_usb_device s = Some path)) \<and>
   (match_usb_device s \<noteq> None \<longleftrightarrow> regex_match device_regex s)"
proof (intro conjI)
  show "pattern_text partner_regex = ''(add)(.*)(-partner)''" by code_simp
  show "pattern_text device_regex = ''add@(/devices/soc/a800000'' @ [CHR 0x5C] @ ''.ssusb/a800000'' @ [CHR 0x5C] @
     ''.dwc3/xhci-hcd'' @ [CHR 0x5C] @ ''.0'' @ [CHR 0x5C] @ ''.auto/usb'' @ [CHR 0x5C] @ ''d/'' @ [CHR 0x5C] @ ''d-'' @
     [CHR 0x5C] @ ''d)/.*''" by code_simp
  show "match_partner s \<longleftrightarrow> regex_match partner_regex s"
    by (simp add: regex_match_language language_def matches_partner match_partner_parts)
  show device: "matches device_regex s groups \<longleftrightarrow> (\<exists>path. groups = [path] \<and> match_usb_device s = Some path)" for groups
    unfolding matches_device match_usb_device_parts by blast
  then show "match_usb_device s \<noteq> None \<longleftrightarrow> regex_match device_regex s"
    by (auto simp: regex_match_language language_def)
qed

end
