(* ===== verification/UsbSwitch.thy ===== *)
theory UsbSwitch
  imports UsbEvents
begin

text \<open>
  What switching a role does: when the wait for the partner ends, what the result means, and what the
  client is told.
\<close>

section \<open>The wait\<close>

text \<open>The state after \<open>n\<close> returns of \<open>pthread_cond_timedwait\<close>, and whether the next one is the last.\<close>

primrec rounds :: "usb_call env \<Rightarrow> (usb_call history \<Rightarrow> bool) \<Rightarrow> usb \<Rightarrow> nat \<Rightarrow> usb" where
  "rounds E P u 0 = u"
| "rounds E P u (Suc n) = rounds E P (snd (run_state (timed_wait E P) u)) n"

definition last_round :: "usb_call env \<Rightarrow> (usb_call history \<Rightarrow> bool) \<Rightarrow> usb \<Rightarrow> bool" where
  "last_round E P u \<longleftrightarrow> fst (run_state (timed_wait E P) u) = ETIMEDOUT \<or>
     mPartnerUp (snd (run_state (timed_wait E P) u))"

lemma wait_again_step:
  "wait_again E P u =
     (if last_round E P u
      then Some (fst (run_state (timed_wait E P) u) \<noteq> ETIMEDOUT, snd (run_state (timed_wait E P) u))
      else wait_again E P (snd (run_state (timed_wait E P) u)))"
  by (subst wait_again.simps) (auto simp: last_round_def split: prod.split)

lemma wait_again_returns: "last_round E P (rounds E P u n) \<Longrightarrow> \<exists>r. wait_again E P u = Some r"
proof (induction n arbitrary: u)
  case 0
  then show ?case by (subst wait_again_step) simp
next
  case (Suc n)
  then show ?case by (subst wait_again_step) simp
qed

text \<open>What one round does to the object and the history.\<close>

definition is_round :: "usb_call history \<Rightarrow> bool" where
  "is_round t \<longleftrightarrow> (\<exists>now p err. t = [(Clock_gettime, Num now), (Cv_wait_start, Void)] @
     (if p then [(Lock PartnerLock, Void), (Cv_signal, Void), (Unlock PartnerLock, Void)] else []) @
     [(Cv_timedwait (now + PORT_TYPE_TIMEOUT), Num err)])"

text \<open>Some wait ended by its timeout.\<close>

definition timed_out :: "usb_call history \<Rightarrow> bool" where
  "timed_out t \<longleftrightarrow> (\<exists>w. (Cv_timedwait w, Num ETIMEDOUT) \<in> set t)"

lemma timed_out_simps [simp]:
  "timed_out (t @ u) \<longleftrightarrow> timed_out t \<or> timed_out u" "\<not> timed_out []"
  "timed_out (e # t) \<longleftrightarrow> (\<exists>w. e = (Cv_timedwait w, Num ETIMEDOUT)) \<or> timed_out t"
  by (auto simp: timed_out_def)

lemma timed_wait_run:
  "\<exists>t. hist (snd (run_state (timed_wait E P) u)) = hist u @ t \<and> is_round t \<and>
     timed_out t = (fst (run_state (timed_wait E P) u) = ETIMEDOUT) \<and>
     mPartnerUp (snd (run_state (timed_wait E P) u)) = (mPartnerUp u \<or> (Cv_signal, Void) \<in> set t) \<and>
     mCallback (snd (run_state (timed_wait E P) u)) = mCallback u"
proof -
  let ?now = "e_num E (hist u) Clock_gettime"
  let ?h = "hist u @ [(Clock_gettime, Num ?now), (Cv_wait_start, Void)]"
  let ?p = "if P ?h then [(Lock PartnerLock, Void), (Cv_signal, Void), (Unlock PartnerLock, Void)] else []"
  let ?err = "e_num E (?h @ ?p) (Cv_timedwait (?now + PORT_TYPE_TIMEOUT))"
  let ?t = "[(Clock_gettime, Num ?now), (Cv_wait_start, Void)] @ ?p @
     [(Cv_timedwait (?now + PORT_TYPE_TIMEOUT), Num ?err)]"
  have "is_round ?t"
    unfolding is_round_def by (intro exI [of _ ?now] exI [of _ "P ?h"] exI [of _ ?err]) simp
  then show ?thesis
    by (intro exI [of _ ?t]) (simp add: timed_wait_def partner_added_def run_calls)
qed

definition ended ::
  "usb_call env \<Rightarrow> (usb_call history \<Rightarrow> bool) \<Rightarrow> usb \<Rightarrow> bool \<times> usb \<Rightarrow> bool" where
  "ended E P u y \<longleftrightarrow>
     (\<exists>ts n. hist (snd y) = hist u @ concat ts \<and> list_all is_round ts \<and> mPartnerUp (snd y) = (mPartnerUp u \<or> (Cv_signal, Void) \<in> set (concat ts)) \<and>
        mCallback (snd y) = mCallback u \<and> (fst y \<longrightarrow> mPartnerUp (snd y)) \<and> fst y = (\<not> timed_out (concat ts)) \<and> last_round E P (rounds E P u n))"

lemma ended_step:
  assumes prev: "\<And>u y. self u = Some y \<Longrightarrow> ended E P u y"
    and body: "(case run_state (timed_wait E P) u of (err, u) \<Rightarrow>
        if err = ETIMEDOUT then Some (False, u) else if \<not> mPartnerUp u then self u else Some (True, u)) = Some y"
  shows "ended E P u y"
proof -
  obtain err u1 where r: "run_state (timed_wait E P) u = (err, u1)" by (cases "run_state (timed_wait E P) u")
  from timed_wait_run [of E P u] r obtain t where t: "hist u1 = hist u @ t" "is_round t"
    "timed_out t = (err = ETIMEDOUT)" "mPartnerUp u1 = (mPartnerUp u \<or> (Cv_signal, Void) \<in> set t)" "mCallback u1 = mCallback u" by auto
  show ?thesis
  proof (cases "last_round E P u")
    case True
    with body r have "y = (err \<noteq> ETIMEDOUT, u1)"
      by (auto simp: last_round_def split: if_splits)
    with t True r show ?thesis unfolding ended_def
      by (intro exI [of _ "[t]"] exI [of _ 0]) (auto simp: last_round_def)
  next
    case False
    with body r have "self u1 = Some y"
      by (auto simp: last_round_def split: if_splits)
    from prev [OF this] obtain ts n where "hist (snd y) = hist u1 @ concat ts"
      "list_all is_round ts" "mPartnerUp (snd y) = (mPartnerUp u1 \<or> (Cv_signal, Void) \<in> set (concat ts))" "mCallback (snd y) = mCallback u1"
      "fst y \<longrightarrow> mPartnerUp (snd y)" "fst y = (\<not> timed_out (concat ts))" "last_round E P (rounds E P u1 n)"
      unfolding ended_def by blast
    moreover have "err \<noteq> ETIMEDOUT" using False r by (simp add: last_round_def)
    ultimately show ?thesis using t r unfolding ended_def by (intro exI [of _ "t # ts"] exI [of _ "Suc n"]) auto
  qed
qed

lemma wait_again_run: "wait_again E P u = Some y \<Longrightarrow> ended E P u y"
  by (rule wait_again.raw_induct [of "\<lambda>((E, P), u) y. ended E P u y", simplified])
    (rule ended_step [rotated], assumption, auto)


text \<open>
  Waiting for the partner returns exactly when some return of \<open>pthread_cond_timedwait\<close> is a
  timeout or finds the partner up: only wake-ups for no reason, for ever, keep it from returning.
\<close>

theorem mode_wait_returns:
  "(\<exists>r. wait_again E P u = Some r) \<longleftrightarrow> (\<exists>n. last_round E P (rounds E P u n))"
  using wait_again_returns wait_again_run unfolding ended_def by blast

section \<open>A mode switch\<close>

definition put_back :: "string \<Rightarrow> usb_call history \<Rightarrow> bool" where
  "put_back filename t \<longleftrightarrow>
     t = [(Fopen_w filename, Flag False)] \<or>
     (\<exists>ok. t = [(Fopen_w filename, Flag True), (Fputs filename ''dual'', Flag ok), (Fclose filename, Void)])"

definition answered_after :: "usb_call \<times> answer \<Rightarrow> usb_call \<times> answer \<Rightarrow> usb_call history \<Rightarrow> bool" where
  "answered_after a b t \<longleftrightarrow> (\<exists>t1 t2 t3. t = t1 @ [a] @ t2 @ [b] @ t3)"

lemma put_node_run:
  "\<exists>t. hist (snd (run_state (put_node E f txt) s)) = hist s @ t \<and>
     (t = [(Fopen_w f, Flag False)] \<and> \<not> fst (run_state (put_node E f txt) s) \<or>
      t = [(Fopen_w f, Flag True), (Fputs f (c_str txt), Flag (fst (run_state (put_node E f txt) s))),
        (Fclose f, Void)])"
  by (simp add: put_node_def run_calls)

lemma c_str_idem: "c_str (c_str s) = c_str s"
  by (induction s) (auto simp: c_str_def dest: set_takeWhileD)

lemma end_switch_run:
  "\<exists>t. hist (snd (run_state (end_switch E port r) s)) = hist s @ t \<and> fst (run_state (end_switch E port r) s) = r \<and>
     (if r then t = [] else put_back (appendRoleNodeHelper (c_str port) MODE) t)"
proof -
  have "c_str ''dual'' = ''dual''" by (simp add: c_str_def)
  then show ?thesis
    using put_node_run [of E "appendRoleNodeHelper (c_str port) MODE" "''dual''" s]
    by (cases r) (auto simp: end_switch_def switchToDrp_def c_str_idem appendRoleNodeHelper_def put_back_def
        split_beta)
qed

lemma end_switch_callback: "mCallback (snd (run_state (end_switch E port r) u)) = mCallback u"
  by (simp add: end_switch_def switchToDrp_def put_node_def run_calls)


lemma write_mode_run:
  assumes "run_state (write_mode E f txt) u = (r, u1)"
  shows "mCallback u1 = mCallback u \<and>
    (case r of
       None \<Rightarrow> u1 = u\<lparr>hist := hist u @ [(Fopen_w f, Flag False)]\<rparr>
     | Some ok \<Rightarrow> \<not> mPartnerUp u1 \<and> hist u1 = hist u @ [(Fopen_w f, Flag True), (Lock PartnerLock, Void),
         (Fputs f txt, Flag ok), (Fclose f, Void)])"
  using assms by (auto simp: write_mode_def run_calls split: if_splits)

text \<open>Success is exactly that the node took the text and no wait timed out.\<close>

definition mode_outcome :: "string \<Rightarrow> string \<Rightarrow> bool \<Rightarrow> usb_call history \<Rightarrow> bool" where
  "mode_outcome node role r t \<longleftrightarrow>
     r = ((Fputs node role, Flag True) \<in> set t \<and> \<not> timed_out t) \<and>
     (if r then answered_after (Fputs node role, Flag True) (Cv_signal, Void) t
      else \<exists>t1 t2. t = t1 @ t2 \<and> put_back node t2)"

text \<open>The shape of the history of a mode switch.\<close>

definition switch_trace :: "string \<Rightarrow> usb_call history \<Rightarrow> bool" where
  "switch_trace node t \<longleftrightarrow>
     (\<exists>x. t = (Fopen_w node, Flag False) # x \<and> put_back node x) \<or>
     (\<exists>role ok ts x. t = [(Fopen_w node, Flag True), (Lock PartnerLock, Void), (Fputs node role, Flag ok),
         (Fclose node, Void)] @ concat ts @ [(Unlock PartnerLock, Void)] @ x \<and> list_all is_round ts \<and>
       (x = [] \<or> put_back node x))"

lemma wait_if_written:
  assumes "(if ok then wait_again E P u else Some (False, u)) = Some (r, u')" and "\<not> mPartnerUp u"
  obtains ts where "hist u' = hist u @ concat ts" and "list_all is_round ts" and "mCallback u' = mCallback u"
    and "r \<longrightarrow> ok \<and> (Cv_signal, Void) \<in> set (concat ts)" and "r = (ok \<and> \<not> timed_out (concat ts))"
proof (cases ok)
  case True
  with assms wait_again_run have "ended E P u (r, u')" by simp
  with True assms(2) that show thesis unfolding ended_def by auto
next
  case False
  with assms that [of "[]"] show thesis by auto
qed

abbreviation mode_written :: "string \<Rightarrow> string \<Rightarrow> bool \<Rightarrow> usb_call history" where
  "mode_written node role ok \<equiv>
     [(Fopen_w node, Flag True), (Lock PartnerLock, Void), (Fputs node role, Flag ok), (Fclose node, Void)]"

text \<open>The text of a role is written once; what puts the node back is another text, and is no wait.\<close>

lemma role_not_dual: "convertRoletoString K role \<noteq> ''dual''"
  by (simp add: convertRoletoString_def)

lemma no_role_text:
  "list_all is_round ts \<Longrightarrow> (Fputs node role, Flag True) \<notin> set (concat ts)"
  "put_back node x \<Longrightarrow> role \<noteq> ''dual'' \<Longrightarrow> (Fputs node role, Flag True) \<notin> set x"
  "put_back node x \<Longrightarrow> \<not> timed_out x"
  by (auto simp: list_all_iff is_round_def put_back_def split: if_splits)

lemma mode_trace:
  assumes ts: "list_all is_round ts" and r: "r \<longrightarrow> ok \<and> (Cv_signal, Void) \<in> set (concat ts)"
    and exact: "r = (ok \<and> \<not> timed_out (concat ts))" and role: "role \<noteq> ''dual''"
    and x: "if r then x = [] else put_back node x"
    and t: "t = mode_written node role ok @ concat ts @ [(Unlock PartnerLock, Void)] @ x"
  shows "switch_trace node t \<and> mode_outcome node role r t"
proof
  show "switch_trace node t" using ts x unfolding switch_trace_def t by metis
  have "(Fputs node role, Flag True) \<in> set t \<longleftrightarrow> ok" "timed_out t \<longleftrightarrow> timed_out (concat ts)"
    using x no_role_text(1) [OF ts] no_role_text(2,3) [of node x] role by (cases r; auto simp: t)+
  with exact have exact: "r = ((Fputs node role, Flag True) \<in> set t \<and> \<not> timed_out t)" by blast
  show "mode_outcome node role r t"
  proof (cases r)
    case True
    with r obtain v1 v2 where "concat ts = v1 @ (Cv_signal, Void) # v2" and "ok"
      by (metis split_list)
    then have "t = [(Fopen_w node, Flag True), (Lock PartnerLock, Void)] @ [(Fputs node role, Flag True)] @
        ((Fclose node, Void) # v1) @ [(Cv_signal, Void)] @ (v2 @ [(Unlock PartnerLock, Void)] @ x)"
      by (simp add: t)
    with True have "if r then answered_after (Fputs node role, Flag True) (Cv_signal, Void) t else True"
      unfolding answered_after_def by metis
    with exact True show ?thesis unfolding mode_outcome_def by simp
  next
    case False
    have "t = (mode_written node role ok @ concat ts @ [(Unlock PartnerLock, Void)]) @ x" by (simp add: t)
    with False x have "\<exists>t1 t2. t = t1 @ t2 \<and> put_back node t2" by metis
    with exact False show ?thesis unfolding mode_outcome_def by simp
  qed
qed

lemma switchMode_run:
  assumes run: "switchMode K E P port role u = Some (r, u')" and mode: "role_type role = MODE"
  shows "\<exists>t. hist u' = hist u @ t \<and> mCallback u' = mCallback u \<and> switch_trace (appendRoleNodeHelper (c_str port) MODE) t \<and>
     mode_outcome (appendRoleNodeHelper (c_str port) MODE) (convertRoletoString K role) r t"
proof -
  let ?node = "appendRoleNodeHelper (c_str port) MODE" and ?role = "convertRoletoString K role"
  have named: "?node \<noteq> []" by (simp add: appendRoleNodeHelper_def)
  obtain w u1 where w: "run_state (write_mode E ?node ?role) u = (w, u1)"
    by (cases "run_state (write_mode E ?node ?role) u")
  note w1 = write_mode_run [OF w]
  show ?thesis
  proof (cases w)
    case None
    with run mode named w have fin: "run_state (end_switch E port False) u1 = (r, u')"
      by (simp add: switchMode_def)
    with end_switch_run [of E port False u1] obtain t where t: "hist u' = hist u1 @ t" "\<not> r" "put_back ?node t"
      by auto
    have "mCallback u' = mCallback u" using end_switch_callback [of E port False u1] fin w1 by simp
    moreover have "hist u' = hist u @ (Fopen_w ?node, Flag False) # t" using w1 None t(1) by simp
    moreover have "mode_outcome ?node ?role r ([(Fopen_w ?node, Flag False)] @ t)"
      using t no_role_text(2,3) [OF t(3)] role_not_dual [of K role] unfolding mode_outcome_def
      by (auto intro: exI [of _ "[(Fopen_w ?node, Flag False)]"])
    ultimately show ?thesis using t(3) by (auto simp: switch_trace_def)
  next
    case (Some ok)
    from run mode named w Some obtain r2 u2 where wait: "(if ok then wait_again E P u1 else Some (False, u1)) = Some (r2, u2)"
      and fin: "run_state (end_switch E port r2) (u2\<lparr>hist := hist u2 @ [(Unlock PartnerLock, Void)]\<rparr>) = (r, u')"
      by (auto simp: switchMode_def bind_eq_Some_conv call_void_def)
    from wait obtain ts where ts: "hist u2 = hist u1 @ concat ts" "list_all is_round ts" "mCallback u2 = mCallback u1"
      "r2 \<longrightarrow> ok \<and> (Cv_signal, Void) \<in> set (concat ts)" "r2 = (ok \<and> \<not> timed_out (concat ts))"
      by (rule wait_if_written) (use w1 Some in simp)
    from end_switch_run [of E port r2 "u2\<lparr>hist := hist u2 @ [(Unlock PartnerLock, Void)]\<rparr>"] fin obtain x where
      x: "hist u' = hist u2 @ [(Unlock PartnerLock, Void)] @ x" "r = r2" "if r then x = [] else put_back ?node x" by auto
    have "hist u' = hist u @ mode_written ?node ?role ok @ concat ts @ [(Unlock PartnerLock, Void)] @ x"
      using x(1) ts(1) w1 Some by simp
    moreover have "mCallback u' = mCallback u"
      using end_switch_callback [of E port r2 "u2\<lparr>hist := hist u2 @ [(Unlock PartnerLock, Void)]\<rparr>"] fin ts(3) w1 by simp
    ultimately show ?thesis using mode_trace [OF ts(2) ts(4) [folded x(2)] ts(5) [folded x(2)] role_not_dual x(3) refl] by blast
  qed
qed

text \<open>
  A mode switch that returns success has seen the partner after the new mode was written to the
  port's node; one that fails ends with the attempt to write \<open>dual\<close> to that node.
\<close>

theorem mode_switch_outcome:
  assumes "switchMode K E P port role u = Some (r, u')" and "role_type role = MODE"
  shows "\<exists>t. hist u' = hist u @ t \<and>
    (if r then answered_after (Fputs (appendRoleNodeHelper (c_str port) MODE) (convertRoletoString K role), Flag True)
                 (Cv_signal, Void) t
     else \<exists>t1 t2. t = t1 @ t2 \<and> put_back (appendRoleNodeHelper (c_str port) MODE) t2)"
  using switchMode_run [OF assms] unfolding mode_outcome_def by blast

definition sample_usb :: usb where
  "sample_usb = new_usb\<lparr>mCallback := Callback_1_1\<rparr>"

lemma wait_again_now: "last_round E P u \<Longrightarrow> wait_again E P u =
    Some (fst (run_state (timed_wait E P) u) \<noteq> ETIMEDOUT, snd (run_state (timed_wait E P) u))"
  by (subst wait_again_step) simp


lemma sample_switch:
  "\<exists>u'. switchMode sample_roles (node_env (\<lambda>_. None)) (\<lambda>_. True) ''port0'' \<lparr>role_type = MODE, role_num = 2\<rparr> sample_usb =
     Some (True, u')"
proof -
  let ?E = "node_env (\<lambda>_. None)"
  have now: "last_round ?E (\<lambda>_. True) u" for u
    by (simp add: last_round_def timed_wait_def partner_added_def run_calls)
  have err: "fst (run_state (timed_wait ?E (\<lambda>_. True)) u) = 0" for u
    by (simp add: timed_wait_def partner_added_def node_env_def run_calls)
  show ?thesis
    by (simp add: switchMode_def write_mode_def end_switch_def wait_again_now [OF now] err ETIMEDOUT_def
        appendRoleNodeHelper_def run_calls) (simp add: node_env_def run_calls)
qed

theorem mode_switch_outcome_witness:
  "\<exists>t. answered_after (Fputs (appendRoleNodeHelper ''port0'' MODE) ''source'', Flag True) (Cv_signal, Void) t"
proof -
  obtain u' where run: "switchMode sample_roles (node_env (\<lambda>_. None)) (\<lambda>_. True) ''port0''
      \<lparr>role_type = MODE, role_num = 2\<rparr> sample_usb = Some (True, u')" using sample_switch by blast
  have names: "c_str ''port0'' = ''port0''"
    "convertRoletoString sample_roles \<lparr>role_type = MODE, role_num = 2\<rparr> = ''source''" by code_simp+
  from mode_switch_outcome [OF run] names show ?thesis by auto
qed

section \<open>What the client is told\<close>

definition role_notes :: "usb_call history \<Rightarrow> (string \<times> port_role \<times> usb_status) list" where
  "role_notes t = concat (map (\<lambda>e. case fst e of NotifyRoleSwitchStatus p r s \<Rightarrow> [(p, r, s)] | _ \<Rightarrow> []) t)"

lemma role_notes_append [simp]: "role_notes (t @ u) = role_notes t @ role_notes u"
  by (simp add: role_notes_def)

definition no_note :: "usb_call \<times> answer \<Rightarrow> bool" where
  "no_note e \<longleftrightarrow> (\<forall>p r s. fst e \<noteq> NotifyRoleSwitchStatus p r s)"

lemma role_notes_none: "list_all no_note t \<Longrightarrow> role_notes t = []"
  unfolding role_notes_def by (induction t) (auto simp: no_note_def split: usb_call.splits)

text \<open>The node took the role: the text was accepted, and reading the node gives it back.\<close>

definition accepted :: "string \<Rightarrow> string \<Rightarrow> usb_call history \<Rightarrow> bool" where
  "accepted node role t \<longleftrightarrow> (Fputs node role, Flag True) \<in> set t \<and>
     (\<exists>txt. (Read_node node, Text (Some txt)) \<in> set t \<and>
        extractRole (takeWhile (\<lambda>c. c \<noteq> LF \<and> c \<noteq> NUL) txt) = role)"

lemma c_str_role: "c_str (convertRoletoString K role) = convertRoletoString K role"
  by (simp add: convertRoletoString_def c_str_def)

lemma extractRole_Nil: "extractRole [] = []"
  by (simp add: extractRole_def)

definition node_call :: "usb_call \<times> answer \<Rightarrow> bool" where
  "node_call e \<longleftrightarrow> (case fst e of Fopen_w p \<Rightarrow> True | Fputs p x \<Rightarrow> True | Fclose p \<Rightarrow> True | Read_node p \<Rightarrow> True
     | _ \<Rightarrow> False)"

lemma node_call_no_note: "node_call e \<Longrightarrow> no_note e"
  by (auto simp: node_call_def no_note_def)

lemma write_role_callback: "mCallback (snd (run_state (write_role K E node role) u)) = mCallback u"
  by (rule preserves_snd [of mCallback], unfold write_role_def put_node_def readFile_def, intro preserves_intros)
    (auto split: prod.split intro!: preserves_intros)

lemma write_role_run:
  "\<exists>t. hist (snd (run_state (write_role K E node role) s)) = hist s @ t \<and> list_all node_call t \<and>
     fst (run_state (write_role K E node role) s) = accepted node (convertRoletoString K role) t"
proof -
  let ?role = "convertRoletoString K role"
  let ?s3 = "s\<lparr>hist := hist s @ [(Fopen_w node, Flag True), (Fputs node ?role, Flag True), (Fclose node, Void)]\<rparr>"
  consider (closed) "\<not> e_flag E (hist s) (Fopen_w node)"
    | (refused) "e_flag E (hist s) (Fopen_w node)" "\<not> e_flag E (hist s @ [(Fopen_w node, Flag True)]) (Fputs node ?role)"
    | (written) "e_flag E (hist s) (Fopen_w node)" "e_flag E (hist s @ [(Fopen_w node, Flag True)]) (Fputs node ?role)"
    by blast
  then show ?thesis
  proof cases
    case closed
    then show ?thesis
      by (simp add: write_role_def put_node_def run_calls accepted_def node_call_def)
  next
    case refused
    then show ?thesis
      by (simp add: write_role_def put_node_def run_calls accepted_def node_call_def c_str_role)
  next
    case written
    then show ?thesis
      by (auto simp: write_role_def put_node_def readFile_def run_calls accepted_def node_call_def c_str_role
          extractRole_Nil split: option.split)
  qed
qed


lemma no_note_round: "is_round t \<Longrightarrow> list_all no_note t"
  by (auto simp: is_round_def no_note_def)

lemma no_note_switch: "switch_trace node t \<Longrightarrow> list_all no_note t"
proof -
  have dual: "put_back node x \<Longrightarrow> list_all no_note x" for x
    by (auto simp: put_back_def no_note_def)
  have rounds: "list_all is_round ts \<Longrightarrow> list_all no_note (concat ts)" for ts
    by (induction ts) (auto dest: no_note_round)
  show "switch_trace node t \<Longrightarrow> list_all no_note t"
    by (auto simp: switch_trace_def dual rounds) (auto simp: no_note_def)
qed


lemma notify_role_run:
  "hist (snd (run_state (notify_role port role r) u)) = hist u @ (Lock CallbackLock, Void) #
     (if mCallback u \<noteq> No_callback
      then [(NotifyRoleSwitchStatus port role (if r then Status_SUCCESS else Status_ERROR), Void)] else []) @
     [(Unlock CallbackLock, Void), (Unlock RoleSwitchLock, Void)]"
  by (simp add: notify_role_def run_calls)

lemma role_notes_notify:
  "role_notes ((Lock CallbackLock, Void) #
     (if b then [(NotifyRoleSwitchStatus port role s, Void)] else []) @
     [(Unlock CallbackLock, Void), (Unlock RoleSwitchLock, Void)]) = (if b then [(port, role, s)] else [])"
  by (simp add: role_notes_def)

text \<open>What \<open>switchRole\<close> does, between taking \<open>mRoleSwitchLock\<close> and the notification.\<close>

lemma switchRole_run:
  assumes run: "switchRole K E P port role u = Some ((), u')"
    and node: "appendRoleNodeHelper (c_str port) (role_type role) \<noteq> []"
  shows "\<exists>r t. hist u' = hist u @ (Lock RoleSwitchLock, Void) # t @ (Lock CallbackLock, Void) #
       (if mCallback u \<noteq> No_callback
        then [(NotifyRoleSwitchStatus port role (if r then Status_SUCCESS else Status_ERROR), Void)] else []) @
       [(Unlock CallbackLock, Void), (Unlock RoleSwitchLock, Void)] \<and>
     (if role_type role = MODE
      then switch_trace (appendRoleNodeHelper (c_str port) MODE) t \<and>
        mode_outcome (appendRoleNodeHelper (c_str port) MODE) (convertRoletoString K role) r t
      else list_all node_call t \<and>
        r = accepted (appendRoleNodeHelper (c_str port) (role_type role)) (convertRoletoString K role) t)"
proof -
  let ?node = "appendRoleNodeHelper (c_str port) (role_type role)"
  let ?u = "u\<lparr>hist := hist u @ [(Lock RoleSwitchLock, Void)]\<rparr>"
  show ?thesis
  proof (cases "role_type role = MODE")
    case True
    with run node obtain r u2 where m: "switchMode K E P port role ?u = Some (r, u2)"
      and last: "run_state (notify_role port role r) u2 = ((), u')"
      by (auto simp: switchRole_def call_void_def bind_eq_Some_conv)
    from switchMode_run [OF m True] obtain t where t: "hist u2 = hist ?u @ t" "mCallback u2 = mCallback u"
      "switch_trace (appendRoleNodeHelper (c_str port) MODE) t"
      "mode_outcome (appendRoleNodeHelper (c_str port) MODE) (convertRoletoString K role) r t" by auto
    show ?thesis
      using notify_role_run [of port role r u2] last t True by (intro exI [of _ r] exI [of _ t]) simp
  next
    case False
    obtain r u2 where w: "run_state (write_role K E ?node role) ?u = (r, u2)"
      by (cases "run_state (write_role K E ?node role) ?u")
    with run node False have last: "run_state (notify_role port role r) u2 = ((), u')"
      by (simp add: switchRole_def call_void_def)
    from write_role_run [of K E ?node role ?u] w obtain t where t: "hist u2 = hist ?u @ t" "list_all node_call t"
      "r = accepted ?node (convertRoletoString K role) t" by auto
    have "mCallback u2 = mCallback u" using write_role_callback [of K E ?node role ?u] w by simp
    then show ?thesis
      using notify_role_run [of port role r u2] last t False by (intro exI [of _ r] exI [of _ t]) auto
  qed
qed




end
