(* ===== verification/UsbLocks.thy ===== *)
theory UsbLocks
  imports UsbSwitch
begin

text \<open>
  The lock discipline of the USB service: every operation takes the mutexes in one order, releases what
  it took, and calls the client only with \<open>mLock\<close> held.  The order is the \<open>linorder\<close> instance of
  \<open>mutex\<close>.
\<close>

section \<open>The order of the mutexes\<close>

primrec rank :: "mutex \<Rightarrow> nat" where
  "rank RoleSwitchLock = 0"
| "rank PartnerLock = 1"
| "rank CallbackLock = 2"

lemma rank_inj: "rank m = rank n \<longleftrightarrow> m = n"
  by (cases m; cases n) simp_all

instantiation mutex :: linorder
begin

definition less_eq_mutex :: "mutex \<Rightarrow> mutex \<Rightarrow> bool" where
  "less_eq_mutex m n \<longleftrightarrow> rank m \<le> rank n"

definition less_mutex :: "mutex \<Rightarrow> mutex \<Rightarrow> bool" where
  "less_mutex m n \<longleftrightarrow> rank m < rank n"

instance
  by standard (auto simp: less_eq_mutex_def less_mutex_def rank_inj [symmetric])

end

section \<open>The ledger\<close>

text \<open>
  The mutexes held, the last taken first.  \<open>None\<close>: a mutex is taken while one of the same or a higher
  rank is held, one is released that is not held, or the client is called without \<open>mLock\<close>.
\<close>

fun lock_step :: "mutex list \<Rightarrow> usb_call \<times> answer \<Rightarrow> mutex list option" where
  "lock_step held (Lock m, _) = (if list_all (\<lambda>h. h < m) held then Some (m # held) else None)"
| "lock_step held (Unlock m, _) = (if m \<in> set held then Some (remove1 m held) else None)"
| "lock_step held (Trylock m, Flag taken) =
     (if \<not> taken then Some held else if m \<in> set held then None else Some (m # held))"
| "lock_step held (Cv_wait_start, _) =
     (if PartnerLock \<in> set held then Some (remove1 PartnerLock held) else None)"
| "lock_step held (Cv_timedwait t, _) =
     (if list_all (\<lambda>h. h < PartnerLock) held then Some (PartnerLock # held) else None)"
| "lock_step held (NotifyRoleSwitchStatus _ _ _, _) = (if CallbackLock \<in> set held then Some held else None)"
| "lock_step held (NotifyPortStatusChange _ _, _) = (if CallbackLock \<in> set held then Some held else None)"
| "lock_step held (NotifyPortStatusChange_1_1 _ _, _) = (if CallbackLock \<in> set held then Some held else None)"
| "lock_step held _ = Some held"

fun lock_run :: "mutex list \<Rightarrow> usb_call history \<Rightarrow> mutex list option" where
  "lock_run held [] = Some held"
| "lock_run held (e # t) = (case lock_step held e of None \<Rightarrow> None | Some held \<Rightarrow> lock_run held t)"

lemma lock_run_append: "lock_run held (t @ u) = Option.bind (lock_run held t) (\<lambda>held. lock_run held u)"
  by (induction t arbitrary: held) (auto split: option.split)

definition lock_free :: "usb_call \<times> answer \<Rightarrow> bool" where
  "lock_free e \<longleftrightarrow> (\<forall>held. lock_step held e = Some held)"

lemma lock_run_free: "list_all lock_free t \<Longrightarrow> lock_run held t = Some held"
  by (induction t) (simp_all add: lock_free_def)

text \<open>\<open>balanced held m\<close>: started with \<open>held\<close>, \<open>m\<close> respects the discipline and ends with \<open>held\<close>.\<close>

definition balanced :: "mutex list \<Rightarrow> ((usb_call, 'm) world_scheme, 'a) state \<Rightarrow> bool" where
  "balanced held m \<longleftrightarrow> yields (\<lambda>_ t. lock_run held t = Some held) m"

named_theorems balanced_intros

lemma balanced_bind [balanced_intros]:
  "balanced held m \<Longrightarrow> (\<And>a. balanced held (f a)) \<Longrightarrow> balanced held (State_Monad.bind m f)"
  unfolding balanced_def by (erule yields_bind) (auto elim!: yields_mono simp: lock_run_append)

lemma balanced_return [balanced_intros]: "balanced held (State_Monad.return a)"
  and balanced_gets [balanced_intros]: "balanced held (gets f)"
  by (simp_all add: balanced_def yields_def)

lemma balanced_modify [balanced_intros]: "(\<And>s. hist (f s) = hist s) \<Longrightarrow> balanced held (modify f)"
  by (simp add: balanced_def yields_def)

lemma balanced_if [balanced_intros]:
  "(b \<Longrightarrow> balanced held m) \<Longrightarrow> (\<not> b \<Longrightarrow> balanced held n) \<Longrightarrow> balanced held (if b then m else n)"
  by simp

lemma balanced_case_option [balanced_intros]:
  "(x = None \<Longrightarrow> balanced held m) \<Longrightarrow> (\<And>y. x = Some y \<Longrightarrow> balanced held (f y)) \<Longrightarrow>
     balanced held (case x of None \<Rightarrow> m | Some y \<Rightarrow> f y)"
  by (simp split: option.split)

lemma balanced_case_prod [balanced_intros]:
  "(\<And>a b. x = (a, b) \<Longrightarrow> balanced held (f a b)) \<Longrightarrow> balanced held (case x of (a, b) \<Rightarrow> f a b)"
  by (simp split: prod.split)

lemma balanced_for_each [balanced_intros]:
  "(\<And>x. balanced held (f x)) \<Longrightarrow> balanced held (for_each xs f)"
  by (induction xs) (auto intro!: balanced_intros)

lemma balanced_free: "emits lock_free m \<Longrightarrow> balanced held m"
  unfolding balanced_def by (erule emits_yields) (rule lock_run_free)

text \<open>\<open>locks_to held held' m\<close>: \<open>m\<close> respects the discipline from \<open>held\<close> to \<open>held'\<close>.\<close>

definition locks_to :: "mutex list \<Rightarrow> mutex list \<Rightarrow> ((usb_call, 'm) world_scheme, 'a) state \<Rightarrow> bool" where
  "locks_to held held' m \<longleftrightarrow> yields (\<lambda>_ t. lock_run held t = Some held') m"

lemma locks_to_balanced: "balanced held m \<Longrightarrow> locks_to held held m"
  by (simp add: locks_to_def balanced_def)

lemma balanced_locks_to: "locks_to held held m \<Longrightarrow> balanced held m"
  by (simp add: locks_to_def balanced_def)

lemma locks_to_bind:
  "locks_to a b m \<Longrightarrow> (\<And>x. locks_to b c (f x)) \<Longrightarrow> locks_to a c (State_Monad.bind m f)"
  unfolding locks_to_def by (erule yields_bind) (auto elim!: yields_mono simp: lock_run_append)

lemma locks_to_lock: "list_all (\<lambda>h. h < m) held \<Longrightarrow> locks_to held (m # held) (call_void (Lock m))"
  unfolding locks_to_def by (rule yields_call_void) simp

lemma locks_to_unlock: "locks_to (m # held) held (call_void (Unlock m))"
  unfolding locks_to_def by (rule yields_call_void) simp

text \<open>A section between taking and releasing a mutex, at the end of a function or before more of it.\<close>

lemma locked_then:
  "list_all (\<lambda>h. h < m) held \<Longrightarrow> locks_to (m # held) held' rest \<Longrightarrow>
     locks_to held held' (do { call_void (Lock m); rest })"
  by (rule locks_to_bind [OF locks_to_lock])

lemma balanced_call_locked:
  "\<forall>a. lock_step held (c, a) = Some held \<Longrightarrow> balanced held (call_void c)"
  unfolding balanced_def by (rule yields_call_void) simp

section \<open>What takes no mutex\<close>

lemma lock_free_calls [simp]:
  "lock_free (Read_node p, a)" "lock_free (Fopen_w p, a)" "lock_free (Fputs p x, a)" "lock_free (Fclose p, a)"
  "lock_free (Opendir_typec p, a)" "lock_free (Closedir_typec p, a)" "lock_free (Cv_signal, a)"
  "lock_free (Clock_gettime, a)" "lock_free (Uevent_recv fd, a)" "lock_free (Pthread_create, a)"
  "lock_free (Signal_sigusr1, a)" "lock_free (Pthread_kill, a)" "lock_free (Pthread_join, a)"
  "lock_free (Trylock m, Flag False)"
  by (simp_all add: lock_free_def)

lemma free_readFile: "emits lock_free (readFile E f c)"
  unfolding readFile_def by (intro emits_intros) simp

lemma free_put_node: "emits lock_free (put_node E f c)"
  unfolding put_node_def by (intro emits_intros) simp_all

lemma free_getCurrentRole: "emits lock_free (getCurrentRoleHelper K E port c type cur)"
  unfolding getCurrentRoleHelper_def getAccessoryConnected_def read_role_def Let_def
  by (intro emits_intros free_readFile)

lemma free_port_status_of: "emits lock_free (port_status_of K M E V1_0 entry)"
  unfolding port_status_of_def canSwitchRoleHelper_def Let_def
  by (intro emits_intros free_getCurrentRole free_readFile)

lemma free_port_statuses: "emits lock_free (port_statuses K M E V1_0 ports)"
  by (induction ports) (auto intro!: emits_intros free_port_status_of split: sum.split prod.split)

lemma free_getPortStatus: "emits lock_free (getPortStatusHelper K M E order V1_0)"
  unfolding getPortStatusHelper_def getTypeCPortNamesHelper_def
  by (intro emits_intros free_port_statuses) simp_all

lemma free_switchToDrp: "emits lock_free (switchToDrp E port)"
  unfolding switchToDrp_def Let_def by (intro emits_intros free_put_node)

lemma free_check_port: "emits lock_free (check_port E st)"
  unfolding check_port_def Let_def by (intro emits_intros free_switchToDrp) simp_all

lemma free_auto_suspend: "emits lock_free (checkUsbDeviceAutoSuspend E path)"
  unfolding checkUsbDeviceAutoSuspend_def canUsbDeviceAutoSuspend_def writeFile_def
  by (intro emits_intros free_readFile free_put_node)


section \<open>Every operation\<close>

lemma balanced_report_ports:
  "CallbackLock \<in> set held \<Longrightarrow> balanced held (report_ports K M E order is_1_1)"
  unfolding report_ports_def
  by (intro balanced_intros balanced_free [OF free_getPortStatus] balanced_call_locked) simp_all

lemma balanced_partner_added: "list_all (\<lambda>h. h < PartnerLock) held \<Longrightarrow> balanced held partner_added"
  unfolding partner_added_def
  by (rule balanced_locks_to, rule locked_then, assumption,
      rule locks_to_bind [OF locks_to_balanced [OF balanced_modify]], simp,
      rule locks_to_bind [OF locks_to_balanced [OF balanced_call_locked]], simp,
      rule locks_to_unlock)

lemma balanced_queryPortStatus: "balanced [] (queryPortStatus K M E order)"
  unfolding queryPortStatus_def
  by (rule balanced_bind [OF balanced_gets], rule balanced_locks_to, rule locked_then, simp,
      rule locks_to_bind [OF locks_to_balanced [OF balanced_gets]],
      rule locks_to_bind [OF locks_to_balanced _ ], intro balanced_intros balanced_report_ports, simp,
      rule locks_to_unlock)

lemma balanced_trylock:
  fixes body :: "((usb_call, 'm) world_scheme, unit) state"
  assumes "m \<notin> set held" and "balanced (m # held) body"
  shows "balanced held (do { taken \<leftarrow> call_flag E (Trylock m);
     if taken then do { _ \<leftarrow> body; call_void (Unlock m) } else ret () })"
proof -
  have tried: "yields (\<lambda>b t. t = [(Trylock m, Flag b)]) (call_flag E (Trylock m) :: ((usb_call, 'm) world_scheme, bool) state)"
    by (rule yields_call_flag) simp
  have "locks_to (m # held) held (do { _ \<leftarrow> body; call_void (Unlock m) })"
    by (rule locks_to_bind [OF locks_to_balanced [OF assms(2)] locks_to_unlock])
  then show ?thesis
    unfolding balanced_def locks_to_def using assms(1)
    by (intro yields_bind [OF tried] yields_if yields_return)
      (auto elim!: yields_mono)
qed


lemma balanced_typec_changed: "balanced [] (typec_changed K M E order)"
proof -
  have section1: "locks_to [] [] (do {
     call_void (Lock CallbackLock);
     cb \<leftarrow> gets mCallback;
     sts \<leftarrow> (if cb \<noteq> No_callback then report_ports K M E order (cb = Callback_1_1) else ret []);
     call_void (Unlock CallbackLock); ret sts })"
    by (rule locked_then, simp, rule locks_to_bind [OF locks_to_balanced [OF balanced_gets]],
        rule locks_to_bind [OF locks_to_balanced], intro balanced_intros balanced_report_ports, simp,
        rule locks_to_bind [OF locks_to_unlock], rule locks_to_balanced, rule balanced_return)
  have "balanced [] (for_each sts (check_port E) :: unit usb_op)" for sts
    by (intro balanced_intros balanced_free [OF free_check_port])
  moreover have "balanced [RoleSwitchLock] (for_each sts (check_port E) :: unit usb_op)" for sts
    by (intro balanced_intros balanced_free [OF free_check_port])
  ultimately have rest: "balanced [] (do {
     taken \<leftarrow> call_flag E (Trylock RoleSwitchLock);
     if taken then do { for_each sts (check_port E); call_void (Unlock RoleSwitchLock) } else ret () } :: unit usb_op)"
    for sts by (intro balanced_trylock) simp_all
  have "typec_changed K M E order = do {
     sts \<leftarrow> do {
       call_void (Lock CallbackLock);
       cb \<leftarrow> gets mCallback;
       sts \<leftarrow> (if cb \<noteq> No_callback then report_ports K M E order (cb = Callback_1_1) else ret []);
       call_void (Unlock CallbackLock); ret sts };
     taken \<leftarrow> call_flag E (Trylock RoleSwitchLock);
     if taken then do { for_each sts (check_port E); call_void (Unlock RoleSwitchLock) } else ret () }"
    by (simp add: typec_changed_def)
  then show ?thesis
    by (simp only:) (rule balanced_bind [OF balanced_locks_to [OF section1] rest])
qed

lemma balanced_uevent_record: "balanced [] (uevent_record K M E order cp)"
  unfolding uevent_record_def
  by (intro balanced_intros balanced_partner_added balanced_typec_changed balanced_free [OF free_auto_suspend]) simp

lemma balanced_uevent_scan: "balanced [] (uevent_scan K M E order buf cp)"
proof (induction K M E order buf cp rule: uevent_scan.induct)
  case (1 K M E order buf cp)
  then show ?case
    by (subst uevent_scan.simps) (auto intro!: balanced_intros balanced_uevent_record)
qed

lemma balanced_uevent_event: "balanced [] (uevent_event K M E order fd)"
  unfolding uevent_event_def call_text_def [symmetric]
  by (intro balanced_intros balanced_uevent_scan balanced_free emits_call_text) simp

lemma balanced_setCallback: "balanced [] (setCallback E cb)"
proof -
  have num: "balanced held (call_num E c :: int usb_op)" if "\<And>a. lock_free (c, a)" for held c
    using that by (intro balanced_free emits_call_num)
  have void: "balanced held (call_void c :: unit usb_op)" if "lock_free (c, Void)" for held c
    using that by (intro balanced_free emits_call_void)
  have signal: "balanced held (call_void Signal_sigusr1 :: unit usb_op)" for held
    by (rule void) (rule lock_free_calls)
  show ?thesis unfolding setCallback_def sighandler_def
    by (rule balanced_locks_to, rule locked_then, simp,
        rule locks_to_bind [OF locks_to_balanced [OF balanced_gets]],
        rule locks_to_bind [OF locks_to_balanced [OF balanced_modify]], simp)
      (auto intro!: locks_to_unlock locks_to_bind [OF locks_to_unlock] locks_to_balanced balanced_intros num void
        locks_to_bind [OF locks_to_balanced [OF balanced_modify] locks_to_bind [OF locks_to_balanced [OF signal]
          locks_to_bind [OF locks_to_balanced [OF num] locks_to_bind [OF locks_to_balanced locks_to_unlock]]]])
qed

lemma lock_run_round: "is_round t \<Longrightarrow> lock_run [PartnerLock, RoleSwitchLock] t = Some [PartnerLock, RoleSwitchLock]"
  by (auto simp: is_round_def less_mutex_def)

lemma lock_run_rounds:
  "list_all is_round ts \<Longrightarrow> lock_run [PartnerLock, RoleSwitchLock] (concat ts) = Some [PartnerLock, RoleSwitchLock]"
  by (induction ts) (simp_all add: lock_run_append lock_run_round)

lemma lock_run_put_back: "put_back node t \<Longrightarrow> lock_run held t = Some held"
  by (auto simp: put_back_def)

lemma lock_run_switch: "switch_trace node t \<Longrightarrow> lock_run [RoleSwitchLock] t = Some [RoleSwitchLock]"
  unfolding switch_trace_def
  by (auto simp: lock_run_append lock_run_put_back lock_run_rounds less_mutex_def)

lemma node_call_free: "node_call e \<Longrightarrow> lock_free e"
  by (cases e) (auto simp: node_call_def split: usb_call.splits)

lemma lock_run_nodes: "list_all node_call t \<Longrightarrow> lock_run held t = Some held"
  by (rule lock_run_free) (auto simp: list_all_iff node_call_free)

lemma balanced_emitted: "balanced held m \<Longrightarrow> lock_run held (emitted m s) = Some held"
  unfolding balanced_def by (drule yields_emitted [where s = s]) simp

lemma lock_run_switchRole:
  assumes run: "switchRole K E P port role u = Some ((), u')"
  shows "\<exists>t. hist u' = hist u @ t \<and> lock_run [] t = Some []"
proof (cases "appendRoleNodeHelper (c_str port) (role_type role) = []")
  case True
  with run show ?thesis by (simp add: switchRole_def)
next
  case False
  from switchRole_run [OF run False] obtain r t where
    h: "hist u' = hist u @ (Lock RoleSwitchLock, Void) # t @ (Lock CallbackLock, Void) #
       (if mCallback u \<noteq> No_callback
        then [(NotifyRoleSwitchStatus port role (if r then Status_SUCCESS else Status_ERROR), Void)] else []) @
       [(Unlock CallbackLock, Void), (Unlock RoleSwitchLock, Void)]" and
    t: "switch_trace (appendRoleNodeHelper (c_str port) MODE) t \<or> list_all node_call t"
    by (auto split: if_splits)
  have "lock_run [RoleSwitchLock] t = Some [RoleSwitchLock]"
    using t by (auto dest: lock_run_switch lock_run_nodes)
  with h show ?thesis
    by (intro exI conjI) (assumption, auto simp: lock_run_append less_mutex_def)
qed


end
