(* ===== verification/UsbUevents.thy ===== *)
theory UsbUevents
  imports UsbLocks
begin

text \<open>
  The uevent thread and the registration of the callback: the walk over a kernel message stays inside
  the buffer and handles the records up to the first empty one, and there is a uevent thread exactly
  while a callback is registered.
\<close>

section \<open>The message\<close>

text \<open>The specification: the NUL-terminated records of a message, up to the first empty one.\<close>

function message_records :: "string \<Rightarrow> string list" where
  "message_records s =
     (if s = [] \<or> hd s = NUL then [] else c_str s # message_records (drop (length (c_str s) + 1) s))"
  by pat_completeness auto
termination by (relation "measure length") auto

declare message_records.simps [simp del]

fun handle_records ::
  "usb_roles \<Rightarrow> usb_modes \<Rightarrow> usb_call env \<Rightarrow> ((string \<times> bool) list \<Rightarrow> (string \<times> bool) list) \<Rightarrow>
     string list \<Rightarrow> unit usb_op" where
  "handle_records K M E order [] = ret ()"
| "handle_records K M E order (r # rs) = do {
     leave \<leftarrow> uevent_record K M E order r;
     if leave then ret () else handle_records K M E order rs
   }"

lemma c_str_terminated: "c_str (s @ [NUL, NUL]) = c_str s"
  by (induction s) (auto simp: c_str_def)

lemma length_c_str: "length (c_str s) \<le> length s"
  by (simp add: c_str_def length_takeWhile_le)

lemma uevent_scan_records:
  "cp \<le> length msg + 1 \<Longrightarrow> uevent_scan K M E order (msg @ [NUL, NUL]) cp =
     do { handle_records K M E order (message_records (drop cp msg)); ret (Some ()) }"
proof (induction "length msg + 1 - cp" arbitrary: cp rule: less_induct)
  case less
  let ?buf = "msg @ [NUL, NUL]"
  show ?case
  proof (cases "cp < length msg \<and> msg ! cp \<noteq> NUL")
    case False
    with less.prems have nul: "?buf ! cp = NUL" "\<not> length ?buf \<le> cp"
      by (auto simp: nth_append nth_Cons split: nat.splits)
    from False have "message_records (drop cp msg) = []"
      by (subst message_records.simps) (cases "cp < length msg"; simp add: hd_drop_conv_nth)
    with nul show ?thesis by (subst uevent_scan.simps) simp
  next
    case True
    let ?r = "c_str (drop cp msg)" and ?next = "cp + length (c_str (drop cp msg)) + 1"
    have eq: "c_str (drop cp ?buf) = ?r"
      using True c_str_terminated [of "drop cp msg"] by simp
    have "?next \<le> length msg + 1"
      using length_c_str [of "drop cp msg"] True by auto
    then have rest: "uevent_scan K M E order ?buf ?next =
        do { handle_records K M E order (message_records (drop ?next msg)); ret (Some ()) }"
      using True by (intro less.hyps) simp_all
    have "message_records (drop cp msg) = ?r # message_records (drop ?next msg)"
      using True by (subst message_records.simps) (simp add: hd_drop_conv_nth add.commute add.left_commute)
    moreover have "uevent_scan K M E order ?buf cp = do {
        leave \<leftarrow> uevent_record K M E order ?r;
        if leave then ret (Some ()) else uevent_scan K M E order ?buf ?next }"
      by (subst uevent_scan.simps, unfold eq) (use True in \<open>simp add: nth_append\<close>)
    moreover have "do { leave \<leftarrow> uevent_record K M E order ?r;
        if leave then ret (Some ())
        else do { handle_records K M E order (message_records (drop ?next msg)); ret (Some ()) } } =
      do { do { leave \<leftarrow> uevent_record K M E order ?r;
        if leave then ret () else handle_records K M E order (message_records (drop ?next msg)) }; ret (Some ()) }"
      by (rule state_ext) (simp add: split_beta)
    ultimately show ?thesis by (simp only: rest handle_records.simps)
  qed
qed

text \<open>
  C18. Whatever bytes a message has, also without a terminating NUL and with records of any length,
  the walk over the buffer never reads past its end, and handles exactly the records before the first
  empty one, in order, until one that reports a change of the type-C class.
\<close>

theorem uevent_scan_refines_records:
  "uevent_scan K M E order (msg @ [NUL, NUL]) 0 =
     do { handle_records K M E order (message_records msg); ret (Some ()) }"
  using uevent_scan_records [of 0 msg] by simp

section \<open>The callback and the thread\<close>

text \<open>Whether a thread runs: \<open>None\<close> if a second one is created or one is joined that does not exist.\<close>

definition thread_step :: "bool \<Rightarrow> usb_call \<times> answer \<Rightarrow> bool option" where
  "thread_step up e =
     (case e of
        (Pthread_create, Num r) \<Rightarrow> if r \<noteq> 0 then Some up else if up then None else Some True
      | (Pthread_join, _) \<Rightarrow> if up then Some False else None
      | _ \<Rightarrow> Some up)"

primrec threads :: "bool \<Rightarrow> usb_call history \<Rightarrow> bool option" where
  "threads up [] = Some up"
| "threads up (e # t) = Option.bind (thread_step up e) (\<lambda>up. threads up t)"

lemma threads_append: "threads up (t @ u) = Option.bind (threads up t) (\<lambda>up. threads up u)"
  by (induction t arbitrary: up) (simp_all add: Option.bind_assoc)

definition registered :: "usb \<Rightarrow> bool" where
  "registered u \<longleftrightarrow> worker u = (mCallback u \<noteq> No_callback) \<and> threads False (hist u) = Some (worker u)"

lemma setCallback_registered:
  assumes "\<And>h. e_num E h Pthread_kill = 0" and "registered u"
  shows "wp (setCallback E cb) (\<lambda>_. registered) u"
  using assms unfolding setCallback_def sighandler_def registered_def
  by (auto simp: wp_rules Let_def threads_append thread_step_def)

text \<open>
  Over any sequence of registrations, where \<open>pthread_kill\<close> finds the thread it is meant for,
  there is one uevent thread while a callback is registered and none otherwise: each is joined before
  the next is created, and a thread that could not be created leaves no callback behind.
\<close>

theorem worker_iff_callback:
  assumes "\<And>h. e_num E h Pthread_kill = 0"
  shows "let u = snd (run_state (for_each cbs (setCallback E)) new_usb) in
     worker u = (mCallback u \<noteq> No_callback) \<and> threads False (hist u) = Some (worker u)"
proof -
  have "registered u \<Longrightarrow> registered (snd (run_state (for_each cbs (setCallback E)) u))" for u
  proof (induction cbs arbitrary: u)
    case (Cons cb cbs)
    from setCallback_registered [OF assms Cons.prems] have "registered (snd (run_state (setCallback E cb) u))"
      by (simp add: wp_iff)
    with Cons.IH show ?case by (simp add: split_beta)
  qed simp
  moreover have "registered new_usb" by (simp add: registered_def new_usb_def)
  ultimately show ?thesis by (simp add: Let_def registered_def)
qed

theorem worker_iff_callback_witness:
  "worker (snd (run_state (for_each [Callback_1_0, No_callback, Callback_1_1] (setCallback (node_env (\<lambda>_. None)))) new_usb))"
proof -
  have kill: "e_num (node_env (\<lambda>_. None)) h Pthread_kill = 0" for h by (simp add: node_env_def)
  have "mCallback (snd (run_state (for_each [Callback_1_0, No_callback, Callback_1_1]
      (setCallback (node_env (\<lambda>_. None)))) new_usb)) = Callback_1_1" by code_simp
  with worker_iff_callback [OF kill, of "[Callback_1_0, No_callback, Callback_1_1]"] show ?thesis
    by (simp add: Let_def)
qed

end
