(* ===== verification/UsbHandshake.thy ===== *)
theory UsbHandshake
  imports UsbUevents
begin

text \<open>
  The handshake between \<open>switchMode\<close> and the uevent thread in \<open>usb/Usb.cpp\<close>, step by step: every
  interleaving of the two threads and the kernel, with the mutex \<open>mPartnerLock\<close> and the condition
  variable \<open>mPartnerCV\<close>.  There is one switching thread: \<open>switchRole\<close> holds \<open>mRoleSwitchLock\<close> throughout.
  The comment in the code says why the mutex is taken before the node is written; the invariant proves it:
  a partner event that the write causes and that has been handled is in \<open>mPartnerUp\<close>, and a thread that
  waits has been signalled.  What it does not give is shown too: after a timeout the thread does not look
  at \<open>mPartnerUp\<close>, so an event that comes in by then is not used (\<open>late_partner_ignored\<close> in \<open>UsbHandshakeRuns\<close>).
\<close>

section \<open>The steps\<close>

datatype switch_pc = Before | Locked | Cleared | Written | Waiting | Woken | Timed_out | Succeeded | Failed

datatype uevent_pc = Idle | Seen | Holding | Up_set | Sent

datatype owner = Switcher | Uevents

record handshake =
  s_pc :: switch_pc
  u_pc :: uevent_pc
  lock_owner :: "owner option"
  up_flag :: bool            \<comment> \<open>\<open>mPartnerUp\<close>\<close>
  woken :: bool              \<comment> \<open>the waiter was signalled\<close>
  pending_old :: bool        \<comment> \<open>a partner event from before the write is queued\<close>
  pending_new :: bool        \<comment> \<open>one that the write caused is queued\<close>
  fresh :: bool              \<comment> \<open>the event the uevent thread handles is one of those\<close>
  delivered :: bool          \<comment> \<open>such an event was handled completely\<close>

definition handshake_start :: "bool \<Rightarrow> bool \<Rightarrow> handshake" where
  "handshake_start old up = \<lparr>s_pc = Before, u_pc = Idle, lock_owner = None, up_flag = up, woken = False,
     pending_old = old, pending_new = False, fresh = False, delivered = False\<rparr>"

text \<open>The switching thread, from taking \<open>mPartnerLock\<close> to releasing it; a wait may also end without a signal.\<close>

inductive switcher_step :: "handshake \<Rightarrow> handshake \<Rightarrow> bool" where
  take_lock: "s_pc h = Before \<Longrightarrow> lock_owner h = None \<Longrightarrow>
     switcher_step h (h\<lparr>s_pc := Locked, lock_owner := Some Switcher\<rparr>)"
| clear: "s_pc h = Locked \<Longrightarrow> switcher_step h (h\<lparr>s_pc := Cleared, up_flag := False\<rparr>)"
| write_node: "s_pc h = Cleared \<Longrightarrow> switcher_step h (h\<lparr>s_pc := Written\<rparr>)"
| write_failed: "s_pc h = Cleared \<Longrightarrow> switcher_step h (h\<lparr>s_pc := Failed, lock_owner := None\<rparr>)"
| begin_wait: "s_pc h = Written \<Longrightarrow>
     switcher_step h (h\<lparr>s_pc := Waiting, lock_owner := None, woken := False\<rparr>)"
| wait_again: "s_pc h = Woken \<Longrightarrow> \<not> up_flag h \<Longrightarrow>
     switcher_step h (h\<lparr>s_pc := Waiting, lock_owner := None, woken := False\<rparr>)"
| wake: "s_pc h = Waiting \<Longrightarrow> lock_owner h = None \<Longrightarrow>
     switcher_step h (h\<lparr>s_pc := Woken, lock_owner := Some Switcher\<rparr>)"
| time_out: "s_pc h = Waiting \<Longrightarrow> lock_owner h = None \<Longrightarrow>
     switcher_step h (h\<lparr>s_pc := Timed_out, lock_owner := Some Switcher\<rparr>)"
| success: "s_pc h = Woken \<Longrightarrow> up_flag h \<Longrightarrow>
     switcher_step h (h\<lparr>s_pc := Succeeded, lock_owner := None\<rparr>)"
| give_up: "s_pc h = Timed_out \<Longrightarrow> switcher_step h (h\<lparr>s_pc := Failed, lock_owner := None\<rparr>)"

text \<open>The uevent thread: fetching an event, and the statements for \<open>partner added\<close>.\<close>

inductive uevent_step :: "handshake \<Rightarrow> handshake \<Rightarrow> bool" where
  see_old: "u_pc h = Idle \<Longrightarrow> pending_old h \<Longrightarrow>
     uevent_step h (h\<lparr>u_pc := Seen, pending_old := False, fresh := False\<rparr>)"
| see_new: "u_pc h = Idle \<Longrightarrow> pending_new h \<Longrightarrow>
     uevent_step h (h\<lparr>u_pc := Seen, pending_new := False, fresh := True\<rparr>)"
| uevent_lock: "u_pc h = Seen \<Longrightarrow> lock_owner h = None \<Longrightarrow>
     uevent_step h (h\<lparr>u_pc := Holding, lock_owner := Some Uevents\<rparr>)"
| set_up: "u_pc h = Holding \<Longrightarrow> uevent_step h (h\<lparr>u_pc := Up_set, up_flag := True\<rparr>)"
| send_signal: "u_pc h = Up_set \<Longrightarrow>
     uevent_step h (h\<lparr>u_pc := Sent, woken := woken h \<or> s_pc h = Waiting\<rparr>)"
| uevent_unlock: "u_pc h = Sent \<Longrightarrow>
     uevent_step h (h\<lparr>u_pc := Idle, lock_owner := None, delivered := delivered h \<or> fresh h\<rparr>)"

text \<open>Any step of one of them, or the kernel queues a partner event that the write caused.\<close>

inductive handshake_step :: "handshake \<Rightarrow> handshake \<Rightarrow> bool" where
  switcher: "switcher_step h h' \<Longrightarrow> handshake_step h h'"
| uevents: "uevent_step h h' \<Longrightarrow> handshake_step h h'"
| partner_event: "s_pc h \<in> {Written, Waiting, Woken, Timed_out, Succeeded} \<Longrightarrow>
     handshake_step h (h\<lparr>pending_new := True\<rparr>)"

inductive handshake_reachable :: "handshake \<Rightarrow> bool" where
  start: "handshake_reachable (handshake_start old up)"
| step: "handshake_reachable h \<Longrightarrow> handshake_step h h' \<Longrightarrow> handshake_reachable h'"

inductive_cases switcher_stepE: "switcher_step h h'"
inductive_cases uevent_stepE: "uevent_step h h'"
inductive_cases handshake_stepE: "handshake_step h h'"

lemmas step_elims = handshake_stepE switcher_stepE uevent_stepE

section \<open>The invariant\<close>

definition holds_switcher :: "switch_pc \<Rightarrow> bool" where
  "holds_switcher pc \<longleftrightarrow> pc \<in> {Locked, Cleared, Written, Woken, Timed_out}"

definition holds_uevents :: "uevent_pc \<Rightarrow> bool" where
  "holds_uevents pc \<longleftrightarrow> pc \<in> {Holding, Up_set, Sent}"

definition written_pc :: "switch_pc \<Rightarrow> bool" where
  "written_pc pc \<longleftrightarrow> pc \<notin> {Before, Locked, Cleared}"

definition handshake_inv :: "handshake \<Rightarrow> bool" where
  "handshake_inv h \<longleftrightarrow>
     (holds_switcher (s_pc h) \<longleftrightarrow> lock_owner h = Some Switcher) \<and>
     (holds_uevents (u_pc h) \<longleftrightarrow> lock_owner h = Some Uevents) \<and>
     (pending_new h \<or> u_pc h \<noteq> Idle \<and> fresh h \<or> delivered h \<longrightarrow> written_pc (s_pc h)) \<and>
     (delivered h \<or> fresh h \<and> u_pc h \<in> {Up_set, Sent} \<longrightarrow> up_flag h \<and> s_pc h \<noteq> Written) \<and>
     (delivered h \<or> fresh h \<and> u_pc h = Sent \<longrightarrow> s_pc h = Waiting \<longrightarrow> woken h)"

lemmas handshake_defs = handshake_inv_def holds_switcher_def holds_uevents_def written_pc_def

lemma handshake_inv_start: "handshake_inv (handshake_start old up)"
  by (simp add: handshake_inv_def handshake_start_def holds_switcher_def holds_uevents_def)

lemma switcher_inv: "switcher_step h h' \<Longrightarrow> handshake_inv h \<Longrightarrow> handshake_inv h'"
proof (induction rule: switcher_step.induct)
  case (clear h)
  then show ?case by (cases "u_pc h") (auto simp: handshake_defs)
next
  case (write_node h)
  then show ?case by (cases "u_pc h") (auto simp: handshake_defs)
next
  case (begin_wait h)
  then show ?case by (cases "u_pc h") (auto simp: handshake_defs)
qed (simp_all add: handshake_defs)

lemma uevent_inv: "uevent_step h h' \<Longrightarrow> handshake_inv h \<Longrightarrow> handshake_inv h'"
proof (induction rule: uevent_step.induct)
  case (see_new h)
  then show ?case by (cases "s_pc h") (auto simp: handshake_defs)
next
  case (set_up h)
  then show ?case by (cases "s_pc h") (auto simp: handshake_defs)
qed (simp_all add: handshake_defs)

lemma handshake_inv_step: "handshake_step h h' \<Longrightarrow> handshake_inv h \<Longrightarrow> handshake_inv h'"
proof (induction rule: handshake_step.induct)
  case (partner_event h)
  then show ?case by (cases "s_pc h") (auto simp: handshake_defs)
qed (simp_all add: switcher_inv uevent_inv)

lemma handshake_reachable_inv: "handshake_reachable h \<Longrightarrow> handshake_inv h"
  by (induction rule: handshake_reachable.induct) (auto intro: handshake_inv_start handshake_inv_step)

text \<open>
  C23. No wake-up is lost: in every interleaving, once the uevent thread has handled a partner event
  that the write caused, \<open>mPartnerUp\<close> is set, also if an older event was handled before; the switching
  thread, if it still waits, has been signalled, and once woken it does not wait again.
\<close>

theorem no_lost_wakeup:
  assumes "handshake_reachable h" and "delivered h"
  shows "up_flag h \<and> (s_pc h = Waiting \<longrightarrow> woken h) \<and> (handshake_step h h' \<longrightarrow> s_pc h = Woken \<longrightarrow> s_pc h' \<noteq> Waiting)"
proof -
  from handshake_reachable_inv [OF assms(1)] assms(2) have inv: "up_flag h" "s_pc h = Waiting \<longrightarrow> woken h"
    unfolding handshake_inv_def by auto
  moreover have "handshake_step h h' \<Longrightarrow> s_pc h = Woken \<Longrightarrow> s_pc h' \<noteq> Waiting"
    by (elim step_elims) (use inv(1) in auto)
  ultimately show ?thesis by blast
qed


text \<open>A run: the write causes a partner event, which is handled while the switching thread waits.\<close>

theorem no_lost_wakeup_witness:
  "\<exists>h. handshake_reachable h \<and> s_pc h = Waiting \<and> u_pc h = Idle \<and> woken h"
proof -
  note go = handshake_reachable.step
  let ?h = "\<lambda>s u l up w n f d. \<lparr>s_pc = s, u_pc = u, lock_owner = l, up_flag = up, woken = w, pending_old = False,
     pending_new = n, fresh = f, delivered = d\<rparr>"
  have "handshake_reachable (?h Before Idle None False False False False False)"
    using handshake_reachable.start [of False False] by (simp add: handshake_start_def)
  from go [OF this handshake_step.switcher [OF take_lock]] have "handshake_reachable (?h Locked Idle (Some Switcher) False False False False False)"
    by simp
  from go [OF this handshake_step.switcher [OF clear]] have "handshake_reachable (?h Cleared Idle (Some Switcher) False False False False False)"
    by simp
  from go [OF this handshake_step.switcher [OF write_node]] have "handshake_reachable (?h Written Idle (Some Switcher) False False False False False)"
    by simp
  from go [OF this handshake_step.switcher [OF begin_wait]] have "handshake_reachable (?h Waiting Idle None False False False False False)"
    by simp
  from go [OF this partner_event] have "handshake_reachable (?h Waiting Idle None False False True False False)"
    by simp
  from go [OF this handshake_step.uevents [OF see_new]] have "handshake_reachable (?h Waiting Seen None False False False True False)"
    by simp
  from go [OF this handshake_step.uevents [OF uevent_lock]] have "handshake_reachable (?h Waiting Holding (Some Uevents) False False False True False)"
    by simp
  from go [OF this handshake_step.uevents [OF set_up]] have "handshake_reachable (?h Waiting Up_set (Some Uevents) True False False True False)"
    by simp
  from go [OF this handshake_step.uevents [OF send_signal]] have "handshake_reachable (?h Waiting Sent (Some Uevents) True True False True False)"
    by simp
  from go [OF this handshake_step.uevents [OF uevent_unlock]] have r: "handshake_reachable (?h Waiting Idle None True True False True True)"
    by simp
  from no_lost_wakeup [OF r] r show ?thesis by (intro exI [of _ "?h Waiting Idle None True True False True True"]) simp
qed

end
