(* ===== verification/UsbHandshakeRuns.thy ===== *)
theory UsbHandshakeRuns
  imports UsbHandshake WaitProtocol
begin

text \<open>
  The code of \<open>switchMode\<close> and of the uevent thread as runs of the handshake: each step of the relation
  stands for certain calls, and the calls of every run of \<open>switchMode\<close> are those of a path of the
  relation.  So what is proved of all interleavings of the relation speaks about the code.
\<close>

section \<open>The calls of a step\<close>

definition now_waiting :: "usb_call history \<Rightarrow> bool" where
  "now_waiting t \<longleftrightarrow> (\<exists>now. t = [(Clock_gettime, Num now), (Cv_wait_start, Void)])"

definition wait_over :: "bool \<Rightarrow> usb_call history \<Rightarrow> bool" where
  "wait_over timeout t \<longleftrightarrow> (\<exists>u err. t = [(Cv_timedwait u, Num err)] \<and> (err = ETIMEDOUT) = timeout)"

text \<open>By the program counter before and after: first the switching thread, then the uevent thread.\<close>

fun switcher_calls :: "string \<Rightarrow> string \<Rightarrow> switch_pc \<Rightarrow> switch_pc \<Rightarrow> usb_call history \<Rightarrow> bool" where
  "switcher_calls node role Before Locked t = (t = [(Lock PartnerLock, Void)])"
| "switcher_calls node role Locked Cleared t = (t = [])"
| "switcher_calls node role Cleared Written t = (t = [(Fputs node role, Flag True), (Fclose node, Void)])"
| "switcher_calls node role Cleared Failed t =
     (t = [(Fputs node role, Flag False), (Fclose node, Void), (Unlock PartnerLock, Void)])"
| "switcher_calls node role Written Waiting t = now_waiting t"
| "switcher_calls node role Woken Waiting t = now_waiting t"
| "switcher_calls node role Waiting Woken t = wait_over False t"
| "switcher_calls node role Waiting Timed_out t = wait_over True t"
| "switcher_calls node role Woken Succeeded t = (t = [(Unlock PartnerLock, Void)])"
| "switcher_calls node role Timed_out Failed t = (t = [(Unlock PartnerLock, Void)])"
| "switcher_calls node role _ _ t = False"

fun uevent_calls :: "uevent_pc \<Rightarrow> uevent_pc \<Rightarrow> usb_call history \<Rightarrow> bool" where
  "uevent_calls Seen Holding t = (t = [(Lock PartnerLock, Void)])"
| "uevent_calls Up_set Sent t = (t = [(Cv_signal, Void)])"
| "uevent_calls Sent Idle t = (t = [(Unlock PartnerLock, Void)])"
| "uevent_calls _ _ t = (t = [])"

definition step_calls :: "string \<Rightarrow> string \<Rightarrow> handshake \<Rightarrow> handshake \<Rightarrow> usb_call history \<Rightarrow> bool" where
  "step_calls node role h h' t \<longleftrightarrow>
     (if s_pc h \<noteq> s_pc h' then switcher_calls node role (s_pc h) (s_pc h') t else uevent_calls (u_pc h) (u_pc h') t)"

abbreviation handshake_run :: "string \<Rightarrow> string \<Rightarrow> handshake \<Rightarrow> usb_call history \<Rightarrow> handshake \<Rightarrow> bool" where
  "handshake_run node role \<equiv> labelled_run handshake_step (step_calls node role)"

lemma run_reachable: "handshake_run node role h t h' \<Longrightarrow> handshake_reachable h \<Longrightarrow> handshake_reachable h'"
  by (induction rule: labelled_run.induct) (auto intro: handshake_reachable.step)

section \<open>The uevent thread\<close>

text \<open>\<open>partner_added\<close> while the switching thread waits.\<close>

definition after_partner :: "handshake \<Rightarrow> handshake" where
  "after_partner h = h\<lparr>pending_new := False, fresh := True, up_flag := True, woken := True, u_pc := Idle,
     lock_owner := None, delivered := True\<rparr>"

lemma partner_run:
  assumes "s_pc h = Waiting" and "u_pc h = Idle" and "lock_owner h = None"
  shows "handshake_run node role h [(Lock PartnerLock, Void), (Cv_signal, Void), (Unlock PartnerLock, Void)] (after_partner h)"
proof -
  let ?h1 = "h\<lparr>pending_new := True\<rparr>" and ?h2 = "h\<lparr>u_pc := Seen, pending_new := False, fresh := True\<rparr>"
  let ?h3 = "?h2\<lparr>u_pc := Holding, lock_owner := Some Uevents\<rparr>"
  let ?h4 = "?h3\<lparr>u_pc := Up_set, up_flag := True\<rparr>" let ?h5 = "?h4\<lparr>u_pc := Sent, woken := True\<rparr>"
  have 1: "handshake_run node role h [] ?h1"
    using assms by (intro run_step handshake_step.partner_event) (simp_all add: step_calls_def)
  have 2: "handshake_run node role ?h1 [] ?h2"
    using assms handshake_step.uevents [OF uevent_step.see_new [of ?h1]] by (intro run_step) (simp_all add: step_calls_def)
  have 3: "handshake_run node role ?h2 [(Lock PartnerLock, Void)] ?h3"
    using assms by (intro run_step handshake_step.uevents [OF uevent_step.uevent_lock]) (simp_all add: step_calls_def)
  have 4: "handshake_run node role ?h3 [] ?h4"
    by (intro run_step handshake_step.uevents [OF uevent_step.set_up]) (simp_all add: step_calls_def)
  have 5: "handshake_run node role ?h4 [(Cv_signal, Void)] ?h5"
    using assms handshake_step.uevents [OF uevent_step.send_signal [of ?h4]] by (intro run_step) (simp_all add: step_calls_def)
  have 6: "handshake_run node role ?h5 [(Unlock PartnerLock, Void)] (after_partner h)"
    using handshake_step.uevents [OF uevent_step.uevent_unlock [of ?h5]] by (intro run_step) (simp_all add: step_calls_def after_partner_def)
  from run_trans [OF 1 run_trans [OF 2 run_trans [OF 3 run_trans [OF 4 run_trans [OF 5 6]]]]]
  show ?thesis by simp
qed

section \<open>The switching thread\<close>

text \<open>The state of the relation at the head of the wait loop, with the mutex held.\<close>

definition at_wait :: "handshake \<Rightarrow> usb \<Rightarrow> bool" where
  "at_wait h u \<longleftrightarrow> (s_pc h = Written \<or> s_pc h = Woken \<and> \<not> up_flag h) \<and> lock_owner h = Some Switcher \<and>
     u_pc h = Idle \<and> up_flag h = mPartnerUp u"

definition wait_left :: "handshake \<Rightarrow> bool \<Rightarrow> usb \<Rightarrow> bool" where
  "wait_left h timeout u \<longleftrightarrow> s_pc h = (if timeout then Timed_out else Woken) \<and> lock_owner h = Some Switcher \<and>
     u_pc h = Idle \<and> up_flag h = mPartnerUp u"

lemma start_waiting:
  assumes "at_wait h u"
  shows "handshake_run node role h [(Clock_gettime, Num now), (Cv_wait_start, Void)]
    (h\<lparr>s_pc := Waiting, lock_owner := None, woken := False\<rparr>)"
  using assms unfolding at_wait_def
  by (elim conjE disjE; intro run_step handshake_step.switcher [OF switcher_step.begin_wait] handshake_step.switcher [OF switcher_step.wait_again])
    (simp_all add: step_calls_def now_waiting_def)

lemma stop_waiting:
  assumes "s_pc h = Waiting" and "lock_owner h = None" and "u_pc h = Idle" and "up_flag h = mPartnerUp u"
  shows "\<exists>h'. handshake_run node role h [(Cv_timedwait w, Num err)] h' \<and> wait_left h' (err = ETIMEDOUT) u"
proof (cases "err = ETIMEDOUT")
  case True
  with assms show ?thesis
    by (intro exI [of _ "h\<lparr>s_pc := Timed_out, lock_owner := Some Switcher\<rparr>"] conjI run_step handshake_step.switcher [OF switcher_step.time_out])
      (simp_all add: step_calls_def wait_over_def wait_left_def)
next
  case False
  with assms show ?thesis
    by (intro exI [of _ "h\<lparr>s_pc := Woken, lock_owner := Some Switcher\<rparr>"] conjI run_step handshake_step.switcher [OF switcher_step.wake])
      (simp_all add: step_calls_def wait_over_def wait_left_def)
qed

lemma timed_wait_handshake:
  assumes at: "at_wait h u" and r: "run_state (timed_wait E P) u = (err, u1)"
  shows "\<exists>t h'. hist u1 = hist u @ t \<and> handshake_run node role h t h' \<and> wait_left h' (err = ETIMEDOUT) u1"
proof -
  let ?now = "e_num E (hist u) Clock_gettime" and ?w = "h\<lparr>s_pc := Waiting, lock_owner := None, woken := False\<rparr>"
  let ?start = "[(Clock_gettime, Num ?now), (Cv_wait_start, Void)]"
  let ?p = "if P (hist u @ ?start) then [(Lock PartnerLock, Void), (Cv_signal, Void), (Unlock PartnerLock, Void)] else []"
  let ?q = "if P (hist u @ ?start) then after_partner ?w else ?w"
  let ?over = "[(Cv_timedwait (?now + PORT_TYPE_TIMEOUT), Num err)]"
  have u1: "hist u1 = hist u @ ?start @ ?p @ ?over" "mPartnerUp u1 = (mPartnerUp u \<or> P (hist u @ ?start))"
    using r by (cases "P (hist u @ ?start)"; auto simp: timed_wait_def partner_added_def run_calls)+
  have mid: "handshake_run node role ?w ?p ?q"
    using at partner_run [of ?w] labelled_run.stay by (auto simp: at_wait_def)
  have q: "s_pc ?q = Waiting" "lock_owner ?q = None" "u_pc ?q = Idle" "up_flag ?q = mPartnerUp u1"
    using at u1(2) by (auto simp: at_wait_def after_partner_def)
  obtain h' where fin: "handshake_run node role ?q ?over h'" "wait_left h' (err = ETIMEDOUT) u1"
    using stop_waiting [OF q] by blast
  from run_trans [OF start_waiting [OF at] run_trans [OF mid fin(1)]] fin(2) u1(1) show ?thesis
    by (intro exI [of _ "?start @ ?p @ ?over"] exI [of _ h'] conjI) simp_all
qed

definition wait_handshake :: "usb \<Rightarrow> bool \<times> usb \<Rightarrow> bool" where
  "wait_handshake u y \<longleftrightarrow> (\<forall>node role h. at_wait h u \<longrightarrow>
     (\<exists>t h'. hist (snd y) = hist u @ t \<and> handshake_run node role h t h' \<and> wait_left h' (\<not> fst y) (snd y) \<and>
        (fst y \<longrightarrow> up_flag h')))"

lemma wait_handshake_step:
  assumes prev: "\<And>u y. self u = Some y \<Longrightarrow> wait_handshake u y"
    and body: "(case run_state (timed_wait E P) u of (err, u) \<Rightarrow>
        if err = ETIMEDOUT then Some (False, u) else if \<not> mPartnerUp u then self u else Some (True, u)) = Some y"
  shows "wait_handshake u y"
  unfolding wait_handshake_def
proof (intro allI impI)
  fix node role h
  assume at: "at_wait h u"
  obtain err u1 where r: "run_state (timed_wait E P) u = (err, u1)" by (cases "run_state (timed_wait E P) u")
  from timed_wait_handshake [OF at r, of node role] obtain t h1 where t: "hist u1 = hist u @ t"
    "handshake_run node role h t h1" "wait_left h1 (err = ETIMEDOUT) u1" by blast
  show "\<exists>t h'. hist (snd y) = hist u @ t \<and> handshake_run node role h t h' \<and> wait_left h' (\<not> fst y) (snd y) \<and>
      (fst y \<longrightarrow> up_flag h')"
  proof (cases "err \<noteq> ETIMEDOUT \<and> \<not> mPartnerUp u1")
    case True
    with body r have "self u1 = Some y" by simp
    from prev [OF this] t(3) True obtain t2 h2 where "hist (snd y) = hist u1 @ t2" "handshake_run node role h1 t2 h2"
      "wait_left h2 (\<not> fst y) (snd y)" "fst y \<longrightarrow> up_flag h2"
      unfolding wait_handshake_def at_wait_def wait_left_def by (metis (full_types))
    with t(1) run_trans [OF t(2)] show ?thesis by (metis append_assoc)
  next
    case False
    with body r have "y = (err \<noteq> ETIMEDOUT, u1)" by (auto split: if_splits)
    with t False show ?thesis by (auto simp: wait_left_def)
  qed
qed

lemma wait_again_handshake: "wait_again E P u = Some y \<Longrightarrow> wait_handshake u y"
  by (rule wait_again.raw_induct [of "\<lambda>((E, P), u) y. wait_handshake u y", simplified])
    (rule wait_handshake_step [rotated], assumption, auto)

section \<open>A mode switch is a run of the handshake\<close>

lemma end_switch_partner: "mPartnerUp (snd (run_state (end_switch E port r) u)) = mPartnerUp u"
  by (simp add: end_switch_def switchToDrp_def put_node_def run_calls)

abbreviation written_state :: "bool \<Rightarrow> handshake" where
  "written_state up \<equiv> (handshake_start False up)\<lparr>s_pc := Written, lock_owner := Some Switcher, up_flag := False\<rparr>"

lemma lock_and_clear:
  "handshake_run node role (handshake_start False up) [(Lock PartnerLock, Void)]
     ((handshake_start False up)\<lparr>s_pc := Cleared, lock_owner := Some Switcher, up_flag := False\<rparr>)"
proof -
  let ?h = "(handshake_start False up)\<lparr>s_pc := Locked, lock_owner := Some Switcher\<rparr>"
  have 1: "handshake_run node role (handshake_start False up) [(Lock PartnerLock, Void)] ?h"
    by (intro run_step handshake_step.switcher [OF switcher_step.take_lock]) (simp_all add: step_calls_def handshake_start_def)
  have 2: "handshake_run node role ?h [] (?h\<lparr>s_pc := Cleared, up_flag := False\<rparr>)"
    by (intro run_step handshake_step.switcher [OF switcher_step.clear]) (simp_all add: step_calls_def)
  from run_trans [OF 1 2] show ?thesis by (simp add: handshake_start_def)
qed

lemma write_run:
  "handshake_run node role (handshake_start False up)
     [(Lock PartnerLock, Void), (Fputs node role, Flag True), (Fclose node, Void)] (written_state up)"
proof -
  let ?h = "(handshake_start False up)\<lparr>s_pc := Cleared, lock_owner := Some Switcher, up_flag := False\<rparr>"
  have "handshake_run node role ?h [(Fputs node role, Flag True), (Fclose node, Void)] (?h\<lparr>s_pc := Written\<rparr>)"
    by (intro run_step handshake_step.switcher [OF switcher_step.write_node]) (simp_all add: step_calls_def)
  from run_trans [OF lock_and_clear this] show ?thesis by (simp add: handshake_start_def)
qed

lemma write_fails:
  "\<exists>h. handshake_run node role (handshake_start False up)
     [(Lock PartnerLock, Void), (Fputs node role, Flag False), (Fclose node, Void), (Unlock PartnerLock, Void)] h \<and>
     s_pc h = Failed \<and> \<not> up_flag h"
proof -
  let ?h = "(handshake_start False up)\<lparr>s_pc := Cleared, lock_owner := Some Switcher, up_flag := False\<rparr>"
  have "handshake_run node role ?h [(Fputs node role, Flag False), (Fclose node, Void), (Unlock PartnerLock, Void)]
      (?h\<lparr>s_pc := Failed, lock_owner := None\<rparr>)"
    by (intro run_step handshake_step.switcher [OF switcher_step.write_failed]) (simp_all add: step_calls_def)
  from run_trans [OF lock_and_clear this] show ?thesis by fastforce
qed

lemma leave_run:
  assumes "wait_left h (\<not> r) u" and "r \<longrightarrow> up_flag h"
  shows "\<exists>h'. handshake_run node role h [(Unlock PartnerLock, Void)] h' \<and> s_pc h' = (if r then Succeeded else Failed) \<and>
    up_flag h' = mPartnerUp u"
proof (cases r)
  case True
  with assms show ?thesis
    by (intro exI [of _ "h\<lparr>s_pc := Succeeded, lock_owner := None\<rparr>"] conjI run_step handshake_step.switcher [OF switcher_step.success])
      (simp_all add: step_calls_def wait_left_def)
next
  case False
  with assms show ?thesis
    by (intro exI [of _ "h\<lparr>s_pc := Failed, lock_owner := None\<rparr>"] conjI run_step handshake_step.switcher [OF switcher_step.give_up])
      (simp_all add: step_calls_def wait_left_def)
qed

lemma switch_handshake_written:
  assumes wait: "(if ok then wait_again E P u else Some (False, u)) = Some (r, u')" and down: "\<not> mPartnerUp u"
  shows "\<exists>t h. hist u' = hist u @ t \<and> s_pc h = (if r then Succeeded else Failed) \<and> up_flag h = mPartnerUp u' \<and>
    handshake_run node role (handshake_start False up)
      ([(Lock PartnerLock, Void), (Fputs node role, Flag ok), (Fclose node, Void)] @ t @ [(Unlock PartnerLock, Void)]) h"
proof (cases ok)
  case True
  have at: "at_wait (written_state up) u" using down by (simp add: at_wait_def handshake_start_def)
  from wait True have "wait_handshake u (r, u')" by (simp add: wait_again_handshake)
  from this [unfolded wait_handshake_def, rule_format, OF at, of node role] obtain t h where t: "hist u' = hist u @ t"
    "handshake_run node role (written_state up) t h" "wait_left h (\<not> r) u'" "r \<longrightarrow> up_flag h"
    by auto
  from leave_run [OF t(3,4)] obtain h' where h': "handshake_run node role h [(Unlock PartnerLock, Void)] h'"
    "s_pc h' = (if r then Succeeded else Failed)" "up_flag h' = mPartnerUp u'" by blast
  from run_trans [OF write_run run_trans [OF t(2) h'(1)]] h'(2,3) t(1) True show ?thesis by auto
next
  case False
  with wait write_fails [of node role up] down show ?thesis by auto
qed

text \<open>
  C14. The code of \<open>switchMode\<close> refines the handshake: the calls that a mode switch makes between the
  opening of the node and the writing back of \<open>dual\<close> are, with those of the uevent thread in between,
  the calls of a path of the step relation that starts with the mutex free and ends in success exactly if
  \<open>switchMode\<close> does, with the same \<open>mPartnerUp\<close>.  What holds in every interleaving holds for the code.
\<close>

theorem switch_mode_is_handshake:
  assumes run: "switchMode K E P port role u = Some (r, u')" and mode: "role_type role = MODE"
    and node: "node = appendRoleNodeHelper (c_str port) MODE"
  shows "\<exists>opened t x. hist u' = hist u @ (Fopen_w node, Flag opened) # t @ x \<and> (if r then x = [] else put_back node x) \<and>
    (if opened then \<exists>h. handshake_run node (convertRoletoString K role) (handshake_start False (mPartnerUp u)) t h \<and>
        handshake_reachable h \<and> s_pc h = (if r then Succeeded else Failed) \<and> up_flag h = mPartnerUp u'
     else t = [] \<and> \<not> r)"
proof -
  have named: "node \<noteq> []" by (simp add: node appendRoleNodeHelper_def)
  let ?role = "convertRoletoString K role"
  obtain w u1 where w: "run_state (write_mode E node ?role) u = (w, u1)"
    by (cases "run_state (write_mode E node ?role) u")
  note w1 = write_mode_run [OF w]
  show ?thesis
  proof (cases w)
    case None
    with run mode named w node have "run_state (end_switch E port False) u1 = (r, u')"
      by (simp add: switchMode_def)
    with end_switch_run [of E port False u1] obtain x where "hist u' = hist u1 @ x" "\<not> r" "put_back node x"
      by (auto simp: node)
    with w1 None show ?thesis by (intro exI [of _ False] exI [of _ "[]"] exI [of _ x]) simp
  next
    case (Some ok)
    let ?unlocked = "\<lambda>u. u\<lparr>hist := hist u @ [(Unlock PartnerLock, Void)]\<rparr>"
    from run mode named w Some node obtain r2 u2 where wait: "(if ok then wait_again E P u1 else Some (False, u1)) = Some (r2, u2)"
      and fin: "run_state (end_switch E port r2) (?unlocked u2) = (r, u')"
      by (auto simp: switchMode_def bind_eq_Some_conv call_void_def)
    from end_switch_run [of E port r2 "?unlocked u2"] fin obtain x where
      x: "hist u' = hist u2 @ [(Unlock PartnerLock, Void)] @ x" "r = r2" "if r then x = [] else put_back node x"
      by (auto simp: node)
    have up: "mPartnerUp u' = mPartnerUp u2" using end_switch_partner [of E port r2 "?unlocked u2"] fin by simp
    from switch_handshake_written [OF wait, of node ?role "mPartnerUp u"] w1 Some obtain t h where
      t: "hist u2 = hist u1 @ t" "s_pc h = (if r then Succeeded else Failed)" "up_flag h = mPartnerUp u'"
      and h: "handshake_run node ?role (handshake_start False (mPartnerUp u))
        ([(Lock PartnerLock, Void), (Fputs node ?role, Flag ok), (Fclose node, Void)] @ t @ [(Unlock PartnerLock, Void)]) h"
      unfolding up x(2) by auto
    let ?t = "[(Lock PartnerLock, Void), (Fputs node ?role, Flag ok), (Fclose node, Void)] @ t @ [(Unlock PartnerLock, Void)]"
    have "hist u' = hist u @ (Fopen_w node, Flag True) # ?t @ x" using x(1) t(1) w1 Some by simp
    moreover from run_reachable [OF h handshake_reachable.start] have "handshake_reachable h" .
    ultimately show ?thesis using h t(2,3) x(3) by (intro exI [of _ True] exI [of _ ?t] exI [of _ x]) auto
  qed
qed

text \<open>A switch to \<open>source\<close> that sees the partner: the calls of a path that ends in success.\<close>

theorem switch_mode_is_handshake_witness:
  "\<exists>t h. handshake_run (appendRoleNodeHelper ''port0'' MODE) ''source'' (handshake_start False False) t h \<and>
     s_pc h = Succeeded"
proof -
  obtain u' where run: "switchMode sample_roles (node_env (\<lambda>_. None)) (\<lambda>_. True) ''port0''
      \<lparr>role_type = MODE, role_num = 2\<rparr> sample_usb = Some (True, u')" using sample_switch by blast
  have names: "c_str ''port0'' = ''port0''"
    "convertRoletoString sample_roles \<lparr>role_type = MODE, role_num = 2\<rparr> = ''source''" by code_simp+
  have "\<not> mPartnerUp sample_usb" by (simp add: sample_usb_def new_usb_def)
  with switch_mode_is_handshake [OF run _ refl] names show ?thesis by (auto split: if_splits)
qed

section \<open>The contract of \<open>mPartnerCV\<close>\<close>

definition partner_inv :: "handshake \<Rightarrow> bool" where
  "partner_inv h \<longleftrightarrow> handshake_inv h \<and> (s_pc h \<in> {Cleared, Written} \<longrightarrow> \<not> up_flag h)"

lemma partner_down_step:
  "handshake_step h h' \<Longrightarrow> handshake_inv h \<Longrightarrow> s_pc h \<in> {Cleared, Written} \<longrightarrow> \<not> up_flag h \<Longrightarrow>
     s_pc h' \<in> {Cleared, Written} \<longrightarrow> \<not> up_flag h'"
proof (induction rule: handshake_step.induct)
  case (switcher h h')
  then show ?case by (cases rule: switcher_step.cases) simp_all
next
  case (uevents h h')
  then show ?case by (cases rule: uevent_step.cases) (auto simp: handshake_defs)
qed simp_all

lemma partner_inv_step: "partner_inv h \<Longrightarrow> handshake_step h h' \<Longrightarrow> partner_inv h'"
  using handshake_inv_step partner_down_step unfolding partner_inv_def by blast

interpretation partner_cv: wait_protocol "\<lambda>h. \<exists>old up. h = handshake_start old up" handshake_step partner_inv
  "\<lambda>h. s_pc h = Waiting" up_flag "\<lambda>h. u_pc h = Up_set" woken
proof
  fix h h' :: handshake
  show "\<exists>old up. h = handshake_start old up \<Longrightarrow> partner_inv h \<and> s_pc h \<noteq> Waiting"
    using handshake_inv_start by (auto simp: partner_inv_def) (auto simp: handshake_start_def)
  show "partner_inv h \<Longrightarrow> handshake_step h h' \<Longrightarrow> partner_inv h'" by (rule partner_inv_step)
  show "partner_inv h \<Longrightarrow> handshake_step h h' \<Longrightarrow> s_pc h \<noteq> Waiting \<Longrightarrow> s_pc h' = Waiting \<Longrightarrow> \<not> up_flag h'"
    by (elim step_elims) (auto simp: partner_inv_def)
  show "partner_inv h \<Longrightarrow> handshake_step h h' \<Longrightarrow> s_pc h = Waiting \<Longrightarrow> s_pc h' = Waiting \<Longrightarrow> up_flag h' \<Longrightarrow>
      up_flag h \<or> u_pc h' = Up_set"
    by (elim step_elims) auto
  show "partner_inv h \<Longrightarrow> handshake_step h h' \<Longrightarrow> s_pc h = Waiting \<Longrightarrow> s_pc h' = Waiting \<Longrightarrow> u_pc h = Up_set \<Longrightarrow>
      u_pc h' = Up_set \<or> woken h'"
    by (elim step_elims) auto
  show "partner_inv h \<Longrightarrow> handshake_step h h' \<Longrightarrow> s_pc h = Waiting \<Longrightarrow> s_pc h' = Waiting \<Longrightarrow> woken h \<Longrightarrow> woken h'"
    by (elim step_elims) auto
qed

lemma handshake_reached: "handshake_reachable h \<Longrightarrow> reached (\<lambda>h. \<exists>old up. h = handshake_start old up) handshake_step h"
  by (induction rule: handshake_reachable.induct) (auto intro: reached.intros)

text \<open>Whatever partner event raised the flag, old or new, the waiter is signalled.\<close>

lemma partner_up_signals:
  "handshake_reachable h \<Longrightarrow> s_pc h = Waiting \<Longrightarrow> up_flag h \<Longrightarrow> woken h \<or> u_pc h = Up_set"
  by (rule partner_cv.signalled_when_up [OF handshake_reached])

section \<open>A partner that comes at the last moment\<close>

text \<open>
  After a timeout \<open>switchMode\<close> does not look at \<open>mPartnerUp\<close>: in some interleaving the partner has come up, the
  event was handled and the thread signalled, and the switch still fails (and puts the port back to dual).
\<close>

lemma late_partner_ignored: "\<exists>h. handshake_reachable h \<and> s_pc h = Failed \<and> delivered h \<and> up_flag h"
proof -
  let ?w = "written_state False" let ?s = "?w\<lparr>s_pc := Waiting, lock_owner := None, woken := False\<rparr>"
  let ?p = "after_partner ?s" let ?t = "?p\<lparr>s_pc := Timed_out, lock_owner := Some Switcher\<rparr>"
  let ?f = "?t\<lparr>s_pc := Failed, lock_owner := None\<rparr>"
  have start: "handshake_reachable (handshake_start False False)" by (rule handshake_reachable.start)
  have w: "handshake_reachable ?w" by (rule run_reachable [OF write_run start])
  then have s: "handshake_reachable ?s"
    by (rule handshake_reachable.step) (rule handshake_step.switcher [OF switcher_step.begin_wait], simp)
  have p: "handshake_reachable ?p"
    by (rule run_reachable [OF partner_run s]) (simp_all add: handshake_start_def)
  then have t: "handshake_reachable ?t"
    by (rule handshake_reachable.step) (rule handshake_step.switcher [OF switcher_step.time_out], simp_all add: after_partner_def)
  then have "handshake_reachable ?f"
    by (rule handshake_reachable.step) (rule handshake_step.switcher [OF switcher_step.give_up], simp)
  then show ?thesis by (intro exI [of _ ?f]) (simp add: after_partner_def)
qed

end
