(* ===== verification/UsbStop.thy ===== *)
theory UsbStop
  imports StopProtocol
begin

text \<open>
  Registering and unregistering the callback of \<open>usb/Usb.cpp\<close> against the uevent threads, step by step:
  \<open>setCallback\<close> creates a thread, and ends it with \<open>SIGUSR1\<close>, whose handler sets \<open>destroyThread\<close>;
  \<open>work\<close> tests that variable before each \<open>epoll_wait\<close>.  \<open>usb/service.cpp\<close> configures two threads for
  requests, so two calls can run at once, both of \<open>setCallback\<close> or one of them of an operation that uses
  \<open>mLock\<close> only (\<open>queryPortStatus\<close>, \<open>switchRole\<close>).  Every interleaving of the two requests, of the uevent
  threads, of the delivery of the signals and of the uevents that arrive is a run.

  The uevent thread also takes \<open>mPartnerLock\<close>, which \<open>switchMode\<close> releases while it waits, and
  \<open>mRoleSwitchLock\<close>, for which it does not wait (\<open>pthread_mutex_trylock\<close>); those sections are part of
  its handling of an event.
\<close>

section \<open>The steps\<close>

datatype requester = First | Second

text \<open>
  Where a request is.  \<open>Using\<close> is an operation that holds \<open>mLock\<close> and leaves the registration alone.  The
  rest is \<open>setCallback\<close>: \<open>Entered\<close> has \<open>mLock\<close>, the argument tells whether the new callback is not \<open>NULL\<close>;
  \<open>Resetting\<close> and \<open>Created\<close> register; \<open>Cleared\<close> to \<open>Joining\<close> unregister, with the thread handed to
  \<open>pthread_join\<close>.
\<close>

datatype request_pc = Idle | Using | Entered bool | Resetting | Created | Cleared | Released | Killed | Joining nat

text \<open>\<open>Starting\<close> opens the socket and the epoll set; \<open>Testing\<close> is the condition of the loop; \<open>Entering\<close> is between it and the wait.\<close>

datatype thread_at =
  Absent | Starting | Testing | Entering | Polling | Handling | Wants_lock | Notifying | Ended | Joined

datatype lock_holder = Request requester | Thread nat

text \<open>The uevent threads are numbered in the order of their creation.\<close>

record stop_run =
  pc :: "requester \<Rightarrow> request_pc"
  thread :: "nat \<Rightarrow> thread_at"
  created :: nat                    \<comment> \<open>threads created so far\<close>
  mpoll :: nat                      \<comment> \<open>\<open>mPoll\<close>\<close>
  m_lock :: "lock_holder option"    \<comment> \<open>\<open>mLock\<close>\<close>
  callback :: bool                  \<comment> \<open>\<open>mCallback_1_0\<close> is not \<open>NULL\<close>\<close>
  destroy :: bool                   \<comment> \<open>\<open>destroyThread\<close>\<close>
  pending :: "nat \<Rightarrow> bool"         \<comment> \<open>\<open>SIGUSR1\<close> was sent to the thread and not delivered yet\<close>
  queued :: "nat \<Rightarrow> nat"           \<comment> \<open>messages in the uevent socket of the thread\<close>
  late :: "nat \<Rightarrow> bool"            \<comment> \<open>it was delivered between the test of \<open>destroyThread\<close> and the wait\<close>
  failed :: "nat \<Rightarrow> bool"          \<comment> \<open>the thread gave up: no socket, no epoll set, or a failed wait\<close>

text \<open>A call comes in and gets \<open>mLock\<close>.\<close>

inductive call_begin :: "requester \<Rightarrow> stop_run \<Rightarrow> stop_run \<Rightarrow> bool" for r where
  use_lock: "pc h r = Idle \<Longrightarrow> m_lock h = None \<Longrightarrow>
    call_begin r h (h\<lparr>pc := (pc h)(r := Using), m_lock := Some (Request r)\<rparr>)"
| enter_call: "pc h r = Idle \<Longrightarrow> m_lock h = None \<Longrightarrow>
    call_begin r h (h\<lparr>pc := (pc h)(r := Entered b), m_lock := Some (Request r)\<rparr>)"

text \<open>
  It goes on.  \<open>pthread_kill\<close> finds no thread (\<open>ESRCH\<close>) only if the thread has ended; it and
  \<open>pthread_join\<close> read \<open>mPoll\<close> each for itself and without \<open>mLock\<close>.
\<close>

inductive call_step :: "requester \<Rightarrow> stop_run \<Rightarrow> stop_run \<Rightarrow> bool" for r where
  end_use: "pc h r = Using \<Longrightarrow> call_step r h (h\<lparr>pc := (pc h)(r := Idle), m_lock := None\<rparr>)"
| keep: "pc h r = Entered b \<Longrightarrow> callback h = b \<Longrightarrow>
    call_step r h (h\<lparr>pc := (pc h)(r := Idle), m_lock := None\<rparr>)"
| reset: "pc h r = Entered True \<Longrightarrow> \<not> callback h \<Longrightarrow>
    call_step r h (h\<lparr>pc := (pc h)(r := Resetting), callback := True, destroy := False\<rparr>)"
| create: "pc h r = Resetting \<Longrightarrow>
    call_step r h (h\<lparr>pc := (pc h)(r := Created), thread := (thread h)(created h := Starting),
      mpoll := created h, created := Suc (created h), pending := (pending h)(created h := False),
      queued := (queued h)(created h := 0), late := (late h)(created h := False), failed := (failed h)(created h := False)\<rparr>)"
| create_failed: "pc h r = Resetting \<Longrightarrow>
    call_step r h (h\<lparr>pc := (pc h)(r := Idle), m_lock := None, callback := False\<rparr>)"
| registered: "pc h r = Created \<Longrightarrow> call_step r h (h\<lparr>pc := (pc h)(r := Idle), m_lock := None\<rparr>)"
| clear: "pc h r = Entered False \<Longrightarrow> callback h \<Longrightarrow>
    call_step r h (h\<lparr>pc := (pc h)(r := Cleared), callback := False\<rparr>)"
| release: "pc h r = Cleared \<Longrightarrow> call_step r h (h\<lparr>pc := (pc h)(r := Released), m_lock := None\<rparr>)"
| kill: "pc h r = Released \<Longrightarrow> thread h (mpoll h) \<notin> {Absent, Joined} \<Longrightarrow>
    call_step r h (h\<lparr>pc := (pc h)(r := Killed), pending := (pending h)(mpoll h := thread h (mpoll h) \<noteq> Ended)\<rparr>)"
| kill_failed: "pc h r = Released \<Longrightarrow> thread h (mpoll h) = Ended \<Longrightarrow> call_step r h (h\<lparr>pc := (pc h)(r := Idle)\<rparr>)"
| join_start: "pc h r = Killed \<Longrightarrow> call_step r h (h\<lparr>pc := (pc h)(r := Joining (mpoll h))\<rparr>)"
| join: "pc h r = Joining i \<Longrightarrow> thread h i = Ended \<Longrightarrow>
    call_step r h (h\<lparr>pc := (pc h)(r := Idle), thread := (thread h)(i := Joined), pending := (pending h)(i := False)\<rparr>)"

text \<open>
  A uevent thread; the handler of the signal runs on it wherever it is, and if it waits for events the
  wait ends with \<open>EINTR\<close> and the loop continues.
\<close>

inductive poll_thread_step :: "nat \<Rightarrow> stop_run \<Rightarrow> stop_run \<Rightarrow> bool" for i where
  deliver: "pending h i \<Longrightarrow> thread h i \<notin> {Absent, Ended, Joined} \<Longrightarrow>
    poll_thread_step i h (h\<lparr>pending := (pending h)(i := False), destroy := True,
      late := (late h)(i := thread h i = Entering),
      thread := (thread h)(i := if thread h i = Polling then Testing else thread h i)\<rparr>)"
| opened: "thread h i = Starting \<Longrightarrow> poll_thread_step i h (h\<lparr>thread := (thread h)(i := Testing)\<rparr>)"
| leave: "thread h i = Testing \<Longrightarrow> destroy h \<Longrightarrow> poll_thread_step i h (h\<lparr>thread := (thread h)(i := Ended)\<rparr>)"
| go_on: "thread h i = Testing \<Longrightarrow> \<not> destroy h \<Longrightarrow>
    poll_thread_step i h (h\<lparr>thread := (thread h)(i := Entering)\<rparr>)"
| enter: "thread h i = Entering \<Longrightarrow> poll_thread_step i h (h\<lparr>thread := (thread h)(i := Polling)\<rparr>)"
| report: "thread h i = Polling \<Longrightarrow> queued h i = Suc n \<Longrightarrow>
    poll_thread_step i h (h\<lparr>thread := (thread h)(i := Handling), queued := (queued h)(i := n)\<rparr>)"
| other_event: "thread h i = Handling \<Longrightarrow> poll_thread_step i h (h\<lparr>thread := (thread h)(i := Testing)\<rparr>)"
| typec_event: "thread h i = Handling \<Longrightarrow> poll_thread_step i h (h\<lparr>thread := (thread h)(i := Wants_lock)\<rparr>)"
| take_lock: "thread h i = Wants_lock \<Longrightarrow> m_lock h = None \<Longrightarrow>
    poll_thread_step i h (h\<lparr>thread := (thread h)(i := Notifying), m_lock := Some (Thread i)\<rparr>)"
| notified: "thread h i = Notifying \<Longrightarrow>
    poll_thread_step i h (h\<lparr>thread := (thread h)(i := Testing), m_lock := None\<rparr>)"

text \<open>What the requests that have begun and the threads do by themselves.\<close>

inductive stop_own :: "stop_run \<Rightarrow> stop_run \<Rightarrow> bool" where
  request: "call_step r h h' \<Longrightarrow> stop_own h h'"
| thread: "poll_thread_step i h h' \<Longrightarrow> stop_own h h'"

text \<open>A uevent reaches every open socket.\<close>

fun listening :: "thread_at \<Rightarrow> bool" where
  "listening t = (t \<notin> {Absent, Starting, Ended, Joined})"

definition uevent_arrives :: "stop_run \<Rightarrow> stop_run" where
  "uevent_arrives h = h\<lparr>queued := (\<lambda>i. if listening (thread h i) then Suc (queued h i) else queued h i)\<rparr>"

text \<open>And from outside: a call begins, a uevent arrives, or a system call of a thread fails.\<close>

inductive stop_step :: "stop_run \<Rightarrow> stop_run \<Rightarrow> bool" where
  own: "stop_own h h' \<Longrightarrow> stop_step h h'"
| begins: "call_begin r h h' \<Longrightarrow> stop_step h h'"
| uevent: "stop_step h (uevent_arrives h)"
| failure: "thread h i \<in> {Starting, Polling} \<Longrightarrow>
    stop_step h (h\<lparr>thread := (thread h)(i := Ended), failed := (failed h)(i := True)\<rparr>)"

inductive_cases call_beginE: "call_begin r h h'"
inductive_cases call_stepE: "call_step r h h'"
inductive_cases poll_thread_stepE: "poll_thread_step i h h'"
inductive_cases stop_ownE: "stop_own h h'"
inductive_cases stop_stepE: "stop_step h h'"

definition stop_start :: "stop_run \<Rightarrow> bool" where
  "stop_start h \<longleftrightarrow> (\<forall>r. pc h r = Idle) \<and> (\<forall>i. thread h i = Absent) \<and> m_lock h = None \<and> \<not> callback h"

text \<open>Runs in which the calls of \<open>setCallback\<close> do not overlap; other calls may.\<close>

fun in_setCallback :: "request_pc \<Rightarrow> bool" where
  "in_setCallback Idle = False"
| "in_setCallback Using = False"
| "in_setCallback _ = True"

definition one_setter :: "stop_run \<Rightarrow> bool" where
  "one_setter h \<longleftrightarrow> \<not> (in_setCallback (pc h First) \<and> in_setCallback (pc h Second))"

definition serial_step :: "stop_run \<Rightarrow> stop_run \<Rightarrow> bool" where
  "serial_step h h' \<longleftrightarrow> stop_step h h' \<and> one_setter h'"

abbreviation serial_reached :: "stop_run \<Rightarrow> bool" where
  "serial_reached \<equiv> reached stop_start serial_step"

section \<open>The invariant\<close>

fun request_holds :: "request_pc \<Rightarrow> bool" where
  "request_holds Idle = False"
| "request_holds Released = False"
| "request_holds Killed = False"
| "request_holds (Joining _) = False"
| "request_holds _ = True"

fun alive :: "thread_at \<Rightarrow> bool" where
  "alive Absent = False"
| "alive Ended = False"
| "alive Joined = False"
| "alive _ = True"

definition locks_ok :: "stop_run \<Rightarrow> bool" where
  "locks_ok h \<longleftrightarrow> (\<forall>r. request_holds (pc h r) \<longleftrightarrow> m_lock h = Some (Request r)) \<and>
     (\<forall>i. thread h i = Notifying \<longleftrightarrow> m_lock h = Some (Thread i)) \<and> (\<forall>i \<ge> created h. thread h i = Absent)"

text \<open>Only the thread of \<open>mPoll\<close> runs, and if it waits although it is to stop the signal came too late.\<close>

definition threads_ok :: "stop_run \<Rightarrow> bool" where
  "threads_ok h \<longleftrightarrow> (\<forall>i. i \<noteq> mpoll h \<longrightarrow> \<not> alive (thread h i)) \<and>
     (thread h (mpoll h) \<in> {Entering, Polling} \<and> destroy h \<longrightarrow> late h (mpoll h))"

text \<open>The thread of \<open>mPoll\<close> exists and nobody has told it to stop; or there is none.\<close>

definition thread_up :: "stop_run \<Rightarrow> bool" where
  "thread_up h \<longleftrightarrow> thread h (mpoll h) \<notin> {Absent, Joined} \<and> \<not> destroy h \<and> \<not> pending h (mpoll h) \<and>
     (thread h (mpoll h) = Ended \<longrightarrow> failed h (mpoll h))"

definition thread_told :: "stop_run \<Rightarrow> bool" where
  "thread_told h \<longleftrightarrow> thread h (mpoll h) \<notin> {Absent, Joined} \<and>
     (pending h (mpoll h) \<or> destroy h \<or> thread h (mpoll h) = Ended)"

definition thread_down :: "stop_run \<Rightarrow> bool" where
  "thread_down h \<longleftrightarrow> \<not> alive (thread h (mpoll h))"

definition at_rest :: "stop_run \<Rightarrow> bool" where
  "at_rest h \<longleftrightarrow> (if callback h then thread_up h else thread_down h)"

fun setter_ok :: "request_pc \<Rightarrow> stop_run \<Rightarrow> bool" where
  "setter_ok Idle h = True"
| "setter_ok Using h = True"
| "setter_ok (Entered b) h = at_rest h"
| "setter_ok Resetting h = (callback h \<and> \<not> destroy h \<and> thread_down h)"
| "setter_ok Created h = (callback h \<and> thread_up h)"
| "setter_ok Cleared h = (\<not> callback h \<and> thread_up h)"
| "setter_ok Released h = (\<not> callback h \<and> thread_up h)"
| "setter_ok Killed h = (\<not> callback h \<and> thread_told h)"
| "setter_ok (Joining i) h = (\<not> callback h \<and> i = mpoll h \<and> thread_told h)"

definition setters_ok :: "stop_run \<Rightarrow> bool" where
  "setters_ok h \<longleftrightarrow> (\<forall>r. setter_ok (pc h r) h) \<and> ((\<forall>r. \<not> in_setCallback (pc h r)) \<longrightarrow> at_rest h) \<and> one_setter h"

definition stop_inv :: "stop_run \<Rightarrow> bool" where
  "stop_inv h \<longleftrightarrow> locks_ok h \<and> threads_ok h \<and> setters_ok h"

lemma all_requesters: "(\<forall>r. P r) \<longleftrightarrow> P First \<and> P Second"
  by (metis requester.exhaust)

lemma not_First [simp]: "r \<noteq> First \<longleftrightarrow> r = Second" "First \<noteq> r \<longleftrightarrow> r = Second"
  by (cases r; simp)+

lemma stop_inv_start: "stop_start h \<Longrightarrow> stop_inv h"
  by (simp add: stop_start_def stop_inv_def locks_ok_def threads_ok_def setters_ok_def one_setter_def at_rest_def thread_down_def)

lemma mutex_ok_step:
  assumes "locks_ok h" and "stop_step h h'"
  shows "locks_ok h'"
  using assms(2)
proof (cases rule: stop_step.cases)
  case own
  then show ?thesis
  proof (cases rule: stop_own.cases)
    case (request r)
    with assms(1) have "request_holds (pc h r) \<longleftrightarrow> m_lock h = Some (Request r)" by (simp add: locks_ok_def)
    with request show ?thesis using assms(1) by (elim call_stepE) (auto simp: locks_ok_def, metis thread_at.distinct)
  next
    case (thread i)
    from assms(1) have "thread h i = Notifying \<longleftrightarrow> m_lock h = Some (Thread i)" "created h \<le> i \<Longrightarrow> thread h i = Absent"
      by (simp_all add: locks_ok_def)
    with thread show ?thesis using assms(1) by (elim poll_thread_stepE) (auto simp: locks_ok_def, metis thread_at.distinct)
  qed
next
  case (begins r)
  with assms(1) have "request_holds (pc h r) \<longleftrightarrow> m_lock h = Some (Request r)" by (simp add: locks_ok_def)
  with begins show ?thesis using assms(1) by (elim call_beginE) (auto simp: locks_ok_def)
next
  case (failure i)
  with assms(1) have "i < created h" by (auto simp: locks_ok_def not_le [symmetric])
  with failure assms(1) show ?thesis by (auto simp: locks_ok_def) (metis thread_at.distinct)+
qed (use assms(1) in \<open>auto simp: locks_ok_def uevent_arrives_def\<close>)


lemmas thread_defs = threads_ok_def thread_up_def thread_told_def thread_down_def

text \<open>The other request.\<close>

fun other :: "requester \<Rightarrow> requester" where
  "other First = Second"
| "other Second = First"

lemma other_differs [simp]: "other r \<noteq> r" "r \<noteq> other r"
  by (cases r; simp)+

lemma setter_ok_trivial [simp]: "\<not> in_setCallback p \<Longrightarrow> setter_ok p h"
  by (cases p) simp_all

text \<open>The condition, seen from one of the requests.\<close>

lemma setters_ok_seen:
  "setters_ok h \<longleftrightarrow>
     (if in_setCallback (pc h r) then setter_ok (pc h r) h \<and> \<not> in_setCallback (pc h (other r))
      else if in_setCallback (pc h (other r)) then setter_ok (pc h (other r)) h else at_rest h)"
  by (cases r) (auto simp: setters_ok_def one_setter_def all_requesters)

text \<open>The program counters and the mutex do not matter to what it says of the thread.\<close>

lemma same_thread [simp]:
  "at_rest (h\<lparr>pc := p, m_lock := l\<rparr>) = at_rest h" "at_rest (h\<lparr>pc := p\<rparr>) = at_rest h"
  "setter_ok s (h\<lparr>pc := p, m_lock := l\<rparr>) = setter_ok s h" "setter_ok s (h\<lparr>pc := p\<rparr>) = setter_ok s h"
  "threads_ok (h\<lparr>pc := p, m_lock := l\<rparr>) = threads_ok h" "threads_ok (h\<lparr>pc := p\<rparr>) = threads_ok h"
  by (cases s; simp add: at_rest_def thread_defs)+

lemma threads_ok_request:
  assumes "threads_ok h" "setters_ok h" and "call_step r h h'"
  shows "threads_ok h'"
proof -
  have down: "\<not> alive (thread h i)" if "pc h r = Resetting" for i
    using that assms(1,2) by (cases "i = mpoll h") (auto simp: setters_ok_seen [of h r] thread_defs)
  show ?thesis
    using assms(3,1) by (elim call_stepE) (auto simp: threads_ok_def dest: down)
qed

lemma setters_ok_request: "setters_ok h \<Longrightarrow> call_step r h h' \<Longrightarrow> setters_ok h'"
  by (elim call_stepE) (auto simp: setters_ok_seen [of _ r] at_rest_def thread_defs)

lemma inv_begin:
  "setters_ok h \<Longrightarrow> call_begin r h h' \<Longrightarrow> one_setter h' \<Longrightarrow> setters_ok h'"
  "threads_ok h \<Longrightarrow> call_begin r h h' \<Longrightarrow> threads_ok h'"
proof -
  show "setters_ok h \<Longrightarrow> call_begin r h h' \<Longrightarrow> one_setter h' \<Longrightarrow> setters_ok h'"
    by (elim call_beginE; cases r) (auto simp: setters_ok_seen [of _ r] one_setter_def)
  show "threads_ok h \<Longrightarrow> call_begin r h h' \<Longrightarrow> threads_ok h'" by (elim call_beginE) auto
qed

text \<open>Whatever a thread does, it is the thread of \<open>mPoll\<close>; and only one that was told to stop ends by itself.\<close>

lemma thread_moves: "poll_thread_step i h h' \<Longrightarrow> alive (thread h i)"
  by (elim poll_thread_stepE) (cases "thread h i"; simp)+

lemma at_rest_thread:
  assumes "threads_ok h" and "poll_thread_step i h h'"
  shows "at_rest h \<Longrightarrow> at_rest h'" "setter_ok s h \<Longrightarrow> setter_ok s h'"
proof -
  from assms thread_moves have "i = mpoll h" "alive (thread h i)" by (auto simp: threads_ok_def)
  with assms(2) have up: "(thread_up h \<longrightarrow> thread_up h') \<and> (thread_told h \<longrightarrow> thread_told h') \<and> \<not> thread_down h \<and>
      callback h' = callback h \<and> mpoll h' = mpoll h \<and> (thread_up h \<longrightarrow> \<not> destroy h')"
    by (elim poll_thread_stepE) (auto simp: thread_up_def thread_told_def thread_down_def)
  then show "at_rest h \<Longrightarrow> at_rest h'" by (auto simp: at_rest_def split: if_splits)
  with up show "setter_ok s h \<Longrightarrow> setter_ok s h'" by (cases s) auto
qed

lemma inv_thread:
  assumes "threads_ok h" "setters_ok h" and "poll_thread_step i h h'"
  shows "threads_ok h' \<and> setters_ok h'"
proof
  from assms thread_moves have "i = mpoll h" "alive (thread h i)" by (auto simp: threads_ok_def)
  with assms(1,3) show "threads_ok h'" by (elim poll_thread_stepE) (auto simp: threads_ok_def)
  from assms(3) have "pc h' = pc h" by (elim poll_thread_stepE) auto
  with assms(2) show "setters_ok h'"
    using at_rest_thread [OF assms(1,3)] by (auto simp: setters_ok_def one_setter_def)
qed

lemma inv_outside:
  assumes "threads_ok h" "setters_ok h"
  shows "threads_ok (uevent_arrives h) \<and> setters_ok (uevent_arrives h)"
    "thread h i \<in> {Starting, Polling} \<Longrightarrow> threads_ok (h\<lparr>thread := (thread h)(i := Ended), failed := (failed h)(i := True)\<rparr>) \<and>
      setters_ok (h\<lparr>thread := (thread h)(i := Ended), failed := (failed h)(i := True)\<rparr>)"
proof -
  let ?u = "uevent_arrives h"
  have same: "setter_ok s ?u = setter_ok s h" "at_rest ?u = at_rest h" for s
    by (cases s; simp add: at_rest_def thread_defs uevent_arrives_def)+
  then show "threads_ok ?u \<and> setters_ok ?u"
    using assms by (simp add: setters_ok_def one_setter_def) (simp add: threads_ok_def uevent_arrives_def)
next
  let ?f = "h\<lparr>thread := (thread h)(i := Ended), failed := (failed h)(i := True)\<rparr>"
  assume i: "thread h i \<in> {Starting, Polling}"
  with assms(1) have poll: "i = mpoll h" by (auto simp: threads_ok_def)
  with i have down: "\<not> thread_down h" by (auto simp: thread_down_def)
  with poll i have "setter_ok s h \<Longrightarrow> setter_ok s ?f" "at_rest h \<Longrightarrow> at_rest ?f" for s
    by (cases s; auto simp: at_rest_def thread_up_def thread_told_def split: if_splits)+
  with assms(2) have "setters_ok ?f" by (auto simp: setters_ok_def one_setter_def)
  with assms(1) poll show "threads_ok ?f \<and> setters_ok ?f" by (auto simp: threads_ok_def)
qed

lemma stop_inv_own:
  assumes "stop_inv h" and own: "stop_own h h'"
  shows "stop_inv h'"
proof -
  from assms have ok: "locks_ok h" "threads_ok h" "setters_ok h" by (simp_all add: stop_inv_def)
  from own have "threads_ok h' \<and> setters_ok h'"
  proof cases
    case (request r)
    with ok show ?thesis using threads_ok_request [of h r h'] setters_ok_request [of h r h'] by simp
  next
    case (thread i)
    with ok show ?thesis using inv_thread [of h i h'] by simp
  qed
  with mutex_ok_step [OF ok(1) stop_step.own [OF own]] show ?thesis by (simp add: stop_inv_def)
qed

lemma stop_inv_step:
  assumes inv: "stop_inv h" and "serial_step h h'"
  shows "stop_inv h'"
proof -
  from assms have step: "stop_step h h'" and one: "one_setter h'" and ok: "locks_ok h" "threads_ok h" "setters_ok h"
    by (simp_all add: serial_step_def stop_inv_def)
  from step have "threads_ok h' \<and> setters_ok h'"
  proof cases
    case own
    with stop_inv_own [OF inv] show ?thesis by (simp add: stop_inv_def)
  next
    case (begins r)
    with ok one show ?thesis using inv_begin [of h r h'] by simp
  next
    case uevent
    with inv_outside(1) [OF ok(2,3)] show ?thesis by simp
  next
    case (failure i)
    with inv_outside(2) [OF ok(2,3), of i] show ?thesis by simp
  qed
  with mutex_ok_step [OF ok(1) step] show ?thesis by (simp add: stop_inv_def)
qed

lemma own_serial: "stop_inv h \<Longrightarrow> stop_own h h' \<Longrightarrow> serial_step h h'"
  using stop_inv_own [of h h'] by (simp add: serial_step_def stop_step.own stop_inv_def setters_ok_def)

lemma uevent_serial: "stop_inv h \<Longrightarrow> serial_step h (uevent_arrives h)"
  using stop_step.uevent [of h]
  by (simp add: serial_step_def stop_inv_def setters_ok_def) (simp add: one_setter_def uevent_arrives_def)

lemma serial_reached_inv: "serial_reached h \<Longrightarrow> stop_inv h"
  by (induction rule: reached.induct) (auto intro: stop_inv_start stop_inv_step)

section \<open>The join\<close>

fun thread_cost :: "thread_at \<Rightarrow> nat" where
  "thread_cost Handling = 6"
| "thread_cost Wants_lock = 5"
| "thread_cost Notifying = 4"
| "thread_cost Starting = 4"
| "thread_cost Testing = 3"
| "thread_cost Entering = 2"
| "thread_cost Polling = 1"
| "thread_cost _ = 0"

definition thread_effort :: "nat \<Rightarrow> stop_run \<Rightarrow> nat" where
  "thread_effort i h =
     (if thread h i = Ended then 1
      else 1 + thread_cost (thread h i) + 6 * queued h i + (if pending h i then 3 else 0))"

fun joining :: "request_pc \<Rightarrow> bool" where
  "joining (Joining i) = True"
| "joining _ = False"

text \<open>The other request may be using \<open>mLock\<close>.\<close>

definition stop_effort :: "requester \<Rightarrow> stop_run \<Rightarrow> nat" where
  "stop_effort r h = (if \<not> joining (pc h r) then 0
     else thread_effort (mpoll h) h + (if pc h (other r) = Using then 1 else 0))"

text \<open>The signal was delivered after the test of \<open>destroyThread\<close> and before the wait.\<close>

definition lost_signal :: "nat \<Rightarrow> stop_run \<Rightarrow> bool" where
  "lost_signal i h \<longleftrightarrow> late h i \<and> thread h i = Polling \<and> destroy h \<and> \<not> pending h i \<and> queued h i = 0"

definition stuck :: "requester \<Rightarrow> stop_run \<Rightarrow> bool" where
  "stuck r h \<longleftrightarrow> lost_signal (mpoll h) h \<and> pc h (other r) \<noteq> Using"

text \<open>While one request joins, all that moves is the join, the other's use of the mutex and the thread.\<close>

lemma joining_state:
  assumes "stop_inv h" and "joining (pc h r)"
  shows "pc h r = Joining (mpoll h)" "pc h (other r) \<in> {Idle, Using}" "thread_told h" "\<not> callback h"
    "m_lock h = None \<or> m_lock h = Some (Thread (mpoll h)) \<and> thread h (mpoll h) = Notifying \<or>
     m_lock h = Some (Request (other r)) \<and> pc h (other r) = Using"
proof -
  from assms(2) obtain i where i: "pc h r = Joining i" by (cases "pc h r") auto
  with assms(1) have ok: "setter_ok (Joining i) h" "\<not> in_setCallback (pc h (other r))" "locks_ok h" "threads_ok h"
    by (auto simp: stop_inv_def setters_ok_seen [of h r])
  with i show "pc h r = Joining (mpoll h)" "thread_told h" "\<not> callback h" by simp_all
  from ok(2) show q: "pc h (other r) \<in> {Idle, Using}" by (cases "pc h (other r)") auto
  show "m_lock h = None \<or> m_lock h = Some (Thread (mpoll h)) \<and> thread h (mpoll h) = Notifying \<or>
     m_lock h = Some (Request (other r)) \<and> pc h (other r) = Using"
  proof (cases "m_lock h")
    case (Some l)
    show ?thesis
    proof (cases l)
      case (Request p)
      with Some ok(3) have "request_holds (pc h p)" by (simp add: locks_ok_def)
      with i q Request Some show ?thesis by (cases "p = r"; cases p; cases r) auto
    next
      case (Thread j)
      with Some ok(3) have "thread h j = Notifying" by (simp add: locks_ok_def)
      with ok(4) Thread Some show ?thesis by (cases "j = mpoll h") (auto simp: threads_ok_def)
    qed
  qed simp
qed

lemma joining_own:
  assumes inv: "stop_inv h" and join: "joining (pc h r)" and own: "stop_own h h'"
  obtains "thread h (mpoll h) = Ended" "pc h' = (pc h)(r := Idle)" "callback h' = callback h"
    | "pc h (other r) = Using" "h' = h\<lparr>pc := (pc h)(other r := Idle), m_lock := None\<rparr>"
    | "poll_thread_step (mpoll h) h h'" "pc h' = pc h" "mpoll h' = mpoll h" "callback h' = callback h"
  using own
proof cases
  case (request q)
  show ?thesis
  proof (cases "q = r")
    case True
    with request joining_state(1) [OF inv join] show ?thesis by (elim call_stepE) (auto intro: that(1))
  next
    case False
    then have "q = other r" by (cases q; cases r) simp_all
    with request joining_state(2) [OF inv join] show ?thesis by (elim call_stepE) (auto intro: that(2))
  qed
next
  case (thread i)
  with inv thread_moves have "i = mpoll h" by (auto simp: stop_inv_def threads_ok_def)
  moreover from thread have "pc h' = pc h" "mpoll h' = mpoll h" "callback h' = callback h" by (elim poll_thread_stepE; simp)+
  ultimately show ?thesis using thread that(3) by blast
qed

lemma thread_decreases: "poll_thread_step i h h' \<Longrightarrow> thread_effort i h' < thread_effort i h"
  by (elim poll_thread_stepE) (auto simp: thread_effort_def)

lemma stop_decreases:
  assumes "stop_inv h" and "joining (pc h r)" and "stop_own h h'"
  shows "stop_effort r h' < stop_effort r h"
  using assms
proof (cases rule: joining_own)
  case 2
  then show ?thesis using assms(2) by (simp add: stop_effort_def thread_effort_def)
next
  case 3
  with thread_decreases [OF 3(1)] assms(2) show ?thesis by (simp add: stop_effort_def)
qed (use assms(2) in \<open>simp add: stop_effort_def thread_effort_def\<close>)

lemma stop_stays:
  assumes "stop_inv h" and "joining (pc h r)" and "stop_own h h'"
  shows "joining (pc h' r) \<or> pc h' r = Idle"
  using assms by (cases rule: joining_own) (use assms(2) in \<open>auto\<close>)

lemma stop_progress:
  assumes inv: "stop_inv h" and join: "joining (pc h r)" and "\<not> stuck r h"
  shows "\<exists>h'. stop_own h h'"
proof (cases "pc h (other r) = Using")
  case True
  then show ?thesis using call_step.end_use stop_own.request by blast
next
  case False
  note state = joining_state [OF inv join]
  let ?i = "mpoll h"
  have "thread h ?i = Ended \<or> (\<exists>h'. poll_thread_step ?i h h')"
  proof (cases "thread h ?i")
    case Absent then show ?thesis using state(3) by (simp add: thread_told_def)
  next
    case Starting then show ?thesis using poll_thread_step.opened by blast
  next
    case Testing then show ?thesis using poll_thread_step.leave poll_thread_step.go_on by blast
  next
    case Entering then show ?thesis using poll_thread_step.enter by blast
  next
    case Polling
    have "pending h ?i \<or> destroy h \<and> late h ?i"
      using inv state(3) Polling by (auto simp: stop_inv_def threads_ok_def thread_told_def)
    with Polling False assms(3) have "pending h ?i \<or> queued h ?i \<noteq> 0" by (auto simp: stuck_def lost_signal_def)
    with Polling show ?thesis
      using poll_thread_step.deliver [of h ?i] poll_thread_step.report [of h ?i] by (auto simp: neq0_conv gr0_conv_Suc)
  next
    case Handling then show ?thesis using poll_thread_step.other_event by blast
  next
    case Wants_lock then show ?thesis using poll_thread_step.take_lock [of h ?i] state(5) False by auto
  next
    case Notifying then show ?thesis using poll_thread_step.notified by blast
  next
    case Joined then show ?thesis using state(3) by (simp add: thread_told_def)
  qed simp
  then show ?thesis
    using call_step.join [OF state(1)] stop_own.request [of r] stop_own.thread by blast
qed

interpretation uevent_stop: stop_protocol stop_start serial_step stop_own stop_inv
  "\<lambda>h. joining (pc h r)" "\<lambda>h. pc h r = Idle" "stuck r" "stop_effort r" for r
  by unfold_locales
    (blast intro: stop_inv_start stop_inv_step own_serial stop_decreases dest: stop_stays stop_progress)+

text \<open>Once a uevent has woken a thread that has been told to leave, it does not wait again.\<close>

definition told :: "requester \<Rightarrow> stop_run \<Rightarrow> bool" where
  "told r h \<longleftrightarrow> stop_inv h \<and> (pc h r = Idle \<or> joining (pc h r) \<and> destroy h \<and> \<not> pending h (mpoll h) \<and>
     thread h (mpoll h) \<noteq> Entering \<and> (thread h (mpoll h) = Polling \<longrightarrow> queued h (mpoll h) \<noteq> 0))"

abbreviation join_waits :: "requester \<Rightarrow> stop_run \<Rightarrow> stop_run \<Rightarrow> bool" where
  "join_waits r h h' \<equiv> joining (pc h r) \<and> stop_own h h'"

lemma told_step:
  assumes "told r h" and "join_waits r h h'"
  shows "told r h'"
proof -
  from assms have inv: "stop_inv h" "joining (pc h r)" "stop_own h h'" by (auto simp: told_def)
  then show ?thesis
  proof (cases rule: joining_own)
    case 3
    with assms inv show ?thesis
      by (auto simp: told_def stop_inv_own elim!: poll_thread_stepE)
  qed (use assms inv stop_inv_own in \<open>auto simp: told_def\<close>)
qed

interpretation told_stop: stop_protocol "told r" "join_waits r" "join_waits r" "told r"
  "\<lambda>h. joining (pc h r)" "\<lambda>h. pc h r = Idle" "\<lambda>_. False" "stop_effort r" for r
proof
  fix h h' :: stop_run
  show "told r h \<Longrightarrow> joining (pc h r) \<Longrightarrow> \<not> False \<Longrightarrow> \<exists>h'. join_waits r h h'"
    using stop_progress [of h r] by (auto simp: told_def stuck_def lost_signal_def)
  show "told r h \<Longrightarrow> joining (pc h r) \<Longrightarrow> join_waits r h h' \<Longrightarrow> stop_effort r h' < stop_effort r h"
    using stop_decreases [of h r h'] by (auto simp: told_def)
  show "told r h \<Longrightarrow> joining (pc h r) \<Longrightarrow> join_waits r h h' \<Longrightarrow> joining (pc h' r) \<or> pc h' r = Idle"
    using stop_stays [of h r h'] by (auto simp: told_def)
qed (auto intro: told_step)

text \<open>A run: the signal comes after the test and is handled before the wait.\<close>

abbreviation at :: "request_pc \<Rightarrow> thread_at \<Rightarrow> lock_holder option \<Rightarrow> bool \<Rightarrow> bool \<Rightarrow> bool \<Rightarrow> stop_run" where
  "at p t l c d s \<equiv> \<lparr>pc = (\<lambda>_. Idle)(First := p), thread = (\<lambda>_. Absent)(0 := t), created = 1, mpoll = 0, m_lock = l,
     callback = c, destroy = d, pending = (\<lambda>_. False)(0 := s), queued = (\<lambda>_. 0)(0 := 0), late = (\<lambda>_. False)(0 := d),
     failed = (\<lambda>_. False)(0 := False)\<rparr>"

lemma one_setter_First: "one_setter h" if "pc h Second = Idle"
  using that by (simp add: one_setter_def)

lemma go_request:
  "serial_reached h \<Longrightarrow> call_step First h h' \<Longrightarrow> pc h' Second = Idle \<Longrightarrow> serial_reached h'"
  by (erule reached.next_step) (simp add: serial_step_def stop_step.own stop_own.request one_setter_First)

lemma go_begin:
  "serial_reached h \<Longrightarrow> call_begin First h h' \<Longrightarrow> pc h' Second = Idle \<Longrightarrow> serial_reached h'"
  by (erule reached.next_step) (simp add: serial_step_def stop_step.begins one_setter_First)

lemma go_thread:
  "serial_reached h \<Longrightarrow> poll_thread_step i h h' \<Longrightarrow> pc h' Second = Idle \<Longrightarrow> serial_reached h'"
  by (erule reached.next_step) (simp add: serial_step_def stop_step.own stop_own.thread one_setter_First)

lemma registered_run: "serial_reached (at Idle Testing None True False False)"
proof -
  let ?h = "\<lambda>p l c. \<lparr>pc = (\<lambda>_. Idle)(First := p), thread = (\<lambda>_. Absent), created = 0, mpoll = 0, m_lock = l,
     callback = c, destroy = False, pending = (\<lambda>_. False), queued = (\<lambda>_. 0), late = (\<lambda>_. False), failed = (\<lambda>_. False)\<rparr>"
  have "serial_reached (?h Idle None False)"
    by (rule reached.initial) (simp add: stop_start_def)
  from go_begin [OF this enter_call [where b = True]] have "serial_reached (?h (Entered True) (Some (Request First)) False)" by simp
  from go_request [OF this reset] have "serial_reached (?h Resetting (Some (Request First)) True)" by simp
  from go_request [OF this create] have "serial_reached (at Created Starting (Some (Request First)) True False False)" by simp
  from go_request [OF this registered] have "serial_reached (at Idle Starting None True False False)" by simp
  from go_thread [OF this opened [of _ 0]] show ?thesis by simp
qed

lemma entering_run: "serial_reached (at (Joining 0) Entering None False False True)"
proof -
  from go_thread [OF registered_run go_on [of _ 0]] have "serial_reached (at Idle Entering None True False False)" by simp
  from go_begin [OF this enter_call [where b = False]] have "serial_reached (at (Entered False) Entering (Some (Request First)) True False False)" by simp
  from go_request [OF this clear] have "serial_reached (at Cleared Entering (Some (Request First)) False False False)" by simp
  from go_request [OF this release] have "serial_reached (at Released Entering None False False False)" by simp
  from go_request [OF this kill] have "serial_reached (at Killed Entering None False False True)" by simp
  from go_request [OF this join_start] show ?thesis by simp
qed

lemma lost_run:
  "join_waits First (at (Joining 0) Entering None False False True) (at (Joining 0) Entering None False True False)"
  "join_waits First (at (Joining 0) Entering None False True False) (at (Joining 0) Polling None False True False)"
  "lost_signal 0 (at (Joining 0) Polling None False True False)"
  using stop_own.thread [OF poll_thread_step.deliver [of "at (Joining 0) Entering None False False True" 0]]
    stop_own.thread [OF poll_thread_step.enter [of "at (Joining 0) Entering None False True False" 0]]
  by (simp_all add: lost_signal_def)

lemma lost_reached: "serial_reached (at (Joining 0) Polling None False True False)"
proof -
  from go_thread [OF entering_run deliver [of _ 0]] have "serial_reached (at (Joining 0) Entering None False True False)" by simp
  from go_thread [OF this enter [of _ 0]] show ?thesis by simp
qed

lemma stuck_iff:
  assumes "stop_inv h" and "joining (pc h r)"
  shows "(\<nexists>h'. stop_own h h') \<longleftrightarrow> stuck r h"
proof -
  have "\<not> stop_own h h'" if "stuck r h" for h'
  proof
    assume "stop_own h h'"
    with assms show False
      by (rule joining_own) (use that in \<open>auto simp: stuck_def lost_signal_def elim!: poll_thread_stepE\<close>)
  qed
  with stop_progress [OF assms] show ?thesis by blast
qed

text \<open>
  C20. Unregistering the callback where calls of \<open>setCallback\<close> do not overlap, in every interleaving with
  the uevent thread and with a request that uses \<open>mLock\<close>: while \<open>setCallback\<close> waits in \<open>pthread_join\<close>
  they take at most six steps for each queued uevent and eleven more, and then the join has returned or
  none of them can move; they are stuck exactly if the signal came after the test of \<open>destroyThread\<close> and
  before the wait, with no uevent queued, and the other request is not using \<open>mLock\<close>.
\<close>

theorem unregister_join:
  assumes reach: "serial_reached h" and join: "joining (pc h r)" and run: "(join_waits r ^^ n) h h'"
  shows "n \<le> 6 * queued h (mpoll h) + 11 \<and>
    (pc h' r = Idle \<or> joining (pc h' r) \<and>
       ((\<nexists>h2. stop_own h' h2) \<longleftrightarrow> lost_signal (mpoll h') h' \<and> pc h' (other r) \<noteq> Using))"
proof -
  note inv = serial_reached_inv [OF reach]
  have "thread_cost (thread h (mpoll h)) \<le> 6" by (cases "thread h (mpoll h)") simp_all
  with join have "stop_effort r h \<le> 6 * queued h (mpoll h) + 11" by (simp add: stop_effort_def thread_effort_def)
  moreover from uevent_stop.wait_bounded [OF inv run] have inv': "stop_inv h'" and last:
      "n = 0 \<or> joining (pc h' r) \<or> pc h' r = Idle" and "n + stop_effort r h' \<le> stop_effort r h"
    by blast+
  moreover have "joining (pc h' r) \<or> pc h' r = Idle"
    using last run join by (cases n) auto
  moreover have "joining (pc h' r) \<Longrightarrow> (\<nexists>h2. stop_own h' h2) \<longleftrightarrow> lost_signal (mpoll h') h' \<and> pc h' (other r) \<noteq> Using"
    using stuck_iff [OF inv'] by (simp add: stuck_def)
  ultimately show ?thesis by auto
qed

theorem unregister_join_witness:
  "\<exists>h h'. serial_reached h \<and> pc h First = Joining 0 \<and> (join_waits First ^^ 2) h h' \<and> (\<nexists>h2. stop_own h' h2)"
proof -
  let ?h = "at (Joining 0) Entering None False False True" and ?h' = "at (Joining 0) Polling None False True False"
  have "(join_waits First ^^ Suc 0) ?h (at (Joining 0) Entering None False True False)"
    using lost_run(1) by (simp only: relpowp_Suc_0)
  then have "(join_waits First ^^ Suc (Suc 0)) ?h ?h'" using lost_run(2) by (rule relpowp_Suc_I)
  then have run: "(join_waits First ^^ 2) ?h ?h'" by (simp only: numeral_2_eq_2)
  from unregister_join [OF entering_run _ run] lost_run(3) have "\<nexists>h2. stop_own ?h' h2" by simp
  with run entering_run show ?thesis by (intro exI [of _ ?h] exI [of _ ?h']) (simp only: stop_run.select_convs fun_upd_same simp_thms)
qed

text \<open>
  C20. Where calls of \<open>setCallback\<close> do not overlap, a join that lost its signal stays so until a uevent
  arrives or the wait fails, whatever else happens; and the next uevent ends it: then the thread handles
  it, finds \<open>destroyThread\<close> set and leaves, and the join returns within nine steps.
\<close>

theorem stuck_until_uevent:
  assumes "serial_reached h" and "joining (pc h r)" and lost: "lost_signal (mpoll h) h"
  shows "(serial_step h h2 \<longrightarrow> h2 = uevent_arrives h \<or> failed h2 (mpoll h) \<or>
      joining (pc h2 r) \<and> mpoll h2 = mpoll h \<and> lost_signal (mpoll h) h2) \<and>
    ((join_waits r ^^ n) (uevent_arrives h) h' \<longrightarrow> n \<le> 9 \<and> (pc h' r = Idle \<or> (\<exists>h3. join_waits r h' h3)))"
proof (intro conjI impI)
  note inv = serial_reached_inv [OF assms(1)]
  assume "serial_step h h2"
  then have "stop_step h h2" by (simp add: serial_step_def)
  then show "h2 = uevent_arrives h \<or> failed h2 (mpoll h) \<or> joining (pc h2 r) \<and> mpoll h2 = mpoll h \<and> lost_signal (mpoll h) h2"
  proof cases
    case own
    with inv assms(2) show ?thesis
      by (rule joining_own) (use lost assms(2) in \<open>auto simp: lost_signal_def elim!: poll_thread_stepE\<close>)
  next
    case (begins q)
    with assms(2) have "q \<noteq> r" by (auto elim!: call_beginE)
    with begins lost assms(2) show ?thesis by (auto simp: lost_signal_def elim!: call_beginE)
  next
    case (failure i)
    with inv have "i = mpoll h" by (auto simp: stop_inv_def threads_ok_def)
    with failure show ?thesis by simp
  qed simp
next
  let ?h = "uevent_arrives h"
  have "serial_step h ?h"
    by (rule uevent_serial [OF serial_reached_inv [OF assms(1)]])
  moreover have join: "joining (pc ?h r)" using assms(2) by (simp add: uevent_arrives_def)
  ultimately have "told r ?h"
    using stop_inv_step [OF serial_reached_inv [OF assms(1)]] lost
    by (simp add: told_def) (simp add: lost_signal_def uevent_arrives_def)
  moreover have "(\<lambda>s s'. joining (pc s r) \<and> join_waits r s s') = join_waits r"
    by (auto simp: fun_eq_iff)
  moreover have "stop_effort r ?h \<le> 9"
    using lost by (simp add: stop_effort_def thread_effort_def lost_signal_def uevent_arrives_def)
  moreover assume "(join_waits r ^^ n) ?h h'"
  ultimately have "n \<le> 9 \<and> (pc h' r = Idle \<or> (\<exists>h3. join_waits r h' h3))"
    using told_stop.join_returns [of r ?h n h'] join by simp
  then show "n \<le> 9" and "pc h' r = Idle \<or> (\<exists>h3. join_waits r h' h3)" by blast+
qed

theorem stuck_until_uevent_witness:
  "\<exists>h. serial_reached h \<and> pc h First = Joining 0 \<and> (\<nexists>h2. stop_own h h2) \<and> (\<exists>h'. join_waits First (uevent_arrives h) h')"
proof -
  let ?h = "at (Joining 0) Polling None False True False"
  have "stuck First ?h" using lost_run(3) by (simp add: stuck_def)
  then have "\<nexists>h2. stop_own ?h h2" using stuck_iff [OF serial_reached_inv [OF lost_reached], of First] by simp
  moreover have "\<exists>h3. join_waits First (uevent_arrives ?h) h3"
    using stuck_until_uevent [OF lost_reached _, of First, THEN conjunct2, THEN mp, OF _ _ relpowp_0_I] lost_run(3)
    by (simp add: uevent_arrives_def)
  ultimately show ?thesis using lost_reached by (intro exI [of _ ?h]) (simp only: stop_run.select_convs fun_upd_same simp_thms)
qed

section \<open>The thread and the callback\<close>

text \<open>
  C22. Where calls of \<open>setCallback\<close> do not overlap, in every interleaving: at most one uevent thread runs;
  outside of \<open>setCallback\<close> a thread has been created and not joined while a callback is registered, it has
  not been told to stop and it runs unless one of its own calls failed, and none runs while no callback is
  registered; and \<open>destroyThread\<close> is only reset while no thread runs.
\<close>

theorem thread_while_registered:
  assumes "serial_reached h" and "serial_step h h'"
  shows "(alive (thread h i) \<longrightarrow> i = mpoll h) \<and>
    ((\<forall>r. \<not> in_setCallback (pc h r)) \<longrightarrow>
       (if callback h then thread h (mpoll h) \<notin> {Absent, Joined} \<and> \<not> pending h (mpoll h) \<and> \<not> destroy h \<and>
          (thread h (mpoll h) = Ended \<longrightarrow> failed h (mpoll h))
        else \<not> alive (thread h i))) \<and>
    (destroy h \<and> \<not> destroy h' \<longrightarrow> \<not> alive (thread h i))"
proof -
  from serial_reached_inv [OF assms(1)] have inv: "threads_ok h" "setters_ok h" by (simp_all add: stop_inv_def)
  then have one: "alive (thread h i) \<Longrightarrow> i = mpoll h" by (auto simp: threads_ok_def)
  have "thread_down h" if "destroy h \<and> \<not> destroy h'"
  proof -
    from assms(2) have "stop_step h h'" by (simp add: serial_step_def)
    with that obtain r where "pc h r = Entered True" "\<not> callback h"
      by (auto elim!: stop_stepE stop_ownE call_stepE poll_thread_stepE call_beginE simp: uevent_arrives_def)
    moreover have "setter_ok (pc h r) h" using inv(2) by (simp add: setters_ok_def)
    ultimately show ?thesis by (simp add: at_rest_def)
  qed
  with inv(2) one show ?thesis
    by (cases "i = mpoll h") (auto simp: setters_ok_def at_rest_def thread_up_def thread_down_def)
qed

theorem thread_while_registered_witness:
  "\<exists>h h'. serial_reached h \<and> serial_step h h' \<and> callback h \<and> pc h = (\<lambda>_. Idle) \<and> alive (thread h 0) \<and> \<not> alive (thread h 1)"
proof -
  let ?h = "at Idle Testing None True False False"
  have step: "serial_step ?h (uevent_arrives ?h)"
    by (rule uevent_serial [OF serial_reached_inv [OF registered_run]])
  from thread_while_registered [OF registered_run step, of 1] registered_run step show ?thesis
    by (intro exI [of _ ?h] exI [of _ "uevent_arrives ?h"]) auto
qed

section \<open>Overlapping calls\<close>

text \<open>The first request joins a thread that nobody tells to stop, beside the thread of a new registration.\<close>

definition left_behind :: "stop_run \<Rightarrow> bool" where
  "left_behind h \<longleftrightarrow> pc h First = Joining 0 \<and> pc h Second = Idle \<and> callback h \<and> \<not> destroy h \<and>
     (\<forall>i. \<not> pending h i) \<and> alive (thread h 0) \<and> alive (thread h 1)"

lemma left_behind_own:
  assumes "left_behind h" and own: "stop_own h h'"
  shows "left_behind h'"
  using own
proof cases
  case (request r)
  with assms(1) show ?thesis by (cases r) (auto simp: left_behind_def elim!: call_stepE)
next
  case (thread i)
  with assms(1) show ?thesis by (auto simp: left_behind_def elim!: poll_thread_stepE)
qed

lemma serial_stop: "serial_reached h \<Longrightarrow> reached stop_start stop_step h"
  by (induction rule: reached.induct) (auto simp: serial_step_def intro: reached.intros)

abbreviation overlap :: "request_pc \<Rightarrow> request_pc \<Rightarrow> thread_at \<Rightarrow> lock_holder option \<Rightarrow> bool \<Rightarrow> bool \<Rightarrow> bool \<Rightarrow> stop_run" where
  "overlap p q t l c d s \<equiv> \<lparr>pc = (\<lambda>_. Idle)(First := p, Second := q), thread = (\<lambda>_. Absent)(0 := t), created = 1,
     mpoll = 0, m_lock = l, callback = c, destroy = d, pending = (\<lambda>_. False)(0 := s), queued = (\<lambda>_. 0)(0 := 0),
     late = (\<lambda>_. False)(0 := False), failed = (\<lambda>_. False)(0 := False)\<rparr>"

abbreviation overlap_two :: "request_pc \<Rightarrow> thread_at \<Rightarrow> thread_at \<Rightarrow> lock_holder option \<Rightarrow> stop_run" where
  "overlap_two q t u l \<equiv> \<lparr>pc = (\<lambda>_. Idle)(First := Joining 0, Second := q), thread = (\<lambda>_. Absent)(0 := t, 1 := u), created = 2,
     mpoll = 1, m_lock = l, callback = True, destroy = False, pending = (\<lambda>_. False)(0 := False, 1 := False),
     queued = (\<lambda>_. 0)(0 := 0, 1 := 0), late = (\<lambda>_. False)(0 := False, 1 := False),
     failed = (\<lambda>_. False)(0 := False, 1 := False)\<rparr>"

abbreviation stop_reached :: "stop_run \<Rightarrow> bool" where
  "stop_reached \<equiv> reached stop_start stop_step"

lemma go_any:
  "stop_reached h \<Longrightarrow> call_step r h h' \<Longrightarrow> stop_reached h'"
  "stop_reached h \<Longrightarrow> poll_thread_step i h h' \<Longrightarrow> stop_reached h'"
  "stop_reached h \<Longrightarrow> call_begin r h h' \<Longrightarrow> stop_reached h'"
  by (blast intro: reached.next_step stop_step.own stop_step.begins stop_own.intros)+

lemma overlap_run: "stop_reached (overlap_two Idle Testing Starting None)"
proof -
  have "stop_reached (at Idle Testing None True False False)" by (rule serial_stop [OF registered_run])
  from go_any(3) [OF this enter_call [where r = First and b = False]]
  have "stop_reached (at (Entered False) Testing (Some (Request First)) True False False)" by simp
  from go_any(1) [OF this clear [where r = First]]
  have "stop_reached (at Cleared Testing (Some (Request First)) False False False)" by simp
  from go_any(1) [OF this release [where r = First]] have "stop_reached (at Released Testing None False False False)" by simp
  from go_any(1) [OF this kill [where r = First]] have "stop_reached (at Killed Testing None False False True)" by simp
  from go_any(1) [OF this join_start [where r = First]]
  have "stop_reached (at (Joining 0) Testing None False False True)" by simp
  from go_any(2) [OF this deliver [where i = 0]]
  have "stop_reached ((at (Joining 0) Testing None False True False)\<lparr>late := (\<lambda>_. False)(0 := False)\<rparr>)" by simp
  from go_any(3) [OF this enter_call [where r = Second and b = True]]
  have "stop_reached (overlap (Joining 0) (Entered True) Testing (Some (Request Second)) False True False)" by simp
  from go_any(1) [OF this reset [where r = Second]]
  have "stop_reached (overlap (Joining 0) Resetting Testing (Some (Request Second)) True False False)" by simp
  from go_any(1) [OF this create [where r = Second]]
  have "stop_reached (overlap_two Created Testing Starting (Some (Request Second)))" by (simp add: numeral_2_eq_2)
  from go_any(1) [OF this registered [where r = Second]] show ?thesis by (simp add: numeral_2_eq_2)
qed

text \<open>
  Where two calls of \<open>setCallback\<close> overlap this fails: a registration that comes in while another
  request waits in \<open>pthread_join\<close> resets \<open>destroyThread\<close> before the old thread has seen it and creates a
  second thread; then two threads run, and the first request waits for one that is not told to stop,
  whatever the two requests under way and the threads do from then on.
\<close>

theorem overlapping_registrations:
  "\<exists>h. reached stop_start stop_step h \<and> pc h First = Joining 0 \<and> thread h 0 = Testing \<and> thread h 1 = Starting \<and>
     Collect (stop_own\<^sup>*\<^sup>* h) \<subseteq> {h'. pc h' First = Joining 0 \<and> alive (thread h' 0) \<and> alive (thread h' 1) \<and> \<not> destroy h' \<and>
       callback h'}"
proof -
  let ?h = "overlap_two Idle Testing Starting None"
  have start: "left_behind ?h" by (simp add: left_behind_def)
  have "left_behind h'" if "stop_own\<^sup>*\<^sup>* ?h h'" for h'
    using that by (induction rule: rtranclp_induct) (use start left_behind_own in auto)
  then have "Collect (stop_own\<^sup>*\<^sup>* ?h) \<subseteq> {h'. pc h' First = Joining 0 \<and> alive (thread h' 0) \<and> alive (thread h' 1) \<and>
      \<not> destroy h' \<and> callback h'}"
    by (auto simp: left_behind_def)
  with overlap_run show ?thesis by (intro exI [of _ ?h]) simp
qed

end
