(* ===== verification/UsbStopRuns.thy ===== *)
theory UsbStopRuns
  imports UsbStop UsbUevents
begin

text \<open>
  The code of \<open>setCallback\<close> as runs of the step relation of \<open>UsbStop\<close>: over any sequence of registrations
  the calls on \<open>mLock\<close>, the signal and the thread are, in their order, those of a path, whatever
  \<open>pthread_create\<close> and \<open>pthread_kill\<close> return.
\<close>

section \<open>The calls of a step\<close>

fun setter_calls :: "request_pc \<Rightarrow> request_pc \<Rightarrow> usb_call history \<Rightarrow> bool" where
  "setter_calls Idle (Entered b) t = (t = [(Lock CallbackLock, Void)])"
| "setter_calls (Entered b) Idle t = (t = [(Unlock CallbackLock, Void)])"
| "setter_calls (Entered b) Resetting t = (t = [(Signal_sigusr1, Void)])"
| "setter_calls Resetting Created t = (t = [(Pthread_create, Num 0)])"
| "setter_calls Resetting Idle t = (\<exists>r. r \<noteq> 0 \<and> t = [(Pthread_create, Num r), (Unlock CallbackLock, Void)])"
| "setter_calls Created Idle t = (t = [(Unlock CallbackLock, Void)])"
| "setter_calls (Entered b) Cleared t = (t = [])"
| "setter_calls Cleared Released t = (t = [(Unlock CallbackLock, Void)])"
| "setter_calls Released Killed t = (t = [(Pthread_kill, Num 0)])"
| "setter_calls Released Idle t = (\<exists>r. r \<noteq> 0 \<and> t = [(Pthread_kill, Num r)])"
| "setter_calls Killed (Joining i) t = (t = [])"
| "setter_calls (Joining i) Idle t = (t = [(Pthread_join, Void)])"
| "setter_calls _ _ t = False"

text \<open>Of a step that moves one of the requests; the calls of the uevent threads are not among them.\<close>

definition stop_calls :: "stop_run \<Rightarrow> stop_run \<Rightarrow> usb_call history \<Rightarrow> bool" where
  "stop_calls h h' t \<longleftrightarrow>
     (if pc h' = pc h then t = []
      else \<exists>r. pc h' = (pc h)(r := pc h' r) \<and> setter_calls (pc h r) (pc h' r) t)"

abbreviation stop_path :: "stop_run \<Rightarrow> usb_call history \<Rightarrow> stop_run \<Rightarrow> bool" where
  "stop_path \<equiv> labelled_run serial_step stop_calls"

section \<open>The paths\<close>

text \<open>No call is under way, and the thread of a registered callback waits for events.\<close>

definition resting :: "bool \<Rightarrow> bool \<Rightarrow> stop_run \<Rightarrow> bool" where
  "resting up d h \<longleftrightarrow> (\<forall>r. pc h r = Idle) \<and> m_lock h = None \<and> callback h = up \<and> destroy h = d \<and>
     (if up then thread h (mpoll h) = Polling \<and> \<not> pending h (mpoll h) \<and> \<not> d else \<not> alive (thread h (mpoll h)))"

text \<open>The calls come in on the first thread for requests, the other one does nothing.\<close>

lemma path_next:
  assumes "stop_path h t h1" and "pc h1 Second = Idle" and "pc h2 = (pc h1)(First := q)"
  shows "call_step First h1 h2 \<Longrightarrow> pc h1 First \<noteq> q \<Longrightarrow> setter_calls (pc h1 First) q u \<Longrightarrow> stop_path h (t @ u) h2"
    and "call_begin First h1 h2 \<Longrightarrow> pc h1 First \<noteq> q \<Longrightarrow> setter_calls (pc h1 First) q u \<Longrightarrow> stop_path h (t @ u) h2"
    and "poll_thread_step i h1 h2 \<Longrightarrow> pc h1 First = q \<Longrightarrow> stop_path h t h2"
proof -
  have one: "one_setter h2" using assms(2,3) by (simp add: one_setter_def)
  have calls: "pc h1 First \<noteq> q \<Longrightarrow> setter_calls (pc h1 First) q u \<Longrightarrow> stop_calls h1 h2 u"
    unfolding stop_calls_def assms(3) by (auto simp: fun_eq_iff intro: exI [of _ First])
  have next_step: "stop_path h (t @ u) h2" if "stop_step h1 h2" "stop_calls h1 h2 u" for u
    using run_trans [OF assms(1) run_step [where step = serial_step]] that one by (simp add: serial_step_def)
  show "call_step First h1 h2 \<Longrightarrow> pc h1 First \<noteq> q \<Longrightarrow> setter_calls (pc h1 First) q u \<Longrightarrow> stop_path h (t @ u) h2"
    using next_step calls stop_step.own stop_own.request by blast
  show "call_begin First h1 h2 \<Longrightarrow> pc h1 First \<noteq> q \<Longrightarrow> setter_calls (pc h1 First) q u \<Longrightarrow> stop_path h (t @ u) h2"
    using next_step calls stop_step.begins by blast
  show "poll_thread_step i h1 h2 \<Longrightarrow> pc h1 First = q \<Longrightarrow> stop_path h t h2"
    using next_step [of "[]"] assms(3) stop_step.own stop_own.thread by (auto simp: stop_calls_def)
qed

lemma path_failure:
  assumes "stop_path h t h1" and "pc h1 Second = Idle" and "thread h1 i = Polling"
  shows "stop_path h t (h1\<lparr>thread := (thread h1)(i := Ended), failed := (failed h1)(i := True)\<rparr>)"
proof -
  let ?f = "h1\<lparr>thread := (thread h1)(i := Ended), failed := (failed h1)(i := True)\<rparr>"
  have "serial_step h1 ?f"
    using stop_step.failure [of h1 i] assms(2,3) by (simp add: serial_step_def one_setter_def)
  from run_trans [OF assms(1) run_step [where step = serial_step, OF this, of stop_calls "[]"]] show ?thesis
    by (simp add: stop_calls_def)
qed

lemma path_entered:
  assumes "resting up d h"
  shows "stop_path h [(Lock CallbackLock, Void)] (h\<lparr>pc := (pc h)(First := Entered b), m_lock := Some (Request First)\<rparr>)"
proof -
  have "call_begin First h (h\<lparr>pc := (pc h)(First := Entered b), m_lock := Some (Request First)\<rparr>)"
    using enter_call [of h First b] assms by (simp add: resting_def)
  from path_next(2) [OF labelled_run.stay [of _ _ h] _ _ this, where q = "Entered b" and u = "[(Lock CallbackLock, Void)]"] assms
  show ?thesis by (simp add: resting_def)
qed

lemma path_keep:
  assumes "resting up d h"
  shows "\<exists>h'. stop_path h [(Lock CallbackLock, Void), (Unlock CallbackLock, Void)] h' \<and> resting up d h'"
proof -
  from path_next(1) [OF path_entered [OF assms] _ _ keep, where q = Idle and u = "[(Unlock CallbackLock, Void)]"] assms
  show ?thesis by (intro exI [of _ "h\<lparr>pc := (pc h)(First := Idle), m_lock := None\<rparr>"]) (auto simp: resting_def)
qed

lemma path_register:
  assumes "resting False d h"
  shows "\<exists>h'. stop_path h
      [(Lock CallbackLock, Void), (Signal_sigusr1, Void), (Pthread_create, Num 0), (Unlock CallbackLock, Void)] h' \<and>
      resting True False h'"
    "r \<noteq> 0 \<Longrightarrow> \<exists>h'. stop_path h
      [(Lock CallbackLock, Void), (Signal_sigusr1, Void), (Pthread_create, Num r), (Unlock CallbackLock, Void)] h' \<and>
      resting False False h'"
proof -
  note idle = assms [unfolded resting_def]
  from path_next(1) [OF path_entered [OF assms] _ _ reset, where q = Resetting and u = "[(Signal_sigusr1, Void)]"] idle
  obtain h1 where p1: "stop_path h [(Lock CallbackLock, Void), (Signal_sigusr1, Void)] h1"
    and h1: "pc h1 First = Resetting" "pc h1 Second = Idle" "callback h1" "\<not> destroy h1" "mpoll h1 = mpoll h" "thread h1 = thread h"
    by fastforce
  from path_next(1) [OF p1 _ _ create, where q = Created and u = "[(Pthread_create, Num 0)]"] h1
  obtain h2 where p2: "stop_path h [(Lock CallbackLock, Void), (Signal_sigusr1, Void), (Pthread_create, Num 0)] h2"
    and h2: "pc h2 First = Created" "pc h2 Second = Idle" "callback h2" "\<not> destroy h2" "thread h2 (mpoll h2) = Starting"
      "\<not> pending h2 (mpoll h2)"
    by fastforce
  from path_next(1) [OF p2 _ _ registered, where q = Idle and u = "[(Unlock CallbackLock, Void)]"] h2
  obtain h3 where p3: "stop_path h [(Lock CallbackLock, Void), (Signal_sigusr1, Void), (Pthread_create, Num 0),
      (Unlock CallbackLock, Void)] h3"
    and h3: "pc h3 First = Idle" "pc h3 Second = Idle" "callback h3" "\<not> destroy h3" "thread h3 (mpoll h3) = Starting"
      "\<not> pending h3 (mpoll h3)" "m_lock h3 = None"
    by fastforce
  from path_next(3) [OF p3 _ _ opened, where q = Idle] h3
  obtain h4 where p4: "stop_path h [(Lock CallbackLock, Void), (Signal_sigusr1, Void), (Pthread_create, Num 0),
      (Unlock CallbackLock, Void)] h4"
    and h4: "pc h4 First = Idle" "pc h4 Second = Idle" "callback h4" "\<not> destroy h4" "thread h4 (mpoll h4) = Testing"
      "\<not> pending h4 (mpoll h4)" "m_lock h4 = None"
    by fastforce
  from path_next(3) [OF p4 _ _ go_on, where q = Idle] h4
  obtain h5 where p5: "stop_path h [(Lock CallbackLock, Void), (Signal_sigusr1, Void), (Pthread_create, Num 0),
      (Unlock CallbackLock, Void)] h5"
    and h5: "pc h5 First = Idle" "pc h5 Second = Idle" "callback h5" "\<not> destroy h5" "thread h5 (mpoll h5) = Entering"
      "\<not> pending h5 (mpoll h5)" "m_lock h5 = None"
    by fastforce
  from path_next(3) [OF p5 _ _ enter, where q = Idle] h5
  show "\<exists>h'. stop_path h
      [(Lock CallbackLock, Void), (Signal_sigusr1, Void), (Pthread_create, Num 0), (Unlock CallbackLock, Void)] h' \<and>
      resting True False h'"
    by (fastforce simp: resting_def all_requesters)
  show "\<exists>h'. stop_path h
      [(Lock CallbackLock, Void), (Signal_sigusr1, Void), (Pthread_create, Num r), (Unlock CallbackLock, Void)] h' \<and>
      resting False False h'" if "r \<noteq> 0"
    using path_next(1) [OF p1 _ _ create_failed, where q = Idle and u = "[(Pthread_create, Num r), (Unlock CallbackLock, Void)]"] h1 that idle
    by (fastforce simp: resting_def all_requesters)
qed

lemma path_released:
  assumes "resting True d h"
  obtains h' where "stop_path h [(Lock CallbackLock, Void), (Unlock CallbackLock, Void)] h'" and "pc h' First = Released"
    and "pc h' Second = Idle" and "\<not> callback h'" and "\<not> destroy h'" and "thread h' (mpoll h') = Polling"
    and "m_lock h' = None" and "\<not> pending h' (mpoll h')"
proof -
  note idle = assms [unfolded resting_def]
  from path_next(1) [OF path_entered [OF assms] _ _ clear, where q = Cleared and u = "[]"] idle
  obtain h1 where p1: "stop_path h [(Lock CallbackLock, Void)] h1"
    and h1: "pc h1 First = Cleared" "pc h1 Second = Idle" "\<not> callback h1" "\<not> destroy h1" "thread h1 (mpoll h1) = Polling"
      "\<not> pending h1 (mpoll h1)"
    by fastforce
  from path_next(1) [OF p1 _ _ release, where q = Released and u = "[(Unlock CallbackLock, Void)]"] h1 show ?thesis
    by (fastforce intro: that)
qed

text \<open>The thread is told and joined; or it failed before, and \<open>pthread_kill\<close> does not find it.\<close>

lemma path_unregister:
  assumes "resting True d h"
  shows "\<exists>h'. stop_path h
      [(Lock CallbackLock, Void), (Unlock CallbackLock, Void), (Pthread_kill, Num 0), (Pthread_join, Void)] h' \<and>
      resting False True h'"
    "r \<noteq> 0 \<Longrightarrow> \<exists>h'. stop_path h [(Lock CallbackLock, Void), (Unlock CallbackLock, Void), (Pthread_kill, Num r)] h' \<and>
      resting False False h'"
proof -
  from path_released [OF assms] obtain h1
    where p1: "stop_path h [(Lock CallbackLock, Void), (Unlock CallbackLock, Void)] h1"
      and h1: "pc h1 First = Released" "pc h1 Second = Idle" "\<not> callback h1" "\<not> destroy h1" "thread h1 (mpoll h1) = Polling"
        "m_lock h1 = None" "\<not> pending h1 (mpoll h1)" .
  from path_next(1) [OF p1 _ _ kill, where q = Killed and u = "[(Pthread_kill, Num 0)]"] h1
  obtain h2 where p2: "stop_path h [(Lock CallbackLock, Void), (Unlock CallbackLock, Void), (Pthread_kill, Num 0)] h2"
    and h2: "pc h2 First = Killed" "pc h2 Second = Idle" "\<not> callback h2" "thread h2 (mpoll h2) = Polling"
      "pending h2 (mpoll h2)" "m_lock h2 = None"
    by fastforce
  from path_next(1) [OF p2 _ _ join_start, where q = "Joining (mpoll h2)" and u = "[]"] h2
  obtain h3 where p3: "stop_path h [(Lock CallbackLock, Void), (Unlock CallbackLock, Void), (Pthread_kill, Num 0)] h3"
    and h3: "pc h3 First = Joining (mpoll h3)" "pc h3 Second = Idle" "\<not> callback h3" "thread h3 (mpoll h3) = Polling"
      "pending h3 (mpoll h3)" "m_lock h3 = None"
    by fastforce
  from path_next(3) [OF p3 _ _ deliver, where q = "Joining (mpoll h3)"] h3
  obtain h4 where p4: "stop_path h [(Lock CallbackLock, Void), (Unlock CallbackLock, Void), (Pthread_kill, Num 0)] h4"
    and h4: "pc h4 First = Joining (mpoll h4)" "pc h4 Second = Idle" "\<not> callback h4" "thread h4 (mpoll h4) = Testing"
      "destroy h4" "m_lock h4 = None"
    by fastforce
  from path_next(3) [OF p4 _ _ leave, where q = "Joining (mpoll h4)"] h4
  obtain h5 where p5: "stop_path h [(Lock CallbackLock, Void), (Unlock CallbackLock, Void), (Pthread_kill, Num 0)] h5"
    and h5: "pc h5 First = Joining (mpoll h5)" "pc h5 Second = Idle" "\<not> callback h5" "thread h5 (mpoll h5) = Ended"
      "destroy h5" "m_lock h5 = None"
    by fastforce
  from path_next(1) [OF p5 _ _ join, where q = Idle and u = "[(Pthread_join, Void)]"] h5
  show "\<exists>h'. stop_path h
      [(Lock CallbackLock, Void), (Unlock CallbackLock, Void), (Pthread_kill, Num 0), (Pthread_join, Void)] h' \<and>
      resting False True h'"
    by (fastforce simp: resting_def all_requesters)
  show "\<exists>h'. stop_path h [(Lock CallbackLock, Void), (Unlock CallbackLock, Void), (Pthread_kill, Num r)] h' \<and>
      resting False False h'" if "r \<noteq> 0"
    using path_next(1) [OF path_failure [OF p1, of "mpoll h1"] _ _ kill_failed, where q = Idle and u = "[(Pthread_kill, Num r)]"]
      h1 that
    by (fastforce simp: resting_def all_requesters)
qed

section \<open>The code\<close>

definition on_path :: "usb \<Rightarrow> bool" where
  "on_path u \<longleftrightarrow> (\<exists>h0 h. stop_start h0 \<and> stop_path h0 (hist u) h \<and> resting (mCallback u \<noteq> No_callback) (destroyThread u) h)"

lemma on_path_next:
  "stop_start h0 \<Longrightarrow> stop_path h0 (hist u) h \<Longrightarrow> \<exists>h'. stop_path h t h' \<and> resting up d h' \<Longrightarrow>
    \<exists>h0 h. stop_start h0 \<and> stop_path h0 (hist u @ t) h \<and> resting up d h"
  using run_trans [of serial_step stop_calls h0 "hist u" h t] by blast

lemma setCallback_on_path:
  assumes "on_path u"
  shows "wp (setCallback E cb) (\<lambda>_. on_path) u"
proof -
  from assms obtain h0 h where start: "stop_start h0" and path: "stop_path h0 (hist u) h"
    and rest: "resting (mCallback u \<noteq> No_callback) (destroyThread u) h"
    unfolding on_path_def by blast
  note extend = on_path_next [OF start path]
  note rules = wp_rules Let_def setCallback_def sighandler_def on_path_def
  show ?thesis
  proof (cases "(mCallback u = No_callback) = (cb = No_callback)")
    case True
    with extend [OF path_keep [OF rest]] show ?thesis by (auto simp: rules)
  next
    case False
    show ?thesis
    proof (cases "mCallback u = No_callback")
      case up: False
      with rest have "resting True (destroyThread u) h" "\<not> destroyThread u" by (simp_all add: resting_def)
      with extend [OF path_unregister(1)] extend [OF path_unregister(2)] up False show ?thesis by (simp add: rules)
    next
      case True
      with rest have "resting False (destroyThread u) h" by simp
      with extend [OF path_register(1)] extend [OF path_register(2)] True False show ?thesis by (simp add: rules)
    qed
  qed
qed

text \<open>
  C21. The code of \<open>setCallback\<close> is the setter of the step relation: over any sequence of registrations,
  one after the other and whatever \<open>pthread_create\<close> and \<open>pthread_kill\<close> return, the calls on \<open>mLock\<close>, on the
  signal and on the thread are those of a path of the relation, which ends with the same callback and
  \<open>destroyThread\<close>, and with a running thread of \<open>mPoll\<close> exactly if a callback is registered.
\<close>

theorem registrations_are_stop_runs:
  "let u = snd (run_state (for_each cbs (setCallback E)) new_usb) in
     \<exists>h0 h. stop_start h0 \<and> stop_path h0 (hist u) h \<and> (\<forall>r. pc h r = Idle) \<and> callback h = (mCallback u \<noteq> No_callback) \<and>
       destroy h = destroyThread u \<and> alive (thread h (mpoll h)) = (mCallback u \<noteq> No_callback)"
proof -
  have "on_path u \<Longrightarrow> on_path (snd (run_state (for_each cbs (setCallback E)) u))" for u
  proof (induction cbs arbitrary: u)
    case (Cons cb cbs)
    from setCallback_on_path [OF Cons.prems] have "on_path (snd (run_state (setCallback E cb) u))"
      by (simp add: wp_iff)
    with Cons.IH show ?case by (simp add: split_beta)
  qed simp
  moreover have "on_path new_usb"
  proof -
    let ?h = "\<lparr>pc = (\<lambda>_. Idle), thread = (\<lambda>_. Absent), created = 0, mpoll = 0, m_lock = None, callback = False, destroy = False,
      pending = (\<lambda>_. False), queued = (\<lambda>_. 0), late = (\<lambda>_. False), failed = (\<lambda>_. False)\<rparr>"
    show ?thesis unfolding on_path_def new_usb_def
      by (rule exI [of _ ?h], rule exI [of _ ?h]) (simp add: labelled_run.stay stop_start_def resting_def)
  qed
  ultimately have "on_path (snd (run_state (for_each cbs (setCallback E)) new_usb))" .
  then show ?thesis unfolding on_path_def Let_def resting_def by (auto split: if_splits) (metis alive.simps)+
qed

end
