(* ===== verification/Health.thy ===== *)
theory Health
  imports CText
begin

text \<open>
  The state of the health service and what the two backup classes share: the record of their members
  and of the static variables, the calls to \<open>android-base\<close>, and the contract of a backup unit, whose
  client is \<open>health/HealthService.cpp\<close>.

  \<open>android::base::Trim\<close> and \<open>Split\<close> are parameters, as is the value that \<open>sscanf("%d")\<close> stores for a
  number that does not fit an \<open>int\<close>.
\<close>

section \<open>State and calls\<close>

datatype health_call =
    Read_file string              \<comment> \<open>\<open>ReadFileToString\<close>\<close>
  | Write_file string string      \<comment> \<open>\<open>WriteStringToFile\<close>: path, content\<close>

record health_lib =
  Trim :: "string \<Rightarrow> string"
  Split :: "string \<Rightarrow> string \<Rightarrow> string list"
  Overflow :: "int \<Rightarrow> 32 word"

text \<open>The private members of the two classes, and the statics of \<open>cycle_count_backup\<close>: the service is one object.\<close>

record cycle_counts = "health_call world" +
  sw_bins :: "int list"           \<comment> \<open>\<open>CycleCountBackupRestore::sw_bins_\<close>\<close>
  hw_bins :: "int list"

record learned_capacity = cycle_counts +
  sw_cap :: int                   \<comment> \<open>\<open>LearnedCapacityBackupRestore::sw_cap_\<close>\<close>
  hw_cap :: int
  nom_cap :: int

record health = learned_capacity +
  saved_soc :: int
  soc_inc :: int
  is_first :: bool

type_synonym 'a health_op = "(health, 'a) state"

definition kBucketCount :: nat where "kBucketCount = 8"
definition kBuffSize :: nat where "kBuffSize = 256"

text \<open>Static storage is zero before the program starts.\<close>

definition new_health :: health where
  "new_health = \<lparr>hist = [], sw_bins = replicate kBucketCount 0, hw_bins = replicate kBucketCount 0,
     sw_cap = 0, hw_cap = 0, nom_cap = 0, saved_soc = 0, soc_inc = 0, is_first = True\<rparr>"

lemma new_health_fields:
  "hist new_health = []" "sw_bins new_health = replicate kBucketCount 0" "hw_bins new_health = replicate kBucketCount 0"
  "sw_cap new_health = 0" "hw_cap new_health = 0" "nom_cap new_health = 0"
  by (simp_all add: new_health_def)

section \<open>Numbers in a file\<close>

text \<open>
  \<open>sscanf\<close> of up to \<open>length old\<close> numbers over the variables \<open>old\<close>: those that are matched are replaced,
  the others keep their value.
\<close>

definition load_ints :: "(int \<Rightarrow> 32 word) \<Rightarrow> string \<Rightarrow> int list \<Rightarrow> int list" where
  "load_ints ovf buffer old =
     (let vs = map (stored_int ovf) (scan_ints (length old) (c_str buffer))
      in vs @ drop (length vs) old)"

definition ints_valid :: "nat \<Rightarrow> int list \<Rightarrow> bool" where
  "ints_valid n is \<longleftrightarrow> length is = n \<and> list_all int32 is"

lemma scan_ints_length: "length (scan_ints n s) \<le> n"
  by (induction n s rule: scan_ints.induct) (auto split: option.split)

lemma load_ints_length: "length (load_ints ovf buffer old) = length old"
  using scan_ints_length [of "length old" "c_str buffer"] by (simp add: load_ints_def Let_def)

lemma c_str_id: "NUL \<notin> set s \<Longrightarrow> c_str s = s"
  by (simp add: c_str_def takeWhile_eq_all_conv) blast

lemma no_NUL_print_int: "NUL \<notin> set (print_int i)"
  using print_int_printable [of i] by (auto simp: list_all_iff isdigit_def)

lemma no_NUL_print_ints: "NUL \<notin> set (print_ints is)"
  by (induction "is" rule: print_ints.induct) (simp_all add: no_NUL_print_int)

lemma load_print_ints:
  assumes "ints_valid n is" and "length old = n"
  shows "load_ints ovf (print_ints is) old = is"
proof -
  have "map (stored_int ovf) is = is"
    using assms(1) by (intro map_idI) (auto simp: ints_valid_def list_all_iff)
  then show ?thesis
    using assms scan_print_ints [of "is"] by (simp add: load_ints_def ints_valid_def c_str_id no_NUL_print_ints)
qed

section \<open>The contract of a backup unit\<close>

text \<open>The contents of a file after a history: what was last written with success.\<close>

definition written :: "string \<Rightarrow> string \<Rightarrow> health_call \<times> answer \<Rightarrow> string" where
  "written p old e = (case e of (Write_file q s, Flag True) \<Rightarrow> (if q = p then s else old) | _ \<Rightarrow> old)"

definition contents :: "string \<Rightarrow> string \<Rightarrow> health_call history \<Rightarrow> string" where
  "contents p old t = foldl (written p) old t"

lemma contents_append: "contents p old (t @ u) = contents p (contents p old t) u"
  by (simp add: contents_def)

definition writes_succeed :: "health_call history \<Rightarrow> bool" where
  "writes_succeed t \<longleftrightarrow> list_all (\<lambda>e. case e of (Write_file q s, Flag ok) \<Rightarrow> ok | _ \<Rightarrow> True) t"

lemma writes_succeed_append [simp]: "writes_succeed (t @ u) \<longleftrightarrow> writes_succeed t \<and> writes_succeed u"
  by (simp add: writes_succeed_def)

text \<open>
  What the service relies on when it calls \<open>Backup()\<close> of a unit: afterwards the saved copy and the
  value of the fuel gauge agree, and the unit's file, if its write succeeded, holds the text of the
  saved copy, when it did so before.
\<close>

locale backup_unit =
  fixes backup :: "unit health_op"
    and good :: "health \<Rightarrow> bool"
    and saved gauge :: "health \<Rightarrow> 'v"
    and store :: string
    and text_of :: "'v \<Rightarrow> string"
  assumes stays_good: "good h \<Longrightarrow> good (snd (run_state backup h))"
    and synced: "good h \<Longrightarrow> saved (snd (run_state backup h)) = gauge (snd (run_state backup h))"
    and appends: "emits (\<lambda>_. True) backup"
    and keeps: "good h \<Longrightarrow> writes_succeed (emitted backup h) \<Longrightarrow>
      contents store (text_of (saved h)) (emitted backup h) = text_of (saved (snd (run_state backup h)))"
begin

abbreviation backups :: "nat \<Rightarrow> unit health_op" where
  "backups n \<equiv> for_each (replicate n ()) (\<lambda>_. backup)"

lemma backups_synced:
  "good h \<Longrightarrow> n \<noteq> 0 \<Longrightarrow> saved (snd (run_state (backups n) h)) = gauge (snd (run_state (backups n) h))"
proof (induction n arbitrary: h)
  case (Suc n)
  then show ?case by (cases n) (simp_all add: split_beta synced stays_good)
qed simp

lemma backups_emitted:
  "emitted (backups (Suc n)) h = emitted backup h @ emitted (backups n) (snd (run_state backup h))"
  unfolding replicate.simps for_each.simps
  by (rule emitted_bind [where P = "\<lambda>_. True"]) (auto intro: appends emits_for_each)

lemma backups_keep:
  "good h \<Longrightarrow> writes_succeed (emitted (backups n) h) \<Longrightarrow>
     contents store (text_of (saved h)) (emitted (backups n) h) = text_of (saved (snd (run_state (backups n) h)))"
proof (induction n arbitrary: h)
  case 0
  then show ?case by (simp add: emitted_def contents_def)
next
  case (Suc n)
  let ?h = "snd (run_state backup h)"
  have ok: "writes_succeed (emitted backup h)" "writes_succeed (emitted (backups n) ?h)"
    using Suc.prems(2) unfolding backups_emitted by simp_all
  have "contents store (text_of (saved h)) (emitted (backups (Suc n)) h) =
      contents store (text_of (saved ?h)) (emitted (backups n) ?h)"
    unfolding backups_emitted contents_append keeps [OF Suc.prems(1) ok(1)] ..
  also have "\<dots> = text_of (saved (snd (run_state (backups (Suc n)) h)))"
    using Suc.IH [OF stays_good [OF Suc.prems(1)] ok(2)] by (simp add: split_beta)
  finally show ?case .
qed

end

end
