(* ===== verification/CycleCount.thy ===== *)
theory CycleCount
  imports Health
begin

text \<open>
  \<open>health/CycleCountBackupRestore.cpp\<close>: the eight charge cycle counters of the fuel gauge and their
  copy on the persist partition.  The counters only grow; whichever copy is behind is brought up.
\<close>

section \<open>The class\<close>

definition kCycCntFile :: string where
  "kCycCntFile = ''sys/class/power_supply/bms/device/cycle_counts_bins''"
definition kSysPersistFile :: string where
  "kSysPersistFile = ''/persist/battery/qcom_cycle_counts_bins''"

definition cc_ReadFromStorage :: "health_lib \<Rightarrow> health_call env \<Rightarrow> unit health_op" where
  "cc_ReadFromStorage L E = do {
     r \<leftarrow> call_text E (Read_file kSysPersistFile);
     case r of
       None \<Rightarrow> ret ()
     | Some buffer \<Rightarrow> modify (\<lambda>h. h\<lparr>sw_bins := load_ints (Overflow L) buffer (sw_bins h)\<rparr>)
   }"

definition cc_SaveToStorage :: "health_call env \<Rightarrow> unit health_op" where
  "cc_SaveToStorage E = do {
     bins \<leftarrow> gets sw_bins;
     _ \<leftarrow> call_flag E (Write_file kSysPersistFile (snprintf_buf kBuffSize (print_ints bins)));
     ret ()
   }"

definition cc_ReadFromSRAM :: "health_lib \<Rightarrow> health_call env \<Rightarrow> unit health_op" where
  "cc_ReadFromSRAM L E = do {
     r \<leftarrow> call_text E (Read_file kCycCntFile);
     case r of
       None \<Rightarrow> ret ()
     | Some buffer \<Rightarrow> modify (\<lambda>h. h\<lparr>hw_bins := load_ints (Overflow L) (Trim L buffer) (hw_bins h)\<rparr>)
   }"

definition cc_SaveToSRAM :: "health_call env \<Rightarrow> unit health_op" where
  "cc_SaveToSRAM E = do {
     bins \<leftarrow> gets hw_bins;
     _ \<leftarrow> call_flag E (Write_file kCycCntFile (snprintf_buf kBuffSize (print_ints bins)));
     ret ()
   }"

text \<open>The loop of \<open>UpdateAndSave\<close>: the new bins, and the flags \<open>restore\<close> and \<open>backup\<close>.\<close>

fun merge_bins :: "int list \<Rightarrow> int list \<Rightarrow> int list \<times> int list \<times> bool \<times> bool" where
  "merge_bins (h # hs) (s # ss) =
     (case merge_bins hs ss of (hs', ss', restore, backup) \<Rightarrow>
        if h < s then (s # hs', s # ss', True, backup)
        else if h > s then (h # hs', h # ss', restore, True)
        else (h # hs', s # ss', restore, backup))"
| "merge_bins hs ss = (hs, ss, False, False)"

definition cc_UpdateAndSave :: "health_call env \<Rightarrow> unit health_op" where
  "cc_UpdateAndSave E = do {
     hw \<leftarrow> gets hw_bins;
     sw \<leftarrow> gets sw_bins;
     let (hw', sw', restore, backup) = merge_bins hw sw;
     modify (\<lambda>h. h\<lparr>hw_bins := hw', sw_bins := sw'\<rparr>);
     (if restore then cc_SaveToSRAM E else ret ());
     (if backup then cc_SaveToStorage E else ret ())
   }"

definition cc_Restore :: "health_lib \<Rightarrow> health_call env \<Rightarrow> unit health_op" where
  "cc_Restore L E = do { cc_ReadFromStorage L E; cc_ReadFromSRAM L E; cc_UpdateAndSave E }"

definition cc_Backup :: "health_lib \<Rightarrow> health_call env \<Rightarrow> unit health_op" where
  "cc_Backup L E = do { cc_ReadFromSRAM L E; cc_UpdateAndSave E }"

section \<open>The text of the counters\<close>

interpretation cc_text: text_codec print_ints "load_ints ovf" "ints_valid kBucketCount" kBuffSize for ovf
proof unfold_locales
  fix v old
  assume v: "ints_valid kBucketCount v" and old: "ints_valid kBucketCount old"
  from load_print_ints [OF v] old show "load_ints ovf (print_ints v) old = v"
    by (simp add: ints_valid_def)
next
  fix v
  assume "ints_valid kBucketCount v"
  then show "length (print_ints v) < kBuffSize"
    using print_ints_length [of v] by (simp add: ints_valid_def kBucketCount_def kBuffSize_def)
qed

section \<open>The merge\<close>

text \<open>The specification: both copies become the pointwise maximum.\<close>

definition max_bins :: "int list \<Rightarrow> int list \<Rightarrow> int list" where
  "max_bins hw sw = map (\<lambda>(h, s). max h s) (zip hw sw)"

lemma merge_bins_max:
  "length hw = length sw \<Longrightarrow> merge_bins hw sw =
     (max_bins hw sw, max_bins hw sw, list_ex (\<lambda>(h, s). h < s) (zip hw sw), list_ex (\<lambda>(h, s). s < h) (zip hw sw))"
  by (induction hw sw rule: list_induct2) (auto simp: max_bins_def)

lemma max_bins_length [simp]: "length (max_bins hw sw) = min (length hw) (length sw)"
  by (simp add: max_bins_def)

lemma max_bins_same [simp]: "max_bins b b = b"
  by (induction b) (auto simp: max_bins_def)

lemma max_bins_ge: "length hw = length sw \<Longrightarrow> list_all2 (\<le>) sw (max_bins hw sw) \<and> list_all2 (\<le>) hw (max_bins hw sw)"
  by (auto simp: max_bins_def list_all2_conv_all_nth)

text \<open>What \<open>UpdateAndSave\<close> writes.\<close>

definition saves :: "health_call history \<Rightarrow> (string \<times> string) list" where
  "saves t = concat (map (\<lambda>e. case fst e of Write_file p s \<Rightarrow> [(p, s)] | _ \<Rightarrow> []) t)"

lemma saves_simps [simp]: "saves [] = []" "saves (t @ u) = saves t @ saves u"
  "saves ((Write_file p s, a) # t) = (p, s) # saves t" "saves ((Read_file p, a) # t) = saves t"
  by (simp_all add: saves_def)

lemma update_and_save:
  assumes "length (hw_bins h) = length (sw_bins h)"
  shows "let b = max_bins (hw_bins h) (sw_bins h) in
    \<exists>t. snd (run_state (cc_UpdateAndSave E) h) = h\<lparr>hw_bins := b, sw_bins := b, hist := hist h @ t\<rparr> \<and> saves t =
       (if list_ex (\<lambda>(h, s). h < s) (zip (hw_bins h) (sw_bins h))
        then [(kCycCntFile, snprintf_buf kBuffSize (print_ints b))] else []) @
       (if list_ex (\<lambda>(h, s). s < h) (zip (hw_bins h) (sw_bins h))
        then [(kSysPersistFile, snprintf_buf kBuffSize (print_ints b))] else [])"
  unfolding Let_def cc_UpdateAndSave_def cc_SaveToSRAM_def cc_SaveToStorage_def
  by (auto simp: merge_bins_max [OF assms(1)] run_calls intro: exI [of _ "[]"])

text \<open>What reading the gauge does.\<close>

definition sram_read :: "health_lib \<Rightarrow> health_call env \<Rightarrow> health \<Rightarrow> int list" where
  "sram_read L E h = (case e_text E (hist h) (Read_file kCycCntFile) of
     None \<Rightarrow> hw_bins h | Some buffer \<Rightarrow> load_ints (Overflow L) (Trim L buffer) (hw_bins h))"

definition storage_read :: "health_lib \<Rightarrow> health_call env \<Rightarrow> health \<Rightarrow> int list" where
  "storage_read L E h = (case e_text E (hist h) (Read_file kSysPersistFile) of
     None \<Rightarrow> sw_bins h | Some buffer \<Rightarrow> load_ints (Overflow L) buffer (sw_bins h))"

lemma run_ReadFromSRAM:
  "run_state (cc_ReadFromSRAM L E) h = ((), h\<lparr>hw_bins := sram_read L E h,
     hist := hist h @ [(Read_file kCycCntFile, Text (e_text E (hist h) (Read_file kCycCntFile)))]\<rparr>)"
  by (simp add: cc_ReadFromSRAM_def sram_read_def run_calls split: option.split)

lemma run_ReadFromStorage:
  "run_state (cc_ReadFromStorage L E) h = ((), h\<lparr>sw_bins := storage_read L E h,
     hist := hist h @ [(Read_file kSysPersistFile, Text (e_text E (hist h) (Read_file kSysPersistFile)))]\<rparr>)"
  by (simp add: cc_ReadFromStorage_def storage_read_def run_calls split: option.split)

lemma sram_read_length [simp]: "length (sram_read L E h) = length (hw_bins h)"
  and storage_read_length [simp]: "length (storage_read L E h) = length (sw_bins h)"
  by (simp_all add: sram_read_def storage_read_def load_ints_length split: option.split)

definition bins_full :: "health \<Rightarrow> bool" where
  "bins_full h \<longleftrightarrow> length (sw_bins h) = kBucketCount \<and> length (hw_bins h) = kBucketCount"

text \<open>\<open>Backup()\<close> as a whole.\<close>

lemma backup_run:
  assumes "bins_full h"
  shows "\<exists>t. snd (run_state (cc_Backup L E) h) = h\<lparr>hw_bins := max_bins (sram_read L E h) (sw_bins h),
        sw_bins := max_bins (sram_read L E h) (sw_bins h), hist := hist h @ t\<rparr> \<and> saves t =
     (if list_ex (\<lambda>(h, s). h < s) (zip (sram_read L E h) (sw_bins h))
      then [(kCycCntFile, snprintf_buf kBuffSize (print_ints (max_bins (sram_read L E h) (sw_bins h))))] else []) @
     (if list_ex (\<lambda>(h, s). s < h) (zip (sram_read L E h) (sw_bins h))
      then [(kSysPersistFile, snprintf_buf kBuffSize (print_ints (max_bins (sram_read L E h) (sw_bins h))))] else [])"
proof -
  let ?h = "h\<lparr>hw_bins := sram_read L E h,
     hist := hist h @ [(Read_file kCycCntFile, Text (e_text E (hist h) (Read_file kCycCntFile)))]\<rparr>"
  have "length (hw_bins ?h) = length (sw_bins ?h)" using assms by (simp add: bins_full_def)
  from update_and_save [OF this, of E] obtain t where
    "snd (run_state (cc_UpdateAndSave E) ?h) = ?h\<lparr>hw_bins := max_bins (sram_read L E h) (sw_bins h),
        sw_bins := max_bins (sram_read L E h) (sw_bins h), hist := hist ?h @ t\<rparr>"
    "saves t = (if list_ex (\<lambda>(h, s). h < s) (zip (sram_read L E h) (sw_bins h))
      then [(kCycCntFile, snprintf_buf kBuffSize (print_ints (max_bins (sram_read L E h) (sw_bins h))))] else []) @
     (if list_ex (\<lambda>(h, s). s < h) (zip (sram_read L E h) (sw_bins h))
      then [(kSysPersistFile, snprintf_buf kBuffSize (print_ints (max_bins (sram_read L E h) (sw_bins h))))] else [])"
    by (auto simp: Let_def)
  then show ?thesis
    by (intro exI [of _ "(Read_file kCycCntFile, Text (e_text E (hist h) (Read_file kCycCntFile))) # t"])
      (simp add: cc_Backup_def run_ReadFromSRAM)
qed


section \<open>The contract\<close>

lemma contents_saves_eq:
  "writes_succeed t \<Longrightarrow> list_all (\<lambda>e. \<forall>p s. fst e = Write_file p s \<longrightarrow> (\<exists>ok. snd e = Flag ok)) t \<Longrightarrow>
     contents p old t = fold (\<lambda>(q, s) c. if q = p then s else c) (saves t) old"
proof (induction t arbitrary: old)
  case (Cons e t)
  then show ?case
    by (cases e; cases "fst e"; cases "snd e") (auto simp: contents_def written_def writes_succeed_def saves_def)
qed (simp add: contents_def saves_def)

lemma backup_flags: "emits (\<lambda>e. \<forall>p s. fst e = Write_file p s \<longrightarrow> (\<exists>ok. snd e = Flag ok)) (cc_Backup L E)"
  unfolding cc_Backup_def cc_ReadFromSRAM_def cc_UpdateAndSave_def cc_SaveToSRAM_def cc_SaveToStorage_def Let_def
  by (intro emits_intros) simp_all

lemma kFiles_differ [simp]: "kCycCntFile \<noteq> kSysPersistFile" "kSysPersistFile \<noteq> kCycCntFile"
  by (simp_all add: kCycCntFile_def kSysPersistFile_def)

lemma max_bins_unchanged:
  "length hw = length sw \<Longrightarrow> \<not> list_ex (\<lambda>(h, s). s < h) (zip hw sw) \<Longrightarrow> max_bins hw sw = sw"
  by (induction hw sw rule: list_induct2) (auto simp: max_bins_def)

text \<open>The text of the counters in the storage file.\<close>

definition bins_text :: "int list \<Rightarrow> string" where
  "bins_text bins = snprintf_buf kBuffSize (print_ints bins)"

interpretation cc_unit: backup_unit "cc_Backup L E" bins_full sw_bins hw_bins kSysPersistFile bins_text for L E
proof unfold_locales
  fix h
  assume full: "bins_full h"
  from backup_run [OF full, of L E] obtain t where
    run: "snd (run_state (cc_Backup L E) h) = h\<lparr>hw_bins := max_bins (sram_read L E h) (sw_bins h),
        sw_bins := max_bins (sram_read L E h) (sw_bins h), hist := hist h @ t\<rparr>" and
    t: "saves t = (if list_ex (\<lambda>(h, s). h < s) (zip (sram_read L E h) (sw_bins h))
      then [(kCycCntFile, bins_text (max_bins (sram_read L E h) (sw_bins h)))] else []) @
     (if list_ex (\<lambda>(h, s). s < h) (zip (sram_read L E h) (sw_bins h))
      then [(kSysPersistFile, bins_text (max_bins (sram_read L E h) (sw_bins h)))] else [])"
    by (auto simp: bins_text_def)
  from run full show "bins_full (snd (run_state (cc_Backup L E) h))" by (simp add: bins_full_def)
  from run show "sw_bins (snd (run_state (cc_Backup L E) h)) = hw_bins (snd (run_state (cc_Backup L E) h))"
    by simp
  have em: "emitted (cc_Backup L E) h = t" using run by (simp add: emitted_def)
  assume ok: "writes_succeed (emitted (cc_Backup L E) h)"
  have "contents kSysPersistFile (bins_text (sw_bins h)) t =
      fold (\<lambda>(q, s) c. if q = kSysPersistFile then s else c) (saves t) (bins_text (sw_bins h))"
    using ok emits_all [OF backup_flags, of L E h] by (intro contents_saves_eq) (simp_all add: em)
  also have "\<dots> = bins_text (max_bins (sram_read L E h) (sw_bins h))"
    using full max_bins_unchanged [of "sram_read L E h" "sw_bins h"] by (simp add: t bins_full_def)
  finally show "contents kSysPersistFile (bins_text (sw_bins h)) (emitted (cc_Backup L E) h) =
      bins_text (sw_bins (snd (run_state (cc_Backup L E) h)))"
    by (simp add: run em)
next
  show "emits (\<lambda>_. True) (cc_Backup L E)"
    by (rule emits_mono [OF backup_flags]) simp
qed


section \<open>Properties\<close>

definition plain_lib :: health_lib where
  "plain_lib = \<lparr>Trim = (\<lambda>s. rev (dropWhile isspace (rev (dropWhile isspace s)))),
     Split = (\<lambda>s d. [s]), Overflow = (\<lambda>i. 0)\<rparr>"

definition file_env :: "(string \<Rightarrow> string option) \<Rightarrow> health_call env" where
  "file_env f = \<lparr>e_num = (\<lambda>_ _. 0), e_flag = (\<lambda>_ _. True),
     e_text = (\<lambda>_ c. case c of Read_file p \<Rightarrow> f p | _ \<Rightarrow> None), e_entries = (\<lambda>_ _. None)\<rparr>"

lemma restore_run:
  "snd (run_state (cc_Restore L E) h) = snd (run_state (cc_Backup L E) (snd (run_state (cc_ReadFromStorage L E) h)))"
  "bins_full h \<Longrightarrow> bins_full (snd (run_state (cc_ReadFromStorage L E) h))"
  "sw_bins (snd (run_state (cc_ReadFromStorage L E) h)) = storage_read L E h"
  "hw_bins (snd (run_state (cc_ReadFromStorage L E) h)) = hw_bins h"
  by (simp_all add: cc_Restore_def cc_Backup_def run_ReadFromStorage bins_full_def)

text \<open>
  C24. At boot, whatever the two files hold and whether or not they can be read or parsed, both copies
  of the counters become the pointwise maximum of what was read, and each file is written exactly
  when it is behind in some counter, with the maximum.
\<close>

theorem restore_pointwise_max:
  assumes "bins_full h"
  shows "let h1 = snd (run_state (cc_ReadFromStorage L E) h);
             sw = storage_read L E h; hw = sram_read L E h1;
             b = max_bins hw sw; h' = snd (run_state (cc_Restore L E) h) in
    sw_bins h' = b \<and> hw_bins h' = b \<and>
    saves (drop (length (hist h1)) (hist h')) =
      (if list_ex (\<lambda>(h, s). h < s) (zip hw sw) then [(kCycCntFile, bins_text b)] else []) @
      (if list_ex (\<lambda>(h, s). s < h) (zip hw sw) then [(kSysPersistFile, bins_text b)] else [])"
proof -
  let ?h1 = "snd (run_state (cc_ReadFromStorage L E) h)"
  from restore_run [where L = L and E = E and h = h] assms have r: "snd (run_state (cc_Restore L E) h) = snd (run_state (cc_Backup L E) ?h1)"
    "bins_full ?h1" "sw_bins ?h1 = storage_read L E h" by simp_all
  from backup_run [OF r(2), of L E] show ?thesis
    by (auto simp: Let_def r(1,3) bins_text_def)
qed

theorem restore_pointwise_max_witness:
  "hw_bins (snd (run_state (cc_Restore plain_lib (file_env (\<lambda>p.
      if p = kSysPersistFile then Some ''5 6 7 8 0 0 0 0'' else Some ''1 9 7 0 0 0 0 2''))) new_health)) =
   [5, 9, 7, 8, 0, 0, 0, 2]"
proof -
  let ?E = "file_env (\<lambda>p. if p = kSysPersistFile then Some ''5 6 7 8 0 0 0 0'' else Some ''1 9 7 0 0 0 0 2'')"
  have full: "bins_full new_health" by (simp add: bins_full_def new_health_def)
  have "max_bins (sram_read plain_lib ?E (snd (run_state (cc_ReadFromStorage plain_lib ?E) new_health)))
     (storage_read plain_lib ?E new_health) = [5, 9, 7, 8, 0, 0, 0, 2]" by code_simp
  with restore_pointwise_max [OF full, of plain_lib ?E] show ?thesis by (simp add: Let_def)
qed

text \<open>
  A restore from counters that the storage file holds as this code writes them: every counter becomes
  the larger of the two, and a gauge that is behind is written.
\<close>

lemma restored_counts:
  assumes full: "bins_full h" and valid: "ints_valid kBucketCount saved" "ints_valid kBucketCount delivered"
    and storage: "e_text E (hist h) (Read_file kSysPersistFile) = Some (bins_text saved)"
    and gauge: "e_text E (hist h @ [(Read_file kSysPersistFile, Text (Some (bins_text saved)))]) (Read_file kCycCntFile) =
      Some raw" "Trim L raw = print_ints delivered"
  shows "let h' = snd (run_state (cc_Restore L E) h) in
    hw_bins h' = max_bins delivered saved \<and> sw_bins h' = max_bins delivered saved \<and>
    (list_ex (\<lambda>(d, s). d < s) (zip delivered saved) \<longrightarrow>
      (kCycCntFile, bins_text (max_bins delivered saved)) \<in> set (saves (hist h')))"
proof -
  let ?h1 = "snd (run_state (cc_ReadFromStorage L E) h)"
  from restore_run [where L = L and E = E and h = h] full have r: "snd (run_state (cc_Restore L E) h) = snd (run_state (cc_Backup L E) ?h1)"
    "bins_full ?h1" "sw_bins ?h1 = storage_read L E h" "hw_bins ?h1 = hw_bins h" by simp_all
  have len: "length (sw_bins h) = kBucketCount" "length (hw_bins h) = kBucketCount"
    using full by (simp_all add: bins_full_def)
  have b: "snprintf_buf kBuffSize (print_ints saved) = print_ints saved"
    by (rule cc_text.buffer_complete [OF valid(1)])
  have sw: "storage_read L E h = saved"
    using load_print_ints [OF valid(1) len(1)] by (simp add: storage_read_def storage bins_text_def b)
  have "hist ?h1 = hist h @ [(Read_file kSysPersistFile, Text (Some (bins_text saved)))]"
    by (simp add: run_ReadFromStorage storage)
  then have hw: "sram_read L E ?h1 = delivered"
    using load_print_ints [OF valid(2) len(2)] by (simp add: sram_read_def gauge r(4))
  from backup_run [OF r(2), of L E] show ?thesis
    by (auto simp: Let_def r(1,3) sw hw bins_text_def)
qed

lemma backups_grow:
  "bins_full h \<Longrightarrow> list_all2 (\<le>) (sw_bins h)
     (sw_bins (snd (run_state (for_each (replicate n ()) (\<lambda>_. cc_Backup L E)) h)))"
proof (induction n arbitrary: h)
  case 0
  then show ?case by (simp add: list_all2_same)
next
  case (Suc n)
  let ?h = "snd (run_state (cc_Backup L E) h)"
  have full: "bins_full ?h" using cc_unit.stays_good [OF Suc.prems] .
  from backup_run [OF Suc.prems, of L E] have "sw_bins ?h = max_bins (sram_read L E h) (sw_bins h)" by auto
  moreover have "length (sram_read L E h) = length (sw_bins h)" using Suc.prems by (simp add: bins_full_def)
  ultimately have "list_all2 (\<le>) (sw_bins h) (sw_bins ?h)" using max_bins_ge by metis
  moreover note Suc.IH [OF full]
  ultimately have "list_all2 (\<le>) (sw_bins h)
      (sw_bins (snd (run_state (for_each (replicate n ()) (\<lambda>_. cc_Backup L E)) ?h)))"
    by (rule list_all2_trans [where ?P1.0 = "(\<le>)" and ?P2.0 = "(\<le>)", rotated]) simp
  then show ?case by (simp add: split_beta)
qed

text \<open>
  Over any number of backups the saved counters never decrease, the two copies agree after each, and
  the storage file, if its writes succeed, holds exactly their text.
\<close>

theorem backups_keep_counts:
  assumes full: "bins_full h" and some: "n \<noteq> 0"
    and ok: "writes_succeed (emitted (for_each (replicate n ()) (\<lambda>_. cc_Backup L E)) h)"
  shows "let m = for_each (replicate n ()) (\<lambda>_. cc_Backup L E); h' = snd (run_state m h) in
    contents kSysPersistFile (bins_text (sw_bins h)) (emitted m h) = bins_text (hw_bins h') \<and>
    sw_bins h' = hw_bins h' \<and> list_all2 (\<le>) (sw_bins h) (hw_bins h')"
  using cc_unit.backups_keep [OF full ok] cc_unit.backups_synced [OF full some, of L E] backups_grow [OF full, of n L E]
  by (simp add: Let_def)

theorem backups_keep_counts_witness:
  "hw_bins (snd (run_state (for_each (replicate 2 ()) (\<lambda>_. cc_Backup plain_lib (file_env (\<lambda>_. Some ''1 2 3''))))
     new_health)) = sw_bins (snd (run_state (for_each (replicate 2 ()) (\<lambda>_. cc_Backup plain_lib
       (file_env (\<lambda>_. Some ''1 2 3'')))) new_health))"
proof -
  have full: "bins_full new_health" by (simp add: bins_full_def new_health_def)
  have ok: "writes_succeed (emitted (for_each (replicate 2 ()) (\<lambda>_. cc_Backup plain_lib (file_env (\<lambda>_. Some ''1 2 3''))))
      new_health)" by code_simp
  from backups_keep_counts [OF full _ ok] show ?thesis by (simp add: Let_def)
qed

end
