(* ===== verification/LearnedCapacity.thy ===== *)
theory LearnedCapacity
  imports CycleCount
begin

text \<open>
  \<open>health/LearnedCapacityBackupRestore.cpp\<close>: the battery capacity the fuel gauge has learned and its
  copy on the persist partition.
\<close>

section \<open>The class\<close>

definition kChgFullDesignFile :: string where
  "kChgFullDesignFile = ''sys/class/power_supply/bms/charge_full_design''"
definition kChgFullFile :: string where "kChgFullFile = ''sys/class/power_supply/bms/charge_full''"
definition kSysCFPersistFile :: string where "kSysCFPersistFile = ''/persist/battery/qcom_charge_full''"

text \<open>\<open>sscanf(buffer, "%d", &old)\<close>.\<close>

definition load_int :: "(int \<Rightarrow> 32 word) \<Rightarrow> string \<Rightarrow> int \<Rightarrow> int" where
  "load_int ovf buffer old =
     (case scan_int (c_str buffer) of None \<Rightarrow> old | Some (i, _) \<Rightarrow> stored_int ovf i)"

definition lc_ReadFromStorage :: "health_lib \<Rightarrow> health_call env \<Rightarrow> unit health_op" where
  "lc_ReadFromStorage L E = do {
     r \<leftarrow> call_text E (Read_file kSysCFPersistFile);
     case r of
       None \<Rightarrow> ret ()
     | Some buffer \<Rightarrow> modify (\<lambda>h. h\<lparr>sw_cap := load_int (Overflow L) buffer (sw_cap h)\<rparr>)
   }"

definition lc_SaveToStorage :: "health_call env \<Rightarrow> unit health_op" where
  "lc_SaveToStorage E = do {
     cap \<leftarrow> gets sw_cap;
     _ \<leftarrow> call_flag E (Write_file kSysCFPersistFile (snprintf_buf kBuffSize (print_int cap)));
     ret ()
   }"

definition lc_ReadNominalCapacity :: "health_lib \<Rightarrow> health_call env \<Rightarrow> unit health_op" where
  "lc_ReadNominalCapacity L E = do {
     r \<leftarrow> call_text E (Read_file kChgFullDesignFile);
     case r of
       None \<Rightarrow> ret ()
     | Some buffer \<Rightarrow> modify (\<lambda>h. h\<lparr>nom_cap := load_int (Overflow L) (Trim L buffer) (nom_cap h)\<rparr>)
   }"

definition lc_ReadFromSRAM :: "health_lib \<Rightarrow> health_call env \<Rightarrow> unit health_op" where
  "lc_ReadFromSRAM L E = do {
     r \<leftarrow> call_text E (Read_file kChgFullFile);
     case r of
       None \<Rightarrow> ret ()
     | Some buffer \<Rightarrow> modify (\<lambda>h. h\<lparr>hw_cap := load_int (Overflow L) (Trim L buffer) (hw_cap h)\<rparr>)
   }"

definition lc_SaveToSRAM :: "health_call env \<Rightarrow> unit health_op" where
  "lc_SaveToSRAM E = do {
     cap \<leftarrow> gets hw_cap;
     _ \<leftarrow> call_flag E (Write_file kChgFullFile (snprintf_buf kBuffSize (print_int cap)));
     ret ()
   }"

definition lc_Restore :: "health_lib \<Rightarrow> health_call env \<Rightarrow> unit health_op" where
  "lc_Restore L E = do {
     lc_ReadFromStorage L E;
     lc_ReadNominalCapacity L E;
     lc_ReadFromSRAM L E;
     sw \<leftarrow> gets sw_cap;
     hw \<leftarrow> gets hw_cap;
     nom \<leftarrow> gets nom_cap;
     if sw = 0 then do {
       modify (\<lambda>h. h\<lparr>sw_cap := hw_cap h\<rparr>);
       lc_SaveToStorage E
     }
     else if hw = nom then do {
       modify (\<lambda>h. h\<lparr>hw_cap := sw_cap h\<rparr>);
       lc_SaveToSRAM E
     }
     else ret ()
   }"

definition lc_Backup :: "health_lib \<Rightarrow> health_call env \<Rightarrow> unit health_op" where
  "lc_Backup L E = do {
     lc_ReadFromSRAM L E;
     sw \<leftarrow> gets sw_cap;
     hw \<leftarrow> gets hw_cap;
     if sw \<noteq> hw then do {
       modify (\<lambda>h. h\<lparr>sw_cap := hw_cap h\<rparr>);
       lc_SaveToStorage E
     }
     else ret ()
   }"

section \<open>The text of the capacity and the contract\<close>

interpretation lc_text: text_codec print_int "load_int ovf" int32 kBuffSize for ovf
proof unfold_locales
  fix v old
  assume "int32 v"
  then show "load_int ovf (print_int v) old = v"
    using scan_print_int [of "[]" v] by (simp add: load_int_def c_str_id no_NUL_print_int)
next
  fix v
  assume "int32 v"
  then show "length (print_int v) < kBuffSize"
    using print_int_length [of v] by (simp add: kBuffSize_def)
qed

definition cap_text :: "int \<Rightarrow> string" where
  "cap_text cap = snprintf_buf kBuffSize (print_int cap)"

interpretation lc_unit: backup_unit "lc_Backup L E" "\<lambda>_. True" sw_cap hw_cap kSysCFPersistFile cap_text for L E
proof unfold_locales
  fix h
  show "sw_cap (snd (run_state (lc_Backup L E) h)) = hw_cap (snd (run_state (lc_Backup L E) h))"
    by (auto simp: lc_Backup_def lc_ReadFromSRAM_def lc_SaveToStorage_def run_calls split: option.split)
  assume "writes_succeed (emitted (lc_Backup L E) h)"
  then show "contents kSysCFPersistFile (cap_text (sw_cap h)) (emitted (lc_Backup L E) h) =
      cap_text (sw_cap (snd (run_state (lc_Backup L E) h)))"
    by (auto simp: lc_Backup_def lc_ReadFromSRAM_def lc_SaveToStorage_def run_calls emitted_def writes_succeed_def
        contents_def written_def cap_text_def split: option.split)
next
  show "emits (\<lambda>_. True) (lc_Backup L E)"
    unfolding lc_Backup_def lc_ReadFromSRAM_def lc_SaveToStorage_def by (intro emits_intros) simp_all
qed simp

section \<open>Properties\<close>

definition gauge_caps :: "health_lib \<Rightarrow> health_call env \<Rightarrow> health \<Rightarrow> int \<times> int \<times> int" where
  "gauge_caps L E h =
     (let h1 = snd (run_state (do { lc_ReadFromStorage L E; lc_ReadNominalCapacity L E; lc_ReadFromSRAM L E }) h)
      in (sw_cap h1, nom_cap h1, hw_cap h1))"

lemma run_lc_reads:
  "run_state (lc_ReadFromStorage L E) h = ((), h\<lparr>
     sw_cap := (case e_text E (hist h) (Read_file kSysCFPersistFile) of None \<Rightarrow> sw_cap h
       | Some b \<Rightarrow> load_int (Overflow L) b (sw_cap h)),
     hist := hist h @ [(Read_file kSysCFPersistFile, Text (e_text E (hist h) (Read_file kSysCFPersistFile)))]\<rparr>)"
  "run_state (lc_ReadNominalCapacity L E) h = ((), h\<lparr>
     nom_cap := (case e_text E (hist h) (Read_file kChgFullDesignFile) of None \<Rightarrow> nom_cap h
       | Some b \<Rightarrow> load_int (Overflow L) (Trim L b) (nom_cap h)),
     hist := hist h @ [(Read_file kChgFullDesignFile, Text (e_text E (hist h) (Read_file kChgFullDesignFile)))]\<rparr>)"
  "run_state (lc_ReadFromSRAM L E) h = ((), h\<lparr>
     hw_cap := (case e_text E (hist h) (Read_file kChgFullFile) of None \<Rightarrow> hw_cap h
       | Some b \<Rightarrow> load_int (Overflow L) (Trim L b) (hw_cap h)),
     hist := hist h @ [(Read_file kChgFullFile, Text (e_text E (hist h) (Read_file kChgFullFile)))]\<rparr>)"
  by (simp_all add: lc_ReadFromStorage_def lc_ReadNominalCapacity_def lc_ReadFromSRAM_def run_calls split: option.split)

lemma lc_reads_run:
  "\<exists>t. snd (run_state (do { lc_ReadFromStorage L E; lc_ReadNominalCapacity L E; lc_ReadFromSRAM L E }) h) =
     h\<lparr>sw_cap := fst (gauge_caps L E h), nom_cap := fst (snd (gauge_caps L E h)),
       hw_cap := snd (snd (gauge_caps L E h)), hist := hist h @ t\<rparr> \<and> saves t = []"
proof -
  define r1 where "r1 = Text (e_text E (hist h) (Read_file kSysCFPersistFile))"
  define h1 where "h1 = hist h @ [(Read_file kSysCFPersistFile, r1)]"
  define r2 where "r2 = Text (e_text E h1 (Read_file kChgFullDesignFile))"
  define h2 where "h2 = h1 @ [(Read_file kChgFullDesignFile, r2)]"
  define r3 where "r3 = Text (e_text E h2 (Read_file kChgFullFile))"
  show ?thesis
    by (intro exI [of _ "[(Read_file kSysCFPersistFile, r1), (Read_file kChgFullDesignFile, r2), (Read_file kChgFullFile, r3)]"])
      (simp add: gauge_caps_def run_lc_reads Let_def r1_def h1_def r2_def h2_def r3_def)
qed

lemma lc_restore_run:
  assumes "gauge_caps L E h = (sw, nom, hw)"
  obtains t where "saves t = []" and "run_state (lc_Restore L E) h =
     (let h1 = h\<lparr>sw_cap := sw, nom_cap := nom, hw_cap := hw, hist := hist h @ t\<rparr> in
      if sw = 0 then run_state (lc_SaveToStorage E) (h1\<lparr>sw_cap := hw\<rparr>)
      else if hw = nom then run_state (lc_SaveToSRAM E) (h1\<lparr>hw_cap := sw\<rparr>)
      else ((), h1))"
proof -
  from lc_reads_run [of L E h] obtain t where
    r: "snd (run_state (do { lc_ReadFromStorage L E; lc_ReadNominalCapacity L E; lc_ReadFromSRAM L E }) h) =
      h\<lparr>sw_cap := sw, nom_cap := nom, hw_cap := hw, hist := hist h @ t\<rparr>" and t: "saves t = []"
    by (auto simp: assms)
  have "run_state (lc_Restore L E) h = run_state (do {
       sw \<leftarrow> gets sw_cap; hw \<leftarrow> gets hw_cap; nom \<leftarrow> gets nom_cap;
       if sw = 0 then do { modify (\<lambda>h. h\<lparr>sw_cap := hw_cap h\<rparr>); lc_SaveToStorage E }
       else if hw = nom then do { modify (\<lambda>h. h\<lparr>hw_cap := sw_cap h\<rparr>); lc_SaveToSRAM E }
       else ret () }) (h\<lparr>sw_cap := sw, nom_cap := nom, hw_cap := hw, hist := hist h @ t\<rparr>)"
    unfolding r [symmetric] by (simp add: lc_Restore_def split_beta)
  then show thesis by (intro that [OF t]) (simp add: Let_def)
qed


text \<open>
  Over any number of backups, whatever the gauge delivers, the saved capacity is the gauge's after
  each, and the storage file, if its writes succeed, holds exactly its text.
\<close>

theorem backups_keep_capacity:
  assumes some: "n \<noteq> 0"
    and ok: "writes_succeed (emitted (for_each (replicate n ()) (\<lambda>_. lc_Backup L E)) h)"
  shows "let m = for_each (replicate n ()) (\<lambda>_. lc_Backup L E); h' = snd (run_state m h) in
    sw_cap h' = hw_cap h' \<and> contents kSysCFPersistFile (cap_text (sw_cap h)) (emitted m h) = cap_text (hw_cap h')"
  using lc_unit.backups_keep [OF TrueI ok] lc_unit.backups_synced [OF TrueI some, of L E h] by (simp add: Let_def)

theorem backups_keep_capacity_witness:
  "contents kSysCFPersistFile (cap_text 0) (emitted (for_each (replicate 2 ()) (\<lambda>_. lc_Backup plain_lib
     (file_env (\<lambda>_. Some ''77'')))) new_health) = ''77''"
proof -
  let ?m = "for_each (replicate 2 ()) (\<lambda>_. lc_Backup plain_lib (file_env (\<lambda>_. Some ''77'')))"
  have ok: "writes_succeed (emitted ?m new_health)" by code_simp
  have hw: "hw_cap (snd (run_state ?m new_health)) = 77" by code_simp
  have t: "cap_text 77 = ''77''" by code_simp
  have z: "sw_cap new_health = 0" by (simp add: new_health_def)
  from backups_keep_capacity [OF _ ok] hw t z show ?thesis by (simp add: Let_def)
qed

end
