(* ===== verification/HealthService.thy ===== *)
theory HealthService
  imports LearnedCapacity
begin

text \<open>
  \<open>health/HealthService.cpp\<close>: when the counters are backed up, and the storage and disk statistics
  that the service reports.  \<open>sscanf\<close> and the extraction of numbers from a \<open>stringstream\<close> are written
  out as far as the formats of the file use them.
\<close>

section \<open>Backups\<close>

definition kBackupTrigger :: int where "kBackupTrigger = 20"

definition cycle_count_backup :: "health_lib \<Rightarrow> health_call env \<Rightarrow> int \<Rightarrow> unit health_op" where
  "cycle_count_backup L E battery_level = do {
     first \<leftarrow> gets is_first;
     if first then modify (\<lambda>h. h\<lparr>is_first := False, saved_soc := battery_level\<rparr>)
     else do {
       saved \<leftarrow> gets saved_soc;
       (if battery_level > saved then modify (\<lambda>h. h\<lparr>soc_inc := soc_inc h + (battery_level - saved)\<rparr>) else ret ());
       modify (\<lambda>h. h\<lparr>saved_soc := battery_level\<rparr>);
       inc \<leftarrow> gets soc_inc;
       if inc \<ge> kBackupTrigger then do { cc_Backup L E; modify (\<lambda>h. h\<lparr>soc_inc := 0\<rparr>) } else ret ()
     }
   }"

definition healthd_board_init :: "health_lib \<Rightarrow> health_call env \<Rightarrow> unit health_op" where
  "healthd_board_init L E = do { cc_Restore L E; lc_Restore L E }"

definition healthd_board_battery_update :: "health_lib \<Rightarrow> health_call env \<Rightarrow> int \<Rightarrow> unit health_op" where
  "healthd_board_battery_update L E batteryLevel = do { cycle_count_backup L E batteryLevel; lc_Backup L E }"

section \<open>The formats of \<open>sscanf\<close>\<close>

datatype fmt = Lit char | Ws | Str nat | Skip_int | Hex16

datatype conv = CStr string | CHex "16 word"

definition hex_val :: "char \<Rightarrow> nat option" where
  "hex_val c =
     (let n = of_char c :: nat
      in if 48 \<le> n \<and> n \<le> 57 then Some (n - 48)
         else if 97 \<le> n \<and> n \<le> 102 then Some (n - 87)
         else if 65 \<le> n \<and> n \<le> 70 then Some (n - 55)
         else None)"

definition is_hex :: "char \<Rightarrow> bool" where
  "is_hex c \<longleftrightarrow> hex_val c \<noteq> None"

definition hex_digits :: "string \<Rightarrow> nat" where
  "hex_digits ds = foldl (\<lambda>n d. 16 * n + (case hex_val d of Some v \<Rightarrow> v | None \<Rightarrow> 0)) 0 ds"

text \<open>\<open>%hx\<close>: white space, a sign, a \<open>0x\<close>, digits; converted as \<open>strtoumax\<close> does and cut to 16 bits.\<close>

definition scan_hex :: "string \<Rightarrow> (16 word \<times> string) option" where
  "scan_hex s =
     (let s1 = dropWhile isspace s;
          neg = (s1 \<noteq> [] \<and> hd s1 = CHR ''-'');
          s2 = (if s1 \<noteq> [] \<and> (hd s1 = CHR ''-'' \<or> hd s1 = CHR ''+'') then tl s1 else s1);
          s3 = (if prefix ''0x'' s2 \<or> prefix ''0X'' s2 then drop 2 s2 else s2);
          ds = takeWhile is_hex s3;
          v = min (hex_digits ds) (2 ^ 64 - 1)
      in if ds = [] then None
         else Some (if neg then - of_nat v else of_nat v, dropWhile is_hex s3))"

text \<open>The conversions that are assigned before the input stops matching.\<close>

fun scanf :: "fmt list \<Rightarrow> string \<Rightarrow> conv list" where
  "scanf [] s = []"
| "scanf (Ws # f) s = scanf f (dropWhile isspace s)"
| "scanf (Lit c # f) s = (case s of [] \<Rightarrow> [] | d # s \<Rightarrow> if d = c then scanf f s else [])"
| "scanf (Str n # f) s =
     (let t = dropWhile isspace s; w = take n (takeWhile (\<lambda>c. \<not> isspace c) t)
      in if w = [] then [] else CStr w # scanf f (drop (length w) t))"
| "scanf (Skip_int # f) s = (case scan_int s of None \<Rightarrow> [] | Some (_, s) \<Rightarrow> scanf f s)"
| "scanf (Hex16 # f) s = (case scan_hex s of None \<Rightarrow> [] | Some (v, s) \<Rightarrow> CHex v # scanf f s)"

definition fmt_text :: "string \<Rightarrow> fmt list" where
  "fmt_text s = map (\<lambda>c. if isspace c then Ws else Lit c) s"

definition version_format :: "fmt list" where
  "version_format = fmt_text ''hba->ufs_version = 0x'' @ [Str 7, Ws]"

definition descriptor_format :: "fmt list" where
  "descriptor_format = fmt_text ''Health Descriptor[Byte offset 0x'' @ [Skip_int] @ fmt_text '']: '' @ [Str 31] @
     fmt_text '' = 0x'' @ [Hex16]"

section \<open>Storage information\<close>

definition kUFSHealthFile :: string where "kUFSHealthFile = ''/sys/kernel/debug/ufshcd0/dump_health_desc''"
definition kUFSHealthVersionFile :: string where "kUFSHealthVersionFile = ''/sys/kernel/debug/ufshcd0/show_hba''"
definition kDiskStatsFile :: string where "kDiskStatsFile = ''/sys/block/sda/stat''"
definition kUFSName :: string where "kUFSName = ''UFS0''"

record storage_info =
  isInternal :: bool
  isBootDevice :: bool
  storage_name :: string
  eol :: "16 word"
  lifetimeA :: "16 word"
  lifetimeB :: "16 word"
  storage_version :: string

definition blank_info :: storage_info where
  "blank_info = \<lparr>isInternal = True, isBootDevice = True, storage_name = kUFSName, eol = 0, lifetimeA = 0, lifetimeB = 0,
     storage_version = []\<rparr>"

text \<open>One line of the health descriptor.\<close>

definition descriptor_line :: "storage_info \<Rightarrow> string \<Rightarrow> storage_info" where
  "descriptor_line info line =
     (case scanf descriptor_format (c_str line) of
        [CStr token, CHex val] \<Rightarrow>
          if token = ''bPreEOLInfo'' then info\<lparr>eol := val\<rparr>
          else if token = ''bDeviceLifeTimeEstA'' then info\<lparr>lifetimeA := val\<rparr>
          else if token = ''bDeviceLifeTimeEstB'' then info\<lparr>lifetimeB := val\<rparr>
          else info
      | _ \<Rightarrow> info)"

text \<open>\<open>get_storage_info\<close> on the vector it is given; \<open>None\<close> is the access \<open>lines[6]\<close> outside \<open>lines\<close>.\<close>

definition get_storage_info ::
  "health_lib \<Rightarrow> health_call env \<Rightarrow> storage_info list \<Rightarrow> storage_info list option health_op" where
  "get_storage_info L E vec = do {
     r \<leftarrow> call_text E (Read_file kUFSHealthVersionFile);
     case r of
       None \<Rightarrow> ret (Some vec)
     | Some version_text \<Rightarrow>
         let lines = Split L version_text [LF] in
         if lines = [] then ret (Some vec)
         else if length lines \<le> 6 then ret None
         else case scanf version_format (c_str (lines ! 6)) of
           CStr revision # _ \<Rightarrow> do {
             r \<leftarrow> call_text E (Read_file kUFSHealthFile);
             ret (Some (case r of
               None \<Rightarrow> vec
             | Some buffer \<Rightarrow>
                 let lines = Split L buffer [LF] in
                 if lines = [] then vec
                 else [foldl descriptor_line (blank_info\<lparr>storage_version := ''ufs '' @ revision\<rparr>) (tl lines)]))
           }
         | _ \<Rightarrow> ret (Some vec)
   }"

section \<open>Disk statistics\<close>

definition kDiskStatsSize :: nat where "kDiskStatsSize = 11"

fun extract_all :: "64 word list \<Rightarrow> string option \<Rightarrow> 64 word list" where
  "extract_all [] ss = []"
| "extract_all (x # xs) ss = (case extract_u64 x ss of (v, ss) \<Rightarrow> v # extract_all xs ss)"

record disk_stats =
  disk_name :: string
  counters :: "64 word list"      \<comment> \<open>the fields before \<open>attr\<close>, in order\<close>

definition get_disk_stats :: "health_call env \<Rightarrow> disk_stats list \<Rightarrow> disk_stats list health_op" where
  "get_disk_stats E vec = do {
     r \<leftarrow> call_text E (Read_file kDiskStatsFile);
     case r of
       None \<Rightarrow> ret vec
     | Some buffer \<Rightarrow>
         ret [\<lparr>disk_name = kUFSName, counters = extract_all (replicate kDiskStatsSize 0) (Some buffer)\<rparr>]
   }"

section \<open>How often the counters are backed up\<close>

text \<open>The charge taken over a sequence of levels: the sum of the rises.\<close>

fun rise :: "int list \<Rightarrow> int" where
  "rise (a # b # ls) = max 0 (b - a) + rise (b # ls)"
| "rise ls = 0"

definition backup_count :: "health_call history \<Rightarrow> int" where
  "backup_count t = int (length (filter (\<lambda>e. fst e = Read_file kCycCntFile) t))"

lemma backup_count_append [simp]: "backup_count (t @ u) = backup_count t + backup_count u"
  by (simp add: backup_count_def)

lemma cc_Backup_count:
  "soc_inc (snd (run_state (cc_Backup L E) h)) = soc_inc h \<and>
   saved_soc (snd (run_state (cc_Backup L E) h)) = saved_soc h \<and>
   is_first (snd (run_state (cc_Backup L E) h)) = is_first h \<and>
   backup_count (hist (snd (run_state (cc_Backup L E) h))) = backup_count (hist h) + 1"
  by (auto simp: cc_Backup_def run_ReadFromSRAM cc_UpdateAndSave_def cc_SaveToSRAM_def cc_SaveToStorage_def
      run_calls split_beta backup_count_def)


lemma soc_step:
  assumes "\<not> is_first h" and "0 \<le> soc_inc h" "soc_inc h < 20" and "0 \<le> saved_soc h" "0 \<le> l" "l \<le> 100"
  shows "let h' = snd (run_state (cycle_count_backup L E l) h);
             b = backup_count (hist h') - backup_count (hist h);
             total = soc_inc h + max 0 (l - saved_soc h) in
    \<not> is_first h' \<and> saved_soc h' = l \<and> 0 \<le> soc_inc h' \<and> soc_inc h' < 20 \<and>
    20 * b + soc_inc h' \<le> total \<and> total \<le> 119 * b + soc_inc h'"
proof -
  let ?inc = "soc_inc h + max 0 (l - saved_soc h)"
  let ?h = "h\<lparr>soc_inc := ?inc, saved_soc := l\<rparr>"
  have run: "run_state (cycle_count_backup L E l) h =
      (if ?inc \<ge> 20 then run_state (do { cc_Backup L E; modify (\<lambda>h. h\<lparr>soc_inc := 0\<rparr>) }) ?h else ((), ?h))"
    using assms(1) by (auto simp: cycle_count_backup_def kBackupTrigger_def max_def)
  show ?thesis
  proof (cases "?inc \<ge> 20")
    case True
    with assms have "max 0 (l - saved_soc h) = l - saved_soc h" by (simp add: max_def split: if_splits)
    with True cc_Backup_count [of L E ?h] assms show ?thesis
      by (simp add: run Let_def split_beta)
  next
    case False
    with assms show ?thesis by (simp add: run Let_def)
  qed
qed

lemma soc_steps:
  assumes "list_all (\<lambda>l. 0 \<le> l \<and> l \<le> 100) ls"
  shows "\<not> is_first h \<Longrightarrow> 0 \<le> soc_inc h \<Longrightarrow> soc_inc h < 20 \<Longrightarrow> 0 \<le> saved_soc h \<Longrightarrow>
    (let h' = snd (run_state (for_each ls (cycle_count_backup L E)) h);
         b = backup_count (hist h') - backup_count (hist h);
         total = soc_inc h + rise (saved_soc h # ls) in
     0 \<le> soc_inc h' \<and> soc_inc h' < 20 \<and> 20 * b + soc_inc h' \<le> total \<and> total \<le> 119 * b + soc_inc h')"
  using assms
proof (induction ls arbitrary: h)
  case (Cons l ls)
  let ?h = "snd (run_state (cycle_count_backup L E l) h)"
  from soc_step [OF Cons.prems(1-4), of l L E] Cons.prems(5) have step:
    "\<not> is_first ?h" "saved_soc ?h = l" "0 \<le> soc_inc ?h" "soc_inc ?h < 20"
    "20 * (backup_count (hist ?h) - backup_count (hist h)) + soc_inc ?h \<le> soc_inc h + max 0 (l - saved_soc h)"
    "soc_inc h + max 0 (l - saved_soc h) \<le> 119 * (backup_count (hist ?h) - backup_count (hist h)) + soc_inc ?h"
    by (simp_all add: Let_def)
  have "0 \<le> saved_soc ?h" using step(2) Cons.prems(5) by simp
  from Cons.IH [OF step(1,3,4) this] Cons.prems(5) step(2,5,6) show ?case
    by (simp add: Let_def split_beta algebra_simps)
qed simp

text \<open>
  C28. Over any sequence of battery levels no charge is lost and none counted twice: what was charged
  since the first level is what the backups taken account for, each between 20 and 119 percent, and
  what is carried over, which stays below the trigger.
\<close>

theorem backups_follow_charge:
  assumes "list_all (\<lambda>l. 0 \<le> l \<and> l \<le> 100) (level # levels)"
  shows "let h = snd (run_state (for_each (level # levels) (cycle_count_backup L E)) new_health);
             b = backup_count (hist h) in
    0 \<le> soc_inc h \<and> soc_inc h < kBackupTrigger \<and>
    20 * b + soc_inc h \<le> rise (level # levels) \<and> rise (level # levels) \<le> 119 * b + soc_inc h"
proof -
  let ?h = "new_health\<lparr>is_first := False, saved_soc := level\<rparr>"
  have first: "run_state (cycle_count_backup L E level) new_health = ((), ?h)"
    by (simp add: cycle_count_backup_def new_health_def)
  have fields: "\<not> is_first ?h" "soc_inc ?h = 0" "saved_soc ?h = level" "backup_count (hist ?h) = 0"
    by (simp_all add: new_health_def backup_count_def)
  from soc_steps [of levels ?h L E] assms fields show ?thesis
    by (simp add: first Let_def kBackupTrigger_def)
qed

theorem backups_follow_charge_witness:
  "soc_inc (snd (run_state (for_each [10, 25, 20, 31, 40] (cycle_count_backup plain_lib (file_env (\<lambda>_. None)))) new_health))
     < kBackupTrigger"
proof -
  have "list_all (\<lambda>l. 0 \<le> l \<and> l \<le> 100) [10, 25, 20, 31, 40 :: int]" by simp
  from backups_follow_charge [OF this] show ?thesis by (simp add: Let_def)
qed

section \<open>The sixth line\<close>

text \<open>\<open>android::base::Split\<close> on one separator: one piece more than there are separators.\<close>

fun pieces :: "char \<Rightarrow> string \<Rightarrow> string list" where
  "pieces d [] = [[]]"
| "pieces d (c # s) = (if c = d then [] # pieces d s else (case pieces d s of p # ps \<Rightarrow> (c # p) # ps | [] \<Rightarrow> [[c]]))"

lemma pieces_length: "length (pieces d s) = Suc (length (filter (\<lambda>c. c = d) s))"
  by (induction s) (auto split: list.split)

text \<open>
  C29. \<open>get_storage_info\<close> reads outside the vector of lines exactly when the version file can be read
  and has fewer than six line breaks: the test for an empty vector does not protect the access.
\<close>

theorem storage_info_out_of_bounds:
  assumes split: "\<And>s. Split L s [LF] = pieces LF s"
  shows "fst (run_state (get_storage_info L E vec) h) = None \<longleftrightarrow>
    (\<exists>txt. e_text E (hist h) (Read_file kUFSHealthVersionFile) = Some txt \<and> length (filter (\<lambda>c. c = LF) txt) < 6)"
proof -
  have ne: "pieces LF s \<noteq> []" for s using pieces_length [of LF s] by auto
  have len: "length (pieces LF s) \<le> 6 \<longleftrightarrow> length (filter (\<lambda>c. c = LF) s) < 6" for s
    using pieces_length [of LF s] by linarith
  show ?thesis
    by (auto simp: get_storage_info_def run_calls split len ne split: option.splits list.splits conv.splits)
qed

definition lines_lib :: health_lib where
  "lines_lib = plain_lib\<lparr>Split := (\<lambda>s d. if d = [LF] then pieces LF s else [s])\<rparr>"

theorem storage_info_out_of_bounds_witness:
  "fst (run_state (get_storage_info lines_lib (file_env (\<lambda>_. Some ''hba->ufs_version = 0x210'')) []) new_health) = None"
proof -
  have split: "Split lines_lib s [LF] = pieces LF s" for s by (simp add: lines_lib_def)
  show ?thesis
    by (subst storage_info_out_of_bounds [OF split])
      (simp add: file_env_def)
qed

section \<open>The disk counters\<close>

text \<open>A line of counters, each with at least one blank before it, as the kernel prints it.\<close>

fun stat_line :: "(nat \<times> nat) list \<Rightarrow> string" where
  "stat_line [] = []"
| "stat_line ((pad, n) # ns) = replicate pad (CHR '' '') @ print_nat n @ stat_line ns"

lemma extract_number:
  assumes "n < 2 ^ 64" and "rest = [] \<or> \<not> isdigit (hd rest)"
  shows "extract_u64 old (Some (replicate pad (CHR '' '') @ print_nat n @ rest)) = (of_nat n, Some rest)"
proof -
  obtain d ds where ds: "print_nat n = d # ds" by (cases "print_nat n") auto
  from ds print_nat_digits [of n] have d: "isdigit d" by simp
  then have nd: "\<not> isspace d" "d \<noteq> CHR ''-''" "d \<noteq> CHR ''+''"
    by (auto simp: isspace_not_isdigit isdigit_def)
  have skip: "dropWhile isspace (replicate pad (CHR '' '') @ s) = dropWhile isspace s" for s
    by (induction pad) simp_all
  have "dropWhile isspace (print_nat n @ rest) = print_nat n @ rest" using ds nd by simp
  moreover note takeWhile_dropWhile_all [OF print_nat_digits [of n] assms(2)]
  ultimately show ?thesis
    using assms(1) nd ds digits_val_print [of n] by (simp add: extract_u64_def skip Let_def)
qed

lemma stat_line_start: "ns = [] \<or> 0 < fst (hd ns) \<Longrightarrow> stat_line ns = [] \<or> \<not> isdigit (hd (stat_line ns))"
  by (cases ns rule: stat_line.cases) (auto simp: hd_append hd_replicate)

lemma extract_stats:
  "list_all (\<lambda>(pad, n). 0 < pad \<and> n < 2 ^ 64) ns \<Longrightarrow> length old = length ns \<Longrightarrow>
     rest = [] \<or> \<not> isdigit (hd rest) \<Longrightarrow>
     extract_all old (Some (stat_line ns @ rest)) = map (\<lambda>(pad, n). of_nat n) ns"
proof (induction ns arbitrary: old rule: stat_line.induct)
  case (2 pad n ns)
  then obtain x xs where old: "old = x # xs" by (cases old) auto
  have next_char: "stat_line ns @ rest = [] \<or> \<not> isdigit (hd (stat_line ns @ rest))"
    using stat_line_start [of ns] "2.prems" by (cases ns) (auto simp: hd_append list_all_iff)
  from extract_number [OF _ next_char, of n x pad] "2.prems"
  have "extract_u64 x (Some (replicate pad (CHR '' '') @ print_nat n @ stat_line ns @ rest)) =
      (of_nat n, Some (stat_line ns @ rest))" by simp
  with 2 old show ?case by simp
qed simp

text \<open>
  C30. The disk statistics are the eleven counters of the line: printed by the kernel with one or more
  blanks before each and followed by a newline or more text, they are reported unchanged, for
  all 64-bit values.
\<close>

theorem disk_stats_round_trip:
  assumes "list_all (\<lambda>(pad, n). 0 < pad \<and> n < 2 ^ 64) ns" and "length ns = kDiskStatsSize"
    and "rest = [] \<or> \<not> isdigit (hd rest)"
    and "e_text E (hist h) (Read_file kDiskStatsFile) = Some (stat_line ns @ rest)"
  shows "fst (run_state (get_disk_stats E vec) h) = [\<lparr>disk_name = kUFSName, counters = map (\<lambda>(pad, n). of_nat n) ns\<rparr>]"
  using assms extract_stats [OF assms(1) _ assms(3), of "replicate kDiskStatsSize 0"]
  by (simp add: get_disk_stats_def run_calls)

theorem disk_stats_round_trip_witness:
  "counters (hd (fst (run_state (get_disk_stats (file_env (\<lambda>_. Some (stat_line (replicate 11 (2, 7)) @ [LF]))) []) new_health))) =
   replicate 11 7"
proof -
  have a: "list_all (\<lambda>(pad, n). 0 < pad \<and> n < 2 ^ 64) (replicate 11 (2 :: nat, 7 :: nat))"
    by (simp add: list_all_iff)
  have b: "[LF] = [] \<or> \<not> isdigit (hd [LF])" by (simp add: isdigit_def)
  have e: "e_text (file_env (\<lambda>_. Some (stat_line (replicate 11 (2, 7)) @ [LF]))) (hist new_health) (Read_file kDiskStatsFile) =
     Some (stat_line (replicate 11 (2, 7)) @ [LF])" by (simp add: file_env_def)
  show ?thesis by (subst disk_stats_round_trip [OF a _ b e]) (simp_all add: kDiskStatsSize_def)
qed

end
