(* ===== verification/HealthReboot.thy ===== *)
theory HealthReboot
  imports HealthService
begin

text \<open>
  The health service over a restart: the service as a whole (boot, then battery updates), its two files on
  the persist partition, and what a later run of the process finds there.  Both backup classes extend
  the contract \<open>backup_unit\<close> by the locale \<open>persisted_unit\<close>, whose lemmas follow a file through any
  part of the service.
\<close>

section \<open>A file that keeps what was written\<close>

text \<open>The text of a file after a history: the last that was written with success, or what it held before.\<close>

definition write_effect :: "string \<Rightarrow> string option \<Rightarrow> health_call \<times> answer \<Rightarrow> string option" where
  "write_effect p old e = (case e of (Write_file q s, Flag True) \<Rightarrow> (if q = p then Some s else old) | _ \<Rightarrow> old)"

definition file_after :: "string \<Rightarrow> string option \<Rightarrow> health_call history \<Rightarrow> string option" where
  "file_after p old t = foldl (write_effect p) old t"

lemma file_after_Nil [simp]: "file_after p old [] = old"
  by (simp add: file_after_def)

lemma file_after_append [simp]: "file_after p old (t @ u) = file_after p (file_after p old t) u"
  by (simp add: file_after_def)

lemma file_after_write [simp]:
  "file_after p old [(Write_file q s, Flag ok)] = (if ok \<and> q = p then Some s else old)"
  by (simp add: file_after_def write_effect_def split: bool.split)

definition no_write :: "string \<Rightarrow> health_call \<times> answer \<Rightarrow> bool" where
  "no_write p e \<longleftrightarrow> (\<forall>s. fst e \<noteq> Write_file p s)"

lemma no_write_simps [simp]:
  "no_write p (Read_file q, a)" "no_write p (Write_file q s, a) \<longleftrightarrow> q \<noteq> p"
  by (auto simp: no_write_def)

lemma no_saves_no_write: "saves t = [] \<Longrightarrow> list_all (no_write p) t"
  by (induction t) (auto simp: saves_def no_write_def)

lemma file_after_no_write: "list_all (no_write p) t \<Longrightarrow> file_after p old t = old"
  by (induction t rule: rev_induct)
    (auto simp: file_after_def write_effect_def no_write_def split: prod.splits health_call.splits answer.splits bool.splits)

text \<open>Either nothing was written with success, or the file holds the contents, whatever it held before.\<close>

lemma file_after_contents:
  "file_after p old t = old \<and> (\<forall>s. contents p s t = s) \<or> (\<forall>s. file_after p old t = Some (contents p s t))"
proof (induction t rule: rev_induct)
  case (snoc e t)
  then show ?case
    by (auto simp: contents_def file_after_def write_effect_def written_def
        split: prod.splits health_call.splits answer.splits bool.splits)
qed (simp add: contents_def)

text \<open>A partition that is not lost: a file reads as what it holds.\<close>

definition keeps_file :: "health_call env \<Rightarrow> string \<Rightarrow> string option \<Rightarrow> bool" where
  "keeps_file E p old \<longleftrightarrow> (\<forall>h. e_text E h (Read_file p) = file_after p old h)"

section \<open>A backup unit and its file\<close>

locale persisted_unit = backup_unit backup good saved gauge store text_of
  for backup :: "unit health_op" and good :: "health \<Rightarrow> bool" and saved gauge :: "health \<Rightarrow> 'v"
    and store :: string and text_of :: "'v \<Rightarrow> string" +
  fixes valid :: "health \<Rightarrow> bool"
    and stored :: "string option \<Rightarrow> 'v"
  assumes valid_good: "valid h \<Longrightarrow> good h"
    and valid_backup: "valid h \<Longrightarrow> valid (snd (run_state backup h))"
    and stored_text: "valid h \<Longrightarrow> stored (Some (text_of (saved h))) = saved h"
begin

text \<open>The file holds the saved copy: loading it would give the same value.\<close>

definition in_file :: "string option \<Rightarrow> health \<Rightarrow> bool" where
  "in_file old h \<longleftrightarrow> valid h \<and> stored (file_after store old (hist h)) = saved h"

definition keeps_copy :: "'b health_op \<Rightarrow> bool" where
  "keeps_copy m \<longleftrightarrow> emits (\<lambda>_. True) m \<and>
     (\<forall>h old. in_file old h \<longrightarrow> writes_succeed (emitted m h) \<longrightarrow> in_file old (snd (run_state m h)))"

lemma keeps_copyD:
  "keeps_copy m \<Longrightarrow> in_file old h \<Longrightarrow> writes_succeed (emitted m h) \<Longrightarrow> in_file old (snd (run_state m h))"
  by (simp add: keeps_copy_def)

lemma keeps_backup: "keeps_copy backup"
  unfolding keeps_copy_def
proof (intro conjI allI impI)
  fix h old
  assume h: "in_file old h" and ok: "writes_succeed (emitted backup h)"
  let ?h = "snd (run_state backup h)" and ?t = "emitted backup h"
  have v: "valid h" "valid ?h" using h valid_backup by (auto simp: in_file_def)
  have hist: "hist ?h = hist h @ ?t" by (rule emits_hist [OF appends])
  have kept: "contents store (text_of (saved h)) ?t = text_of (saved ?h)"
    by (rule keeps [OF valid_good [OF v(1)] ok])
  from file_after_contents [of store "file_after store old (hist h)" ?t]
  have "stored (file_after store old (hist ?h)) = saved ?h"
  proof
    assume "\<forall>s. file_after store (file_after store old (hist h)) ?t = Some (contents store s ?t)"
    then have "file_after store (file_after store old (hist h)) ?t = Some (text_of (saved ?h))"
      using kept by metis
    with v(2) show ?thesis by (simp add: hist stored_text)
  next
    assume same: "file_after store (file_after store old (hist h)) ?t = file_after store old (hist h) \<and>
      (\<forall>s. contents store s ?t = s)"
    then have "text_of (saved h) = text_of (saved ?h)" using kept by metis
    then have "saved h = saved ?h" using stored_text [OF v(1)] stored_text [OF v(2)] by metis
    moreover have "file_after store old (hist ?h) = file_after store old (hist h)" using same by (simp add: hist)
    ultimately show ?thesis using h by (simp only: in_file_def)
  qed
  with v(2) show "in_file old ?h" by (simp add: in_file_def)
qed (rule appends)

lemma keeps_frame:
  assumes "emits (no_write store) m" and "\<And>h. saved (snd (run_state m h)) = saved h"
    and "\<And>h. valid h \<Longrightarrow> valid (snd (run_state m h))"
  shows "keeps_copy m"
  unfolding keeps_copy_def
proof (intro conjI allI impI)
  show "emits (\<lambda>_. True) m" by (rule emits_mono [OF assms(1)]) simp
  fix h old
  assume "in_file old h"
  with assms emits_hist [OF assms(1), of h] file_after_no_write [OF emits_all [OF assms(1)], of "file_after store old (hist h)" h]
  show "in_file old (snd (run_state m h))" by (simp add: in_file_def)
qed

lemma keeps_return: "keeps_copy (ret a)"
  by (rule keeps_frame) (simp_all add: emits_return)

lemma keeps_gets: "keeps_copy (gets f)"
  by (rule keeps_frame) (simp_all add: emits_gets)

lemma keeps_bind:
  assumes m: "keeps_copy m" and f: "\<And>a. keeps_copy (f a)"
  shows "keeps_copy (State_Monad.bind m f)"
  unfolding keeps_copy_def
proof (intro conjI allI impI)
  have e: "emits (\<lambda>_. True) m" "\<And>a. emits (\<lambda>_. True) (f a)" using m f by (simp_all add: keeps_copy_def)
  show "emits (\<lambda>_. True) (State_Monad.bind m f)" by (intro emits_bind e)
  fix h old
  assume h: "in_file old h" and ok: "writes_succeed (emitted (State_Monad.bind m f) h)"
  from ok keeps_copyD [OF m h] keeps_copyD [OF f] show "in_file old (snd (run_state (State_Monad.bind m f) h))"
    by (simp add: emitted_bind [OF e] split_beta)
qed

lemma keeps_if: "keeps_copy m \<Longrightarrow> keeps_copy n \<Longrightarrow> keeps_copy (if b then m else n)"
  by simp

lemma keeps_for_each: "(\<And>x. keeps_copy (f x)) \<Longrightarrow> keeps_copy (for_each xs f)"
  by (induction xs) (auto intro: keeps_bind keeps_return)

lemmas keeps_intros = keeps_backup keeps_return keeps_gets keeps_bind keeps_if keeps_for_each

end

section \<open>The two units\<close>

definition stored_bins :: "health_lib \<Rightarrow> string option \<Rightarrow> int list" where
  "stored_bins L c = (let zeros = replicate kBucketCount 0 in
     case c of None \<Rightarrow> zeros | Some b \<Rightarrow> load_ints (Overflow L) b zeros)"

definition bins_valid :: "health \<Rightarrow> bool" where
  "bins_valid h \<longleftrightarrow> ints_valid kBucketCount (sw_bins h) \<and> ints_valid kBucketCount (hw_bins h)"

lemma load_ints_valid: "ints_valid n old \<Longrightarrow> ints_valid n (load_ints ovf b old)"
  by (auto simp: ints_valid_def load_ints_length) (auto simp: load_ints_def Let_def list_all_iff dest: in_set_dropD)

lemma max_bins_valid: "ints_valid n hw \<Longrightarrow> ints_valid n sw \<Longrightarrow> ints_valid n (max_bins hw sw)"
  by (auto simp: ints_valid_def max_bins_def list_all_iff set_zip int32_def max_def)

lemma zeros_valid [simp]: "ints_valid n (replicate n 0)"
  by (auto simp: ints_valid_def list_all_iff int32_def)

lemma stored_bins_valid: "ints_valid kBucketCount (stored_bins L c)"
  by (auto simp: stored_bins_def Let_def load_ints_valid split: option.split)

lemma bins_valid_full: "bins_valid h \<Longrightarrow> bins_full h"
  by (simp add: bins_valid_def bins_full_def ints_valid_def)

interpretation cc_file: persisted_unit "cc_Backup L E" bins_full sw_bins hw_bins kSysPersistFile bins_text
  bins_valid "stored_bins L" for L E
proof unfold_locales
  fix h
  assume v: "bins_valid h"
  then show full: "bins_full h" by (rule bins_valid_full)
  have "ints_valid kBucketCount (sram_read L E h)"
    using v by (auto simp: sram_read_def bins_valid_def load_ints_valid split: option.split)
  with v have "ints_valid kBucketCount (max_bins (sram_read L E h) (sw_bins h))"
    by (simp add: bins_valid_def max_bins_valid)
  with backup_run [OF full, of L E] show "bins_valid (snd (run_state (cc_Backup L E) h))"
    by (auto simp: bins_valid_def)
  from v show "stored_bins L (Some (bins_text (sw_bins h))) = sw_bins h"
    by (simp add: stored_bins_def bins_text_def bins_valid_def cc_text.store_load)
qed

definition stored_cap :: "health_lib \<Rightarrow> string option \<Rightarrow> int" where
  "stored_cap L c = (case c of None \<Rightarrow> 0 | Some b \<Rightarrow> load_int (Overflow L) b 0)"

definition caps_valid :: "health \<Rightarrow> bool" where
  "caps_valid h \<longleftrightarrow> int32 (sw_cap h) \<and> int32 (hw_cap h)"

lemma int32_zero [simp]: "int32 0"
  by (simp add: int32_def)

lemma load_int_valid: "int32 old \<Longrightarrow> int32 (load_int ovf b old)"
  by (auto simp: load_int_def split: option.split)

lemma stored_cap_text: "int32 c \<Longrightarrow> stored_cap L (Some (cap_text c)) = c"
  by (simp add: stored_cap_def cap_text_def lc_text.store_load)

interpretation lc_file: persisted_unit "lc_Backup L E" "\<lambda>_. True" sw_cap hw_cap kSysCFPersistFile cap_text
  caps_valid "stored_cap L" for L E
proof unfold_locales
  fix h
  assume v: "caps_valid h"
  then show "caps_valid (snd (run_state (lc_Backup L E) h))"
    by (auto simp: lc_Backup_def run_lc_reads lc_SaveToStorage_def run_calls caps_valid_def load_int_valid split: option.split)
  from v show "stored_cap L (Some (cap_text (sw_cap h))) = sw_cap h"
    by (simp add: caps_valid_def stored_cap_text)
qed simp

section \<open>The service\<close>

text \<open>A run of the process: boot, then battery updates.\<close>

definition health_session :: "health_lib \<Rightarrow> health_call env \<Rightarrow> int list \<Rightarrow> unit health_op" where
  "health_session L E levels = do { healthd_board_init L E; for_each levels (healthd_board_battery_update L E) }"

lemma kSys_differ [simp]:
  "kSysPersistFile \<noteq> kSysCFPersistFile" "kSysCFPersistFile \<noteq> kSysPersistFile"
  "kCycCntFile \<noteq> kSysCFPersistFile" "kSysCFPersistFile \<noteq> kCycCntFile"
  "kChgFullFile \<noteq> kSysCFPersistFile" "kSysCFPersistFile \<noteq> kChgFullFile"
  "kChgFullFile \<noteq> kSysPersistFile" "kSysPersistFile \<noteq> kChgFullFile"
  by (simp_all add: kSysPersistFile_def kSysCFPersistFile_def kCycCntFile_def kChgFullFile_def)

text \<open>Neither unit touches the other.\<close>

lemmas lc_ops = lc_Backup_def lc_Restore_def lc_ReadFromStorage_def lc_ReadNominalCapacity_def lc_ReadFromSRAM_def
  lc_SaveToStorage_def lc_SaveToSRAM_def
lemmas cc_ops = cc_Backup_def cc_Restore_def cc_ReadFromStorage_def cc_ReadFromSRAM_def cc_UpdateAndSave_def
  cc_SaveToStorage_def cc_SaveToSRAM_def

definition bins_of :: "health \<Rightarrow> int list \<times> int list" where "bins_of h = (sw_bins h, hw_bins h)"
definition caps_of :: "health \<Rightarrow> int \<times> int \<times> int" where "caps_of h = (sw_cap h, hw_cap h, nom_cap h)"

lemma lc_keeps_bins: "preserves bins_of (lc_Backup L E)" "preserves bins_of (lc_Restore L E)"
  unfolding lc_ops by (intro preserves_intros; simp add: bins_of_def)+

lemma cc_keeps_caps: "preserves caps_of (cc_Backup L E)" "preserves caps_of (cc_Restore L E)"
  unfolding cc_ops Let_def by (intro preserves_intros; simp add: caps_of_def)+

lemma lc_no_write: "emits (no_write kSysPersistFile) (lc_Backup L E)" "emits (no_write kSysPersistFile) (lc_Restore L E)"
  unfolding lc_ops by (intro emits_intros; simp)+

lemma cc_no_write: "emits (no_write kSysCFPersistFile) (cc_Backup L E)" "emits (no_write kSysCFPersistFile) (cc_Restore L E)"
  unfolding cc_ops Let_def by (intro emits_intros; simp)+

lemma bins_frame: "preserves bins_of m \<Longrightarrow> sw_bins (snd (run_state m h)) = sw_bins h \<and> hw_bins (snd (run_state m h)) = hw_bins h"
  using preserves_snd [of bins_of m h] by (simp add: bins_of_def)

lemma caps_frame: "preserves caps_of m \<Longrightarrow> sw_cap (snd (run_state m h)) = sw_cap h \<and>
    hw_cap (snd (run_state m h)) = hw_cap h \<and> nom_cap (snd (run_state m h)) = nom_cap h"
  using preserves_snd [of caps_of m h] by (simp add: caps_of_def)

lemma cc_file_frame: "preserves bins_of m \<Longrightarrow> emits (no_write kSysPersistFile) m \<Longrightarrow> cc_file.keeps_copy L m"
  by (intro cc_file.keeps_frame) (simp_all add: bins_frame bins_valid_def)

lemma lc_file_frame: "preserves caps_of m \<Longrightarrow> emits (no_write kSysCFPersistFile) m \<Longrightarrow> lc_file.keeps_copy L m"
  by (intro lc_file.keeps_frame) (simp_all add: caps_frame caps_valid_def)

lemma cc_file_modify: "(\<And>h. bins_of (f h) = bins_of h) \<Longrightarrow> (\<And>h. hist (f h) = hist h) \<Longrightarrow> cc_file.keeps_copy L (modify f)"
  by (intro cc_file_frame preserves_intros emits_intros)

lemma lc_file_modify: "(\<And>h. caps_of (f h) = caps_of h) \<Longrightarrow> (\<And>h. hist (f h) = hist h) \<Longrightarrow> lc_file.keeps_copy L (modify f)"
  by (intro lc_file_frame preserves_intros emits_intros)

lemma cycle_count_keeps:
  "cc_file.keeps_copy L (cycle_count_backup L E l)" "lc_file.keeps_copy L (cycle_count_backup L E l)"
  unfolding cycle_count_backup_def
  by (intro cc_file.keeps_intros cc_file_modify; simp add: bins_of_def)
    (intro lc_file.keeps_intros lc_file_modify lc_file_frame cc_keeps_caps cc_no_write; simp add: caps_of_def)

lemma updates_keep:
  "cc_file.keeps_copy L (for_each levels (healthd_board_battery_update L E))"
  "lc_file.keeps_copy L (for_each levels (healthd_board_battery_update L E))"
  unfolding healthd_board_battery_update_def
  by (intro cc_file.keeps_intros cycle_count_keeps cc_file_frame lc_keeps_bins lc_no_write)
    (intro lc_file.keeps_intros cycle_count_keeps)

section \<open>The counters never go down\<close>

definition grown :: "health \<Rightarrow> health \<Rightarrow> bool" where
  "grown h h' \<longleftrightarrow> bins_full h' \<and> (sw_bins h = hw_bins h \<longrightarrow> sw_bins h' = hw_bins h') \<and> list_all2 (\<le>) (sw_bins h) (sw_bins h')"

lemma grown_same: "bins_full h \<Longrightarrow> bins_of h' = bins_of h \<Longrightarrow> grown h h'"
  by (auto simp: grown_def bins_of_def bins_full_def list_all2_same)

lemma grown_trans: "grown h h1 \<Longrightarrow> grown h1 h2 \<Longrightarrow> grown h h2"
  by (auto simp: grown_def intro: list_all2_trans [where ?P1.0 = "(\<le>)" and ?P2.0 = "(\<le>)", rotated])

lemma backup_grown:
  assumes full: "bins_full h"
  shows "grown h (snd (run_state (cc_Backup L E) h))"
proof -
  from backup_run [OF full, of L E] have
    "sw_bins (snd (run_state (cc_Backup L E) h)) = max_bins (sram_read L E h) (sw_bins h)" by auto
  moreover have "list_all2 (\<le>) (sw_bins h) (max_bins (sram_read L E h) (sw_bins h))"
    using full by (intro conjunct1 [OF max_bins_ge]) (simp add: bins_full_def)
  ultimately show ?thesis
    using cc_unit.synced [OF full] cc_unit.stays_good [OF full] by (simp add: grown_def)
qed

lemma update_grown: "bins_full h \<Longrightarrow> grown h (snd (run_state (healthd_board_battery_update L E l) h))"
proof -
  assume full: "bins_full h"
  have lc: "grown h' (snd (run_state (lc_Backup L E) h'))" if "bins_full h'" for h'
    using that bins_frame [OF lc_keeps_bins(1)] by (intro grown_same) (simp_all add: bins_of_def)
  have "grown h (snd (run_state (cycle_count_backup L E l) h))"
  proof -
    define g where "g = h\<lparr>soc_inc := (if l > saved_soc h then soc_inc h + (l - saved_soc h) else soc_inc h), saved_soc := l\<rparr>"
    have run: "bins_of (snd (run_state (cycle_count_backup L E l) h)) =
        (if is_first h then bins_of h else if soc_inc g \<ge> kBackupTrigger then bins_of (snd (run_state (cc_Backup L E) g)) else bins_of h)"
      by (auto simp: cycle_count_backup_def g_def bins_of_def split_beta)
    have "bins_full g" and g: "sw_bins g = sw_bins h" "hw_bins g = hw_bins h"
      using full by (simp_all add: g_def bins_full_def)
    from backup_grown [OF this(1)] run full show ?thesis
      by (auto simp: grown_def bins_of_def bins_full_def g list_all2_same split: if_splits)
  qed
  from grown_trans [OF this lc] this show ?thesis
    by (simp add: healthd_board_battery_update_def split_beta grown_def)
qed

lemma updates_grown: "bins_full h \<Longrightarrow> grown h (snd (run_state (for_each levels (healthd_board_battery_update L E)) h))"
proof (induction levels arbitrary: h)
  case Nil
  then show ?case by (simp add: grown_same)
next
  case (Cons l levels)
  from update_grown [OF Cons.prems] have step: "grown h (snd (run_state (healthd_board_battery_update L E l) h))" .
  then have "bins_full (snd (run_state (healthd_board_battery_update L E l) h))" by (simp add: grown_def)
  from grown_trans [OF step Cons.IH [OF this]] show ?case by (simp add: split_beta)
qed

section \<open>Boot\<close>

lemma boot_bins:
  assumes store: "keeps_file E kSysPersistFile old"
  shows "let h = snd (run_state (healthd_board_init L E) new_health) in
    bins_full h \<and> sw_bins h = hw_bins h \<and> list_all2 (\<le>) (stored_bins L old) (sw_bins h) \<and>
    (writes_succeed (hist h) \<longrightarrow> cc_file.in_file L old h)"
proof -
  define h1 where "h1 = snd (run_state (cc_ReadFromStorage L E) new_health)"
  let ?h2 = "snd (run_state (cc_Backup L E) h1)" let ?h = "snd (run_state (lc_Restore L E) ?h2)"
  have h: "snd (run_state (healthd_board_init L E) new_health) = ?h"
    by (simp add: healthd_board_init_def split_beta restore_run(1) h1_def)
  have 1: "sw_bins h1 = stored_bins L old" "hw_bins h1 = replicate kBucketCount 0"
    "hist h1 = [(Read_file kSysPersistFile, Text old)]"
    using store by (simp_all add: h1_def run_ReadFromStorage storage_read_def keeps_file_def new_health_fields stored_bins_def Let_def split: option.split)
  have "bins_valid h1" by (simp add: bins_valid_def 1(1,2) stored_bins_valid)
  then have in1: "cc_file.in_file L old h1" and full: "bins_full h1"
    by (simp_all add: cc_file.in_file_def 1 bins_valid_full file_after_no_write)
  have frame: "sw_bins ?h = sw_bins ?h2" "hw_bins ?h = hw_bins ?h2"
    using bins_frame [OF lc_keeps_bins(2)] by simp_all
  have "cc_file.in_file L old ?h" if "writes_succeed (hist ?h)"
  proof -
    have "writes_succeed (emitted (cc_Backup L E) h1)" "writes_succeed (emitted (lc_Restore L E) ?h2)"
      using that emits_hist [OF lc_no_write(2), of L E ?h2] emits_hist [OF cc_unit.appends, of L E h1] by simp_all
    then show ?thesis
      using cc_file.keeps_copyD [OF cc_file.keeps_backup in1] cc_file.keeps_copyD [OF cc_file_frame [OF lc_keeps_bins(2) lc_no_write(2)]]
      by blast
  qed
  with backup_grown [OF full, of L E] cc_unit.synced [OF full, of L E] show ?thesis
    unfolding h by (simp add: Let_def grown_def frame bins_full_def 1(1))
qed

lemma boot_gauge:
  fixes L
  assumes store: "keeps_file E kSysCFPersistFile old"
  defines "h1 \<equiv> snd (run_state (cc_Restore L E) new_health)"
  shows "file_after kSysCFPersistFile old (hist h1) = old" and "sw_cap h1 = 0" and "hw_cap h1 = 0"
    and "fst (gauge_caps L E h1) = stored_cap L old"
proof -
  show caps: "sw_cap h1 = 0" "hw_cap h1 = 0"
    using caps_frame [OF cc_keeps_caps(2), of L E new_health] by (simp_all add: h1_def new_health_fields)
  have "list_all (no_write kSysCFPersistFile) (hist h1)"
    using emits_hist [OF cc_no_write(2), of L E new_health] emits_all [OF cc_no_write(2), of L E new_health]
    by (simp add: h1_def new_health_fields)
  then show old: "file_after kSysCFPersistFile old (hist h1) = old" by (rule file_after_no_write)
  from store old have "e_text E (hist h1) (Read_file kSysCFPersistFile) = old" by (simp add: keeps_file_def)
  then show "fst (gauge_caps L E h1) = stored_cap L old"
    by (simp add: gauge_caps_def run_lc_reads stored_cap_def caps split: option.split)
qed

lemma board_init_state:
  "snd (run_state (healthd_board_init L E) h) = snd (run_state (lc_Restore L E) (snd (run_state (cc_Restore L E) h)))"
  by (simp add: healthd_board_init_def split_beta)

lemma boot_caps:
  assumes store: "keeps_file E kSysCFPersistFile old"
  shows "let h = snd (run_state (healthd_board_init L E) new_health) in
    writes_succeed (hist h) \<longrightarrow> lc_file.in_file L old h"
proof -
  define h1 where "h1 = snd (run_state (cc_Restore L E) new_health)"
  note old = boot_gauge(1) [OF store, of L, folded h1_def] and caps = boot_gauge(2,3) [OF store, of L, folded h1_def]
    and sw = boot_gauge(4) [OF store, of L, folded h1_def]
  obtain s nom hw where g: "gauge_caps L E h1 = (s, nom, hw)" by (cases "gauge_caps L E h1")
  have valid: "int32 s" "int32 hw"
    using g load_int_valid [OF int32_zero] by (auto simp: gauge_caps_def run_lc_reads caps Let_def split: option.splits)
  from lc_restore_run [OF g] obtain t where t: "saves t = []" and run: "run_state (lc_Restore L E) h1 =
     (let h = h1\<lparr>sw_cap := s, nom_cap := nom, hw_cap := hw, hist := hist h1 @ t\<rparr> in
      if s = 0 then run_state (lc_SaveToStorage E) (h\<lparr>sw_cap := hw\<rparr>)
      else if hw = nom then run_state (lc_SaveToSRAM E) (h\<lparr>hw_cap := s\<rparr>)
      else ((), h))" .
  from t have "list_all (no_write kSysCFPersistFile) t" by (rule no_saves_no_write)
  then have kept: "file_after kSysCFPersistFile old (hist h1 @ t) = old" by (simp add: old file_after_no_write)
  show ?thesis
    unfolding board_init_state h1_def [symmetric] using valid kept sw g
    by (auto simp: run Let_def lc_file.in_file_def caps_valid_def lc_SaveToStorage_def lc_SaveToSRAM_def run_calls
        writes_succeed_def stored_cap_text [unfolded cap_text_def])
qed

section \<open>A restart\<close>

lemma session_state:
  "snd (run_state (health_session L E levels) h) =
     snd (run_state (for_each levels (healthd_board_battery_update L E)) (snd (run_state (healthd_board_init L E) h)))"
  by (simp add: health_session_def split_beta)

lemma session_hist:
  "hist (snd (run_state (health_session L E levels) h)) = hist (snd (run_state (healthd_board_init L E) h)) @
     emitted (for_each levels (healthd_board_battery_update L E)) (snd (run_state (healthd_board_init L E) h))"
  using updates_keep(1) unfolding session_state by (intro emits_hist) (auto simp: cc_file.keeps_copy_def)

text \<open>At the end of a run the two files hold the saved copies.\<close>

lemma session_files:
  fixes L E levels
  defines "h \<equiv> snd (run_state (health_session L E levels) new_health)"
  assumes ok: "writes_succeed (hist h)"
  shows "keeps_file E kSysPersistFile old \<Longrightarrow> stored_bins L (file_after kSysPersistFile old (hist h)) = sw_bins h"
    and "keeps_file E kSysCFPersistFile old \<Longrightarrow> stored_cap L (file_after kSysCFPersistFile old (hist h)) = sw_cap h"
proof -
  let ?boot = "snd (run_state (healthd_board_init L E) new_health)"
  from ok have oks: "writes_succeed (hist ?boot)"
    "writes_succeed (emitted (for_each levels (healthd_board_battery_update L E)) ?boot)"
    by (simp_all add: h_def session_hist)
  show "stored_bins L (file_after kSysPersistFile old (hist h)) = sw_bins h" if "keeps_file E kSysPersistFile old"
    using boot_bins [OF that, of L] oks cc_file.keeps_copyD [OF updates_keep(1), of L old ?boot levels E]
    by (simp add: h_def session_state cc_file.in_file_def Let_def)
  show "stored_cap L (file_after kSysCFPersistFile old (hist h)) = sw_cap h" if "keeps_file E kSysCFPersistFile old"
    using boot_caps [OF that, of L] oks lc_file.keeps_copyD [OF updates_keep(2), of L old ?boot levels E]
    by (simp add: h_def session_state lc_file.in_file_def Let_def)
qed

text \<open>
  C27. The charge cycle counters survive a restart: after any run of the service whose writes succeeded, with
  any battery levels and anything delivered by the fuel gauge, a later run of the process that finds the
  same persist partition has, from its boot on and whatever the gauge then delivers (also after a
  reset), counters that are at least those of the first run, the same in both copies.
\<close>

theorem counters_survive_reboot:
  assumes "keeps_file E kSysPersistFile old"
    and "h = snd (run_state (health_session L E levels) new_health)" and "writes_succeed (hist h)"
    and "keeps_file E' kSysPersistFile (file_after kSysPersistFile old (hist h))"
  shows "let h' = snd (run_state (health_session L E' levels') new_health) in
    list_all2 (\<le>) (sw_bins h) (hw_bins h') \<and> sw_bins h' = hw_bins h'"
proof -
  let ?boot = "snd (run_state (healthd_board_init L E') new_health)"
  have "stored_bins L (file_after kSysPersistFile old (hist h)) = sw_bins h"
    using session_files(1) assms(1,3) unfolding assms(2) by blast
  with boot_bins [OF assms(4), of L] have boot: "bins_full ?boot" "sw_bins ?boot = hw_bins ?boot"
    "list_all2 (\<le>) (sw_bins h) (sw_bins ?boot)" unfolding Let_def by metis+
  from updates_grown [OF boot(1), of levels' L E'] boot(2)
  have "list_all2 (\<le>) (sw_bins ?boot) (sw_bins (snd (run_state (health_session L E' levels') new_health)))"
    "sw_bins (snd (run_state (health_session L E' levels') new_health)) =
       hw_bins (snd (run_state (health_session L E' levels') new_health))"
    unfolding session_state grown_def by metis+
  with boot(3) show ?thesis
    unfolding Let_def by (metis list_all2_trans [where ?P1.0 = "(\<le>)" and ?P2.0 = "(\<le>)"] order_trans)
qed

text \<open>
  The learned capacity survives a restart: when the service is booted again on the partition that a
  run with successful writes left, it finds the capacity of that run, and if the fuel gauge was reset to
  the nominal capacity, the gauge is given that capacity back.
\<close>

theorem capacity_survives_reboot:
  assumes "keeps_file E kSysCFPersistFile old"
    and "h = snd (run_state (health_session L E levels) new_health)" and "writes_succeed (hist h)"
    and "keeps_file E' kSysCFPersistFile (file_after kSysCFPersistFile old (hist h))"
    and "gauge_caps L E' (snd (run_state (cc_Restore L E') new_health)) = (sw, nom, hw)"
  shows "let h' = snd (run_state (healthd_board_init L E') new_health) in
    sw = sw_cap h \<and>
    (if sw_cap h = 0 then sw_cap h' = hw
     else sw_cap h' = sw_cap h \<and>
       (if hw = nom then hw_cap h' = sw_cap h \<and> (kChgFullFile, cap_text (sw_cap h)) \<in> set (saves (hist h'))
        else hw_cap h' = hw))"
proof -
  let ?h1 = "snd (run_state (cc_Restore L E') new_health)"
  have "stored_cap L (file_after kSysCFPersistFile old (hist h)) = sw_cap h"
    using session_files(2) assms(1,3) unfolding assms(2) by blast
  with boot_gauge(4) [OF assms(4), of L] assms(5) have sw: "sw = sw_cap h" by simp
  from lc_restore_run [OF assms(5)] obtain t where "run_state (lc_Restore L E') ?h1 =
     (let h1 = ?h1\<lparr>sw_cap := sw, nom_cap := nom, hw_cap := hw, hist := hist ?h1 @ t\<rparr> in
      if sw = 0 then run_state (lc_SaveToStorage E') (h1\<lparr>sw_cap := hw\<rparr>)
      else if hw = nom then run_state (lc_SaveToSRAM E') (h1\<lparr>hw_cap := sw\<rparr>)
      else ((), h1))" .
  then show ?thesis
    by (simp add: board_init_state sw Let_def lc_SaveToStorage_def lc_SaveToSRAM_def run_calls cap_text_def)
qed

section \<open>A reset of the gauge\<close>

lemma backups_valid: "bins_valid h \<Longrightarrow> bins_valid (snd (run_state (for_each (replicate n ()) (\<lambda>_. cc_Backup L E)) h))"
  by (induction n arbitrary: h) (simp_all add: split_beta cc_file.valid_backup)

text \<open>
  C25. The counters survive a reset of the fuel gauge: however many backups have run, from a storage file
  that held the saved counters and with writes that succeed, a restore that reads what they have left in
  that file and a gauge that delivers the text of other counters makes both copies the pointwise maximum
  of the saved and the delivered counters; a gauge that is behind is written.
\<close>

theorem counts_survive_reset:
  assumes valid: "bins_valid h0" "ints_valid kBucketCount delivered" and full: "bins_full h"
    and ran: "h1 = snd (run_state (for_each (replicate n ()) (\<lambda>_. cc_Backup L E0)) h0)"
      "backed_up = emitted (for_each (replicate n ()) (\<lambda>_. cc_Backup L E0)) h0"
    and ok: "writes_succeed backed_up"
    and left: "left = contents kSysPersistFile (bins_text (sw_bins h0)) backed_up"
    and storage: "e_text E (hist h) (Read_file kSysPersistFile) = Some left"
    and gauge: "e_text E (hist h @ [(Read_file kSysPersistFile, Text (Some left))]) (Read_file kCycCntFile) = Some raw"
      "Trim L raw = print_ints delivered"
  shows "let h' = snd (run_state (cc_Restore L E) h) in
    hw_bins h' = max_bins delivered (sw_bins h1) \<and> sw_bins h' = max_bins delivered (sw_bins h1) \<and>
    (list_ex (\<lambda>(d, s). d < s) (zip delivered (sw_bins h1)) \<longrightarrow>
      (kCycCntFile, bins_text (max_bins delivered (sw_bins h1))) \<in> set (saves (hist h')))"
proof -
  have saved: "ints_valid kBucketCount (sw_bins h1)"
    using backups_valid [OF valid(1)] by (simp add: ran(1) bins_valid_def)
  have "left = bins_text (sw_bins h1)"
    using cc_unit.backups_keep [OF bins_valid_full [OF valid(1)] ok [unfolded ran(2)]] by (simp add: left ran)
  with restored_counts [OF full saved valid(2) storage [unfolded this] gauge [unfolded this]] show ?thesis by simp
qed

section \<open>Instances\<close>

text \<open>A persist partition that keeps its files, and a fuel gauge that always delivers the same.\<close>

definition persist_env :: "(string \<Rightarrow> string option) \<Rightarrow> (string \<Rightarrow> string option) \<Rightarrow> health_call env" where
  "persist_env old gauge_file = \<lparr>e_num = (\<lambda>_ _. 0), e_flag = (\<lambda>_ _. True),
     e_text = (\<lambda>h c. case c of Read_file p \<Rightarrow>
        if p = kSysPersistFile \<or> p = kSysCFPersistFile then file_after p (old p) h else gauge_file p | _ \<Rightarrow> None),
     e_entries = (\<lambda>_ _. None)\<rparr>"

lemma persist_env_keeps: "p = kSysPersistFile \<or> p = kSysCFPersistFile \<Longrightarrow> old p = c \<Longrightarrow> keeps_file (persist_env old g) p c"
  by (auto simp: keeps_file_def persist_env_def)

definition charged_run :: health where
  "charged_run = snd (run_state (health_session plain_lib (persist_env (\<lambda>_. None)
     (\<lambda>p. Some (if p = kChgFullDesignFile then ''9'' else ''7''))) [50]) new_health)"

definition left_files :: "string \<Rightarrow> string option" where
  "left_files p = Some (if p = kSysPersistFile then ''7 0 0 0 0 0 0 0'' else ''7'')"

lemma charged_run_facts:
  "writes_succeed (hist charged_run)" "file_after kSysPersistFile None (hist charged_run) = left_files kSysPersistFile"
  "file_after kSysCFPersistFile None (hist charged_run) = left_files kSysCFPersistFile"
  "sw_bins charged_run = [7, 0, 0, 0, 0, 0, 0, 0]" "sw_cap charged_run = 7"
  by code_simp+

theorem counters_survive_reboot_witness:
  "list_all2 (\<le>) [7, 0, 0, 0, 0, 0, 0, 0]
     (hw_bins (snd (run_state (health_session plain_lib (persist_env left_files (\<lambda>_. Some ''0'')) [90]) new_health)))"
proof -
  have "keeps_file (persist_env left_files (\<lambda>_. Some ''0'')) kSysPersistFile (file_after kSysPersistFile None (hist charged_run))"
    by (rule persist_env_keeps) (simp_all add: charged_run_facts)
  from counters_survive_reboot [OF persist_env_keeps charged_run_def charged_run_facts(1) this]
  show ?thesis by (simp add: Let_def charged_run_facts)
qed

theorem capacity_survives_reboot_witness:
  "hw_cap (snd (run_state (healthd_board_init plain_lib (persist_env left_files (\<lambda>_. Some ''9''))) new_health)) = 7"
proof -
  let ?E = "persist_env left_files (\<lambda>_. Some ''9'')"
  have g: "gauge_caps plain_lib ?E (snd (run_state (cc_Restore plain_lib ?E) new_health)) = (7, 9, 9)"
    by code_simp
  have k: "keeps_file ?E kSysCFPersistFile (file_after kSysCFPersistFile None (hist charged_run))"
    by (rule persist_env_keeps) (simp_all add: charged_run_facts)
  from capacity_survives_reboot [OF persist_env_keeps charged_run_def charged_run_facts(1) k g]
  show ?thesis by (simp add: Let_def charged_run_facts)
qed

text \<open>The gauge has counted to 5 and is backed up; then it is reset to 0.\<close>

definition counted :: "health_call env" where
  "counted = file_env (\<lambda>_. Some ''5'')"

definition reset_env :: "health_call env" where
  "reset_env = file_env (\<lambda>p. if p = kSysPersistFile then Some (bins_text [5, 0, 0, 0, 0, 0, 0, 0]) else Some (''0 0 0 0 0 0 0 0'' @ [LF]))"

lemma counted_backup:
  "snd (run_state (cc_Backup plain_lib counted) new_health) = new_health
     \<lparr>hw_bins := [5, 0, 0, 0, 0, 0, 0, 0], sw_bins := [5, 0, 0, 0, 0, 0, 0, 0],
      hist := [(Read_file kCycCntFile, Text (Some ''5'')), (Write_file kSysPersistFile (bins_text [5, 0, 0, 0, 0, 0, 0, 0]), Flag True)]\<rparr>"
  by code_simp

theorem counts_survive_reset_witness:
  "hw_bins (snd (run_state (cc_Restore plain_lib reset_env) new_health)) = [5, 0, 0, 0, 0, 0, 0, 0]"
proof -
  let ?s = "[5, 0, 0, 0, 0, 0, 0, 0] :: int list" and ?d = "replicate 8 0 :: int list"
  let ?b = "for_each (replicate 1 ()) (\<lambda>_. cc_Backup plain_lib counted)"
  have v: "bins_valid new_health" "ints_valid kBucketCount ?d" and full: "bins_full new_health"
    by (simp_all add: bins_valid_def new_health_def ints_valid_def bins_full_def kBucketCount_def int32_def numeral_eq_Suc)
  have b: "snd (run_state ?b new_health) = snd (run_state (cc_Backup plain_lib counted) new_health)"
    by (simp add: split_beta)
  have em: "emitted ?b new_health = [(Read_file kCycCntFile, Text (Some ''5'')),
      (Write_file kSysPersistFile (bins_text ?s), Flag True)]"
    unfolding emitted_def b counted_backup by (simp add: new_health_def)
  have ok: "writes_succeed (emitted ?b new_health)"
    and left: "bins_text ?s = contents kSysPersistFile (bins_text (sw_bins new_health)) (emitted ?b new_health)"
    by (simp_all only: em) (simp_all add: writes_succeed_def contents_def written_def)
  have h1: "sw_bins (snd (run_state ?b new_health)) = ?s"
    unfolding b counted_backup by simp
  have t: "Trim plain_lib (''0 0 0 0 0 0 0 0'' @ [LF]) = print_ints ?d" and m: "max_bins ?d ?s = ?s"
    by code_simp+
  have st: "e_text reset_env (hist new_health) (Read_file kSysPersistFile) = Some (bins_text ?s)"
    and g: "e_text reset_env (hist new_health @ [(Read_file kSysPersistFile, Text (Some (bins_text ?s)))])
      (Read_file kCycCntFile) = Some (''0 0 0 0 0 0 0 0'' @ [LF])"
    by (simp_all add: reset_env_def file_env_def)
  from counts_survive_reset [OF v full refl refl ok left st g t] have "hw_bins (snd (run_state (cc_Restore plain_lib reset_env) new_health)) = max_bins ?d ?s"
    unfolding Let_def h1 by blast
  then show ?thesis unfolding m .
qed

end
