(* ===== verification/Lights.thy ===== *)
theory Lights
  imports CText
begin

unbundle bit_operations_syntax

text \<open>
  \<open>liblight/lights.c\<close>: the lights HAL module.  The calls are those of the C library; \<open>errno\<close> is read
  by a call of its own, because \<open>close\<close> may change it between the failed \<open>write\<close> and the read.

  The names and numbers of \<open>hardware/lights.h\<close> are a parameter.  The static \<open>already_warned\<close> flags
  only guard a log message and are left out; \<open>set_light_battery\<close>, which is compiled only with
  \<open>LIGHTS_SUPPORT_BATTERY\<close>, is in \<^theory_text>\<open>LightBattery\<close>.
\<close>

section \<open>Data\<close>

datatype light_call =
    Open_node string                    \<comment> \<open>\<open>open(path, O_WRONLY)\<close>\<close>
  | Write_node string int string        \<comment> \<open>\<open>write\<close>: the node the descriptor was opened on, descriptor, bytes\<close>
  | Close_node string int
  | Errno
  | Lock_lights                         \<comment> \<open>\<open>g_lock\<close>\<close>
  | Unlock_lights
  | Init_lock
  | Get_color                           \<comment> \<open>\<open>property_get(CG_COLOR_ID_PROPERTY)\<close>\<close>
  | Malloc                              \<comment> \<open>whether the allocation succeeds\<close>
  | Free_device

record light_consts =
  Brightness_user :: int
  Brightness_low_persistence :: int
  Flash_none :: int
  Flash_timed :: int
  Flash_hardware :: int
  Id_backlight :: string
  Id_notifications :: string
  Id_attention :: string

record light_state =
  color :: "32 word"
  flashMode :: int
  flashOnMS :: int
  flashOffMS :: int
  brightnessMode :: int

definition zero_state :: light_state where
  "zero_state = \<lparr>color = 0, flashMode = 0, flashOnMS = 0, flashOffMS = 0, brightnessMode = 0\<rparr>"

record lights = "light_call world" +
  g_init :: bool                        \<comment> \<open>whether \<open>pthread_once\<close> has run\<close>
  g_notification :: light_state
  g_battery :: light_state
  g_last_backlight_mode :: int
  g_attention :: int
  rgb_brightness_ratio :: int

definition new_lights :: "light_consts \<Rightarrow> lights" where
  "new_lights K = \<lparr>hist = [], g_init = False, g_notification = zero_state, g_battery = zero_state,
     g_last_backlight_mode = Brightness_user K, g_attention = 0, rgb_brightness_ratio = 255\<rparr>"

type_synonym 'a light_op = "(lights, 'a) state"

text \<open>The functions a device can be opened for.\<close>

datatype light_fun = Set_backlight | Set_notifications | Set_attention

definition RED_LED_FILE :: string where "RED_LED_FILE = ''/sys/class/leds/red/brightness''"
definition GREEN_LED_FILE :: string where "GREEN_LED_FILE = ''/sys/class/leds/green/brightness''"
definition BLUE_LED_FILE :: string where "BLUE_LED_FILE = ''/sys/class/leds/blue/brightness''"
definition LCD_FILE :: string where "LCD_FILE = ''/sys/class/leds/lcd-backlight/brightness''"
definition PERSISTENCE_FILE :: string where
  "PERSISTENCE_FILE = ''/sys/class/graphics/fb0/msm_fb_persist_mode''"
definition RED_ON_OFF_MS_FILE :: string where "RED_ON_OFF_MS_FILE = ''/sys/class/leds/red/on_off_ms''"
definition GREEN_ON_OFF_MS_FILE :: string where "GREEN_ON_OFF_MS_FILE = ''/sys/class/leds/green/on_off_ms''"
definition BLUE_ON_OFF_MS_FILE :: string where "BLUE_ON_OFF_MS_FILE = ''/sys/class/leds/blue/on_off_ms''"
definition RED_RGB_START_FILE :: string where "RED_RGB_START_FILE = ''/sys/class/leds/red/rgb_start''"
definition GREEN_RGB_START_FILE :: string where "GREEN_RGB_START_FILE = ''/sys/class/leds/green/rgb_start''"
definition BLUE_RGB_START_FILE :: string where "BLUE_RGB_START_FILE = ''/sys/class/leds/blue/rgb_start''"

lemmas node_names = RED_LED_FILE_def GREEN_LED_FILE_def BLUE_LED_FILE_def LCD_FILE_def PERSISTENCE_FILE_def
  RED_ON_OFF_MS_FILE_def GREEN_ON_OFF_MS_FILE_def BLUE_ON_OFF_MS_FILE_def
  RED_RGB_START_FILE_def GREEN_RGB_START_FILE_def BLUE_RGB_START_FILE_def

definition EINVAL :: int where "EINVAL = 22"
definition ENOMEM :: int where "ENOMEM = 12"

section \<open>Writing a node\<close>

text \<open>The body that \<open>write_int\<close> and \<open>write_double_int\<close> share; \<open>text\<close> is what \<open>snprintf\<close> would print.\<close>

definition write_text_node :: "light_call env \<Rightarrow> string \<Rightarrow> string \<Rightarrow> int light_op" where
  "write_text_node E path txt = do {
     fd \<leftarrow> call_num E (Open_node path);
     if fd \<ge> 0 then
       if length txt \<ge> 20 then ret (- EINVAL)
       else do {
         amt \<leftarrow> call_num E (Write_node path fd txt);
         _ \<leftarrow> call_num E (Close_node path fd);
         (if amt = -1 then do { e \<leftarrow> call_num E Errno; ret (- e) } else ret 0)
       }
     else do { e \<leftarrow> call_num E Errno; ret (- e) }
   }"

definition write_int :: "light_call env \<Rightarrow> string \<Rightarrow> int \<Rightarrow> int light_op" where
  "write_int E path v = write_text_node E path (print_int v @ [LF])"

definition write_double_int :: "light_call env \<Rightarrow> string \<Rightarrow> int \<Rightarrow> int \<Rightarrow> int light_op" where
  "write_double_int E path v1 v2 = write_text_node E path (print_int v1 @ CHR '' '' # print_int v2 @ [LF])"

section \<open>Colours\<close>

definition is_lit :: "light_state \<Rightarrow> bool" where
  "is_lit st \<longleftrightarrow> color st AND 0x00ffffff \<noteq> 0"

definition rgb_to_brightness :: "light_state \<Rightarrow> int" where
  "rgb_to_brightness st =
     (let c = color st AND 0x00ffffff
      in uint (drop_bit 8 (77 * (drop_bit 16 c AND 0x00ff) + 150 * (drop_bit 8 c AND 0x00ff) + 29 * (c AND 0x00ff))))"

text \<open>A channel of the notification light, scaled for the colour of the device.\<close>

definition scaled :: "int \<Rightarrow> 32 word \<Rightarrow> int" where
  "scaled ratio v = sint (v * of_int ratio div 255)"

section \<open>The device methods\<close>

definition set_light_backlight :: "light_consts \<Rightarrow> light_call env \<Rightarrow> bool \<Rightarrow> light_state \<Rightarrow> int light_op" where
  "set_light_backlight K E dev st =
     (let brightness = rgb_to_brightness st;
          lpEnabled = (brightnessMode st = Brightness_low_persistence K)
      in if \<not> dev then ret (-1)
         else do {
           call_void Lock_lights;
           last \<leftarrow> gets g_last_backlight_mode;
           err \<leftarrow> (if last \<noteq> brightnessMode st \<and> lpEnabled \<or> \<not> lpEnabled \<and> last = Brightness_low_persistence K
                   then write_int E PERSISTENCE_FILE (if lpEnabled then 1 else 0) else ret 0);
           modify (\<lambda>l. l\<lparr>g_last_backlight_mode := brightnessMode st\<rparr>);
           err \<leftarrow> (if err = 0 then write_int E LCD_FILE brightness else ret err);
           call_void Unlock_lights;
           ret err
         })"

text \<open>The end of \<open>set_speaker_light_locked\<close>: each light is started when the one before it was.\<close>

definition start_lights :: "light_call env \<Rightarrow> int light_op" where
  "start_lights E = do {
     r \<leftarrow> write_int E RED_RGB_START_FILE 1;
     if r \<noteq> 0 then ret 0
     else do {
       r \<leftarrow> write_int E GREEN_RGB_START_FILE 1;
       if r \<noteq> 0 then ret 0
       else do {
         r \<leftarrow> write_int E BLUE_RGB_START_FILE 1;
         ret (if r \<noteq> 0 then 0 else -1)
       }
     }
   }"

definition set_speaker_light_locked ::
  "light_consts \<Rightarrow> light_call env \<Rightarrow> bool \<Rightarrow> light_state \<Rightarrow> int light_op" where
  "set_speaker_light_locked K E dev st =
     (if \<not> dev then ret (-1)
      else do {
        ratio \<leftarrow> gets rgb_brightness_ratio;
        let onMS = (if flashMode st = Flash_timed K then flashOnMS st else 0);
        let offMS = (if flashMode st = Flash_timed K then flashOffMS st else 0);
        let colorRGB = color st;
        let red = scaled ratio (drop_bit 16 colorRGB AND 0xFF);
        let green = scaled ratio (drop_bit 8 colorRGB AND 0xFF);
        let blue = scaled ratio (colorRGB AND 0xFF);
        _ \<leftarrow> write_double_int E RED_ON_OFF_MS_FILE onMS offMS;
        _ \<leftarrow> write_int E RED_LED_FILE red;
        _ \<leftarrow> write_double_int E GREEN_ON_OFF_MS_FILE onMS offMS;
        _ \<leftarrow> write_int E GREEN_LED_FILE green;
        _ \<leftarrow> write_double_int E BLUE_ON_OFF_MS_FILE onMS offMS;
        _ \<leftarrow> write_int E BLUE_LED_FILE blue;
        start_lights E
      })"

definition handle_speaker_battery_locked :: "light_consts \<Rightarrow> light_call env \<Rightarrow> bool \<Rightarrow> unit light_op" where
  "handle_speaker_battery_locked K E dev = do {
     battery \<leftarrow> gets g_battery;
     notification \<leftarrow> gets g_notification;
     _ \<leftarrow> set_speaker_light_locked K E dev (if is_lit battery then battery else notification);
     ret ()
   }"

definition set_light_notifications :: "light_consts \<Rightarrow> light_call env \<Rightarrow> bool \<Rightarrow> light_state \<Rightarrow> int light_op" where
  "set_light_notifications K E dev st = do {
     call_void Lock_lights;
     modify (\<lambda>l. l\<lparr>g_notification := st\<rparr>);
     handle_speaker_battery_locked K E dev;
     call_void Unlock_lights;
     ret 0
   }"

definition set_light_attention :: "light_consts \<Rightarrow> light_call env \<Rightarrow> bool \<Rightarrow> light_state \<Rightarrow> int light_op" where
  "set_light_attention K E dev st = do {
     call_void Lock_lights;
     (if flashMode st = Flash_hardware K then modify (\<lambda>l. l\<lparr>g_attention := flashOnMS st\<rparr>)
      else if flashMode st = Flash_none K then modify (\<lambda>l. l\<lparr>g_attention := 0\<rparr>)
      else ret ());
     handle_speaker_battery_locked K E dev;
     call_void Unlock_lights;
     ret 0
   }"

section \<open>Opening a device\<close>

definition ratio_of_color :: "string \<Rightarrow> int" where
  "ratio_of_color c =
     (if c = ''GRA00'' then 25 else if c = ''SLV00'' then 15 else if c = ''BLU00'' then 15 else 20)"

definition init_globals :: "light_call env \<Rightarrow> unit light_op" where
  "init_globals E = do {
     call_void Init_lock;
     c \<leftarrow> call_text E Get_color;
     modify (\<lambda>l. l\<lparr>rgb_brightness_ratio := ratio_of_color (case c of None \<Rightarrow> ''DEF00'' | Some v \<Rightarrow> v)\<rparr>)
   }"

definition close_lights :: "bool \<Rightarrow> int light_op" where
  "close_lights dev = do { (if dev then call_void Free_device else ret ()); ret 0 }"

text \<open>\<open>set_light\<close> of \<open>open_lights\<close>; \<open>None\<close> is the return of \<open>-EINVAL\<close>.\<close>

definition light_of_name :: "light_consts \<Rightarrow> string \<Rightarrow> light_fun option" where
  "light_of_name K name =
     (if name = Id_backlight K then Some Set_backlight
      else if name = Id_notifications K then Some Set_notifications
      else if name = Id_attention K then Some Set_attention
      else None)"

definition open_lights :: "light_consts \<Rightarrow> light_call env \<Rightarrow> string \<Rightarrow> (int \<times> light_fun option) light_op" where
  "open_lights K E name =
     (case light_of_name K name of
        None \<Rightarrow> ret (- EINVAL, None)
      | Some set_light \<Rightarrow> do {
          done \<leftarrow> gets g_init;
          (if done then ret () else do { init_globals E; modify (\<lambda>l. l\<lparr>g_init := True\<rparr>) });
          ok \<leftarrow> call_flag E Malloc;
          ret (if ok then (0, Some set_light) else (- ENOMEM, None))
        })"

definition set_light :: "light_consts \<Rightarrow> light_call env \<Rightarrow> light_fun \<Rightarrow> bool \<Rightarrow> light_state \<Rightarrow> int light_op" where
  "set_light K E f = (case f of
     Set_backlight \<Rightarrow> set_light_backlight K E
   | Set_notifications \<Rightarrow> set_light_notifications K E
   | Set_attention \<Rightarrow> set_light_attention K E)"

section \<open>The brightness\<close>

text \<open>The channels of a colour as numbers, and their weighted sum.\<close>

definition channel :: "nat \<Rightarrow> 32 word \<Rightarrow> int" where
  "channel sh c = uint (drop_bit sh c AND 0xFF)"

definition weighted :: "int \<Rightarrow> int \<Rightarrow> int \<Rightarrow> int" where
  "weighted r g b = (77 * r + 150 * g + 29 * b) div 256"

lemma channel_range: "0 \<le> channel sh c \<and> channel sh c \<le> 255"
proof -
  have "drop_bit sh c AND 0xFF \<le> (0xFF :: 32 word)" by (rule word_and_le1)
  then have "uint (drop_bit sh c AND 0xFF) \<le> uint (0xFF :: 32 word)" by (simp only: word_le_def)
  then show ?thesis by (simp add: channel_def)
qed

lemma byte_mask: "(0xff :: 32 word) = mask 8" "(0x00ffffff :: 32 word) = mask 24"
  by (simp_all add: mask_eq_exp_minus_1)

lemma channel_of_rgb:
  "drop_bit 16 (c AND 0x00ffffff) AND 0x00ff = drop_bit 16 c AND (0xff :: 32 word)"
  "drop_bit 8 (c AND 0x00ffffff) AND 0x00ff = drop_bit 8 c AND (0xff :: 32 word)"
  "(c AND 0x00ffffff) AND 0x00ff = c AND (0xff :: 32 word)"
  unfolding byte_mask by (simp_all flip: take_bit_eq_mask add: drop_bit_take_bit)

lemma weighted_range:
  "lo \<le> r \<Longrightarrow> lo \<le> g \<Longrightarrow> lo \<le> b \<Longrightarrow> r \<le> hi \<Longrightarrow> g \<le> hi \<Longrightarrow> b \<le> hi \<Longrightarrow> lo \<le> weighted r g b \<and> weighted r g b \<le> hi"
  unfolding weighted_def by linarith

lemma rgb_to_brightness_weighted:
  "rgb_to_brightness st = weighted (channel 16 (color st)) (channel 8 (color st)) (channel 0 (color st))"
proof -
  let ?r = "drop_bit 16 (color st) AND 0xff" and ?g = "drop_bit 8 (color st) AND 0xff" and ?b = "color st AND 0xff"
  note range = channel_range [of 16 "color st"] channel_range [of 8 "color st"] channel_range [of 0 "color st"]
  have "uint (77 * ?r + 150 * ?g + 29 * ?b) = 77 * uint ?r + 150 * uint ?g + 29 * uint ?b"
    using range by (simp add: channel_def uint_word_ariths)
  moreover have "uint (drop_bit 8 w) = uint w div 256" for w :: "32 word"
    by (simp add: drop_bit_eq_div uint_div_distrib)
  ultimately show ?thesis
    unfolding rgb_to_brightness_def Let_def channel_of_rgb weighted_def by (simp add: channel_def)
qed

text \<open>
  The backlight brightness of a colour lies between its darkest and its brightest channel, so in
  0..255; a grey of any level has exactly that brightness, and the alpha channel does not matter.
\<close>

theorem brightness_between_channels:
  "let r = channel 16 (color st); g = channel 8 (color st); b = channel 0 (color st) in
   min r (min g b) \<le> rgb_to_brightness st \<and> rgb_to_brightness st \<le> max r (max g b) \<and>
   rgb_to_brightness st \<in> {0..255} \<and>
   rgb_to_brightness (st\<lparr>color := color st AND 0x00ffffff\<rparr>) = rgb_to_brightness st"
proof -
  define r g b where "r = channel 16 (color st)" and "g = channel 8 (color st)" and "b = channel 0 (color st)"
  have weight: "rgb_to_brightness st = weighted r g b" by (simp add: rgb_to_brightness_weighted r_def g_def b_def)
  have "min r (min g b) \<le> weighted r g b \<and> weighted r g b \<le> max r (max g b)"
    by (rule weighted_range) auto
  moreover have "0 \<le> weighted r g b \<and> weighted r g b \<le> 255"
    using channel_range by (intro weighted_range) (simp_all add: r_def g_def b_def)
  moreover have "rgb_to_brightness (st\<lparr>color := color st AND 0x00ffffff\<rparr>) = rgb_to_brightness st"
    by (simp add: rgb_to_brightness_def)
  ultimately show ?thesis by (simp add: Let_def weight flip: r_def g_def b_def)
qed

end
