(* ===== verification/Guarded.thy ===== *)
theory Guarded
  imports Wahoo_Base
begin

text \<open>
  The contract of a service whose operations each hold one mutex from their first call to their last, and
  what its clients get from it: in any sequence of operations every call is made under the mutex, which is
  never taken twice and never left locked.
\<close>

fun well_locked :: "'c \<Rightarrow> 'c \<Rightarrow> bool \<Rightarrow> 'c history \<Rightarrow> bool" where
  "well_locked lk ul locked [] = (\<not> locked)"
| "well_locked lk ul locked ((c, a) # t) =
     (if c = lk then \<not> locked \<and> well_locked lk ul True t
      else if c = ul then locked \<and> well_locked lk ul False t
      else locked \<and> well_locked lk ul locked t)"

lemma well_locked_body:
  "list_all (\<lambda>e. fst e \<noteq> lk \<and> fst e \<noteq> ul) v \<Longrightarrow> well_locked lk ul True (v @ t) = well_locked lk ul True t"
  by (induction v) auto

definition bracketed :: "'c \<Rightarrow> 'c \<Rightarrow> 'c history \<Rightarrow> bool" where
  "bracketed lk ul t \<longleftrightarrow> t = [] \<or>
     (\<exists>v. t = (lk, Void) # v @ [(ul, Void)] \<and> list_all (\<lambda>e. fst e \<noteq> lk \<and> fst e \<noteq> ul) v)"

text \<open>An operation whose result the sequence ignores.\<close>

definition once :: "('r \<Rightarrow> ('s, 'a) state) \<Rightarrow> 'r \<Rightarrow> ('s, unit) state" where
  "once f r = do { _ \<leftarrow> f r; ret () }"

lemma run_once: "run_state (once f r) s = ((), snd (run_state (f r) s))"
  by (simp add: once_def split_beta)

locale guarded_ops =
  fixes run_op :: "'r \<Rightarrow> (('c, 'm) world_scheme, 'a) state"
    and lk ul :: 'c
  assumes different: "lk \<noteq> ul"
    and guarded: "\<exists>t. hist (snd (run_state (run_op r) s)) = hist s @ t \<and> bracketed lk ul t"
begin

lemma emits_once: "emits (\<lambda>_. True) (once run_op r)"
proof (rule emitsI)
  fix s
  from guarded [of r s] obtain t where "hist (snd (run_state (run_op r) s)) = hist s @ t" by blast
  then show "\<exists>t. hist (snd (run_state (once run_op r) s)) = hist s @ t \<and> list_all (\<lambda>_. True) t"
    by (simp add: run_once list_all_iff)
qed

lemma bracketed_well_locked:
  "bracketed lk ul t \<Longrightarrow> well_locked lk ul False u \<Longrightarrow> well_locked lk ul False (t @ u)"
  using different by (auto simp: bracketed_def well_locked_body)

lemma sequence_guarded: "well_locked lk ul False (emitted (for_each rs (once run_op)) s)"
proof (induction rs arbitrary: s)
  case Nil
  then show ?case by (simp add: emitted_def)
next
  case (Cons r rs)
  have "emitted (for_each (r # rs) (once run_op)) s = emitted (once run_op r) s @ emitted (for_each rs (once run_op)) (snd (run_state (once run_op r) s))"
    unfolding for_each.simps
    by (rule emitted_bind [where P = "\<lambda>_. True"]) (auto intro: emits_once emits_for_each)
  moreover from guarded [of r s] have "bracketed lk ul (emitted (once run_op r) s)"
    by (auto simp: emitted_def run_once)
  ultimately show ?case using bracketed_well_locked Cons.IH by simp
qed

end

end
