(* ===== verification/LightWrites.thy ===== *)
theory LightWrites
  imports Lights Guarded
begin

text \<open>
  What the lights HAL sends to the kernel: the traces of one node write, the list of node writes each
  request amounts to, and the descriptors, locks and node contents that follow from it.
\<close>

section \<open>One node write\<close>

text \<open>The four ways a node write ends, with its result and its calls.\<close>

inductive node_trace :: "string \<Rightarrow> string \<Rightarrow> int \<Rightarrow> light_call history \<Rightarrow> bool" where
  no_open: "fd < 0 \<Longrightarrow> node_trace p x (- e) [(Open_node p, Num fd), (Errno, Num e)]"
| too_long: "0 \<le> fd \<Longrightarrow> 20 \<le> length x \<Longrightarrow> node_trace p x (- EINVAL) [(Open_node p, Num fd)]"
| sent: "0 \<le> fd \<Longrightarrow> length x < 20 \<Longrightarrow> amt \<noteq> -1 \<Longrightarrow>
    node_trace p x 0 [(Open_node p, Num fd), (Write_node p fd x, Num amt), (Close_node p fd, Num c)]"
| no_write: "0 \<le> fd \<Longrightarrow> length x < 20 \<Longrightarrow>
    node_trace p x (- e) [(Open_node p, Num fd), (Write_node p fd x, Num (-1)), (Close_node p fd, Num c), (Errno, Num e)]"

inductive_cases node_traceE: "node_trace p x r t"

lemma write_text_node_run:
  "\<exists>t. run_state (write_text_node E p x) l = (fst (run_state (write_text_node E p x) l), l\<lparr>hist := hist l @ t\<rparr>) \<and>
     node_trace p x (fst (run_state (write_text_node E p x) l)) t"
  by (auto simp: write_text_node_def run_calls split_beta
      intro!: exI conjI [OF refl] node_trace.intros)

lemma write_nodeE:
  obtains r t where "run_state (write_text_node E p x) l = (r, l\<lparr>hist := hist l @ t\<rparr>)" and "node_trace p x r t"
  using write_text_node_run by blast

section \<open>A list of node writes\<close>

inductive script :: "(string \<times> string) list \<Rightarrow> light_call history \<Rightarrow> bool" where
  nothing: "script [] []"
| more: "node_trace p x r t \<Longrightarrow> script ws u \<Longrightarrow> script ((p, x) # ws) (t @ u)"

inductive_simps script_Nil [simp]: "script [] t"
inductive_simps script_Cons: "script (w # ws) t"

lemma script_append: "script ws t \<Longrightarrow> script vs u \<Longrightarrow> script (ws @ vs) (t @ u)"
  by (induction rule: script.induct) (auto intro: script.more)

lemma script_one: "node_trace p x r t \<Longrightarrow> script [(p, x)] t"
  using script.more [OF _ script.nothing] by fastforce

text \<open>A call of the script that did not fail.\<close>

fun node_ok :: "light_call \<times> answer \<Rightarrow> bool" where
  "node_ok (Open_node p, Num fd) = (0 \<le> fd)"
| "node_ok (Write_node p fd x, Num amt) = (amt \<noteq> -1)"
| "node_ok e = True"

lemma node_trace_ok: "node_trace p x r t \<Longrightarrow> list_all node_ok t \<Longrightarrow> length x < 20 \<Longrightarrow> r = 0"
  by (erule node_traceE) auto

section \<open>What the notification light amounts to\<close>

definition channel_text :: "int \<Rightarrow> 32 word \<Rightarrow> string" where
  "channel_text ratio v = print_int (scaled ratio v) @ [LF]"

definition on_off_text :: "light_consts \<Rightarrow> light_state \<Rightarrow> string" where
  "on_off_text K st = (if flashMode st = Flash_timed K
     then print_int (flashOnMS st) @ CHR '' '' # print_int (flashOffMS st) @ [LF]
     else print_int 0 @ CHR '' '' # print_int 0 @ [LF])"

definition colour_writes :: "light_consts \<Rightarrow> int \<Rightarrow> light_state \<Rightarrow> (string \<times> string) list" where
  "colour_writes K ratio st =
     [(RED_ON_OFF_MS_FILE, on_off_text K st),
      (RED_LED_FILE, channel_text ratio (drop_bit 16 (color st) AND 0xFF)),
      (GREEN_ON_OFF_MS_FILE, on_off_text K st),
      (GREEN_LED_FILE, channel_text ratio (drop_bit 8 (color st) AND 0xFF)),
      (BLUE_ON_OFF_MS_FILE, on_off_text K st),
      (BLUE_LED_FILE, channel_text ratio (color st AND 0xFF))]"

definition start_writes :: "(string \<times> string) list" where
  "start_writes = map (\<lambda>p. (p, ''1'' @ [LF])) [RED_RGB_START_FILE, GREEN_RGB_START_FILE, BLUE_RGB_START_FILE]"

lemma one_text: "print_int 1 = ''1''"
  by code_simp

fun errno_set :: "light_call \<times> answer \<Rightarrow> bool" where
  "errno_set (Errno, Num e) = (e \<noteq> 0)"
| "errno_set e = True"

lemma node_trace_result:
  "node_trace p x r t \<Longrightarrow> list_all errno_set t \<Longrightarrow> length x < 20 \<Longrightarrow> r = 0 \<longleftrightarrow> list_all node_ok t"
  by (erule node_traceE) auto

lemma start_lights_run:
  obtains r t n where "run_state (start_lights E) l = (r, l\<lparr>hist := hist l @ t\<rparr>)" and "1 \<le> n" "n \<le> 3"
    and "script (take n start_writes) t" and "list_all node_ok t \<longrightarrow> n = 3"
    and "list_all errno_set t \<longrightarrow> r = (if n = 3 \<and> list_all node_ok t then -1 else 0)"
proof -
  let ?w = "\<lambda>p. write_text_node E p (''1'' @ [LF])"
  note start = start_lights_def write_int_def one_text split_beta
  obtain r1 t1 where 1: "run_state (?w RED_RGB_START_FILE) l = (r1, l\<lparr>hist := hist l @ t1\<rparr>)"
    "node_trace RED_RGB_START_FILE (''1'' @ [LF]) r1 t1" by (rule write_nodeE)
  show thesis
  proof (cases "r1 = 0")
    case False
    with 1 node_trace_result [OF 1(2)] node_trace_ok [OF 1(2)] show thesis
      by (intro that [of 0 t1 1]) (auto simp: start start_writes_def intro: script_one)
  next
    case r1: True
    let ?l = "l\<lparr>hist := hist l @ t1\<rparr>"
    obtain r2 t2 where 2: "run_state (?w GREEN_RGB_START_FILE) ?l = (r2, ?l\<lparr>hist := hist ?l @ t2\<rparr>)"
      "node_trace GREEN_RGB_START_FILE (''1'' @ [LF]) r2 t2" by (rule write_nodeE)
    have s2: "script (take 2 start_writes) (t1 @ t2)"
      using script.more [OF 1(2) script_one [OF 2(2)]] by (simp add: start_writes_def)
    show thesis
    proof (cases "r2 = 0")
      case False
      with 1 2 r1 s2 node_trace_result [OF 2(2)] node_trace_ok [OF 2(2)] show thesis
        by (intro that [of 0 "t1 @ t2" 2]) (auto simp: start)
    next
      case r2: True
      let ?m = "?l\<lparr>hist := hist ?l @ t2\<rparr>"
      obtain r3 t3 where 3: "run_state (?w BLUE_RGB_START_FILE) ?m = (r3, ?m\<lparr>hist := hist ?m @ t3\<rparr>)"
        "node_trace BLUE_RGB_START_FILE (''1'' @ [LF]) r3 t3" by (rule write_nodeE)
      have s3: "script (take 3 start_writes) (t1 @ t2 @ t3)"
        using script.more [OF 1(2) script.more [OF 2(2) script_one [OF 3(2)]]] by (simp add: start_writes_def)
      with 1 2 3 r1 r2 node_trace_result [OF 1(2)] node_trace_result [OF 2(2)] node_trace_result [OF 3(2)] show thesis
        by (intro that [of "if r3 \<noteq> 0 then 0 else -1" "t1 @ t2 @ t3" 3]) (auto simp: start)
    qed
  qed
qed

definition send :: "light_call env \<Rightarrow> string \<times> string \<Rightarrow> unit light_op" where
  "send E w = do { _ \<leftarrow> write_text_node E (fst w) (snd w); ret () }"

lemma send_run:
  obtains t where "run_state (for_each ws (send E)) l = ((), l\<lparr>hist := hist l @ t\<rparr>)" and "script ws t"
proof (induction ws arbitrary: l thesis)
  case Nil
  then show ?case by (simp add: script.nothing)
next
  case (Cons w ws)
  obtain r t where 1: "run_state (write_text_node E (fst w) (snd w)) l = (r, l\<lparr>hist := hist l @ t\<rparr>)"
    "node_trace (fst w) (snd w) r t" by (rule write_nodeE)
  obtain u where 2: "run_state (for_each ws (send E)) (l\<lparr>hist := hist l @ t\<rparr>) =
      ((), l\<lparr>hist := hist l @ t\<rparr>\<lparr>hist := hist (l\<lparr>hist := hist l @ t\<rparr>) @ u\<rparr>)" "script ws u" by (rule Cons.IH)
  have "run_state (send E w) l = ((), l\<lparr>hist := hist l @ t\<rparr>)" using 1 by (simp add: send_def)
  then show ?case
    using 2 script.more [OF 1(2) 2(2)] by (intro Cons.prems [of "t @ u"]) simp_all
qed

lemma speaker_sends:
  "set_speaker_light_locked K E True st =
     do { ratio \<leftarrow> gets rgb_brightness_ratio; for_each (colour_writes K ratio st) (send E); start_lights E }"
  by (simp add: set_speaker_light_locked_def colour_writes_def send_def write_int_def write_double_int_def
      channel_text_def on_off_text_def Let_def)

text \<open>
  What the notification light does in one go: all the colour writes, then the start writes up to the
  first that fails.
\<close>

lemma speaker_run:
  obtains r t u n where
    "run_state (set_speaker_light_locked K E True st) l = (r, l\<lparr>hist := hist l @ t @ u\<rparr>)"
    and "script (colour_writes K (rgb_brightness_ratio l) st) t" and "1 \<le> n" "n \<le> 3"
    and "script (take n start_writes) u" and "list_all node_ok u \<longrightarrow> n = 3"
    and "list_all errno_set u \<longrightarrow> r = (if n = 3 \<and> list_all node_ok u then -1 else 0)"
proof -
  obtain t where t: "run_state (for_each (colour_writes K (rgb_brightness_ratio l) st) (send E)) l =
      ((), l\<lparr>hist := hist l @ t\<rparr>)" "script (colour_writes K (rgb_brightness_ratio l) st) t" by (rule send_run)
  show thesis
  proof (rule start_lights_run [of E "l\<lparr>hist := hist l @ t\<rparr>"])
    fix r u n
    assume u: "run_state (start_lights E) (l\<lparr>hist := hist l @ t\<rparr>) =
        (r, l\<lparr>hist := hist l @ t\<rparr>\<lparr>hist := hist (l\<lparr>hist := hist l @ t\<rparr>) @ u\<rparr>)"
    assume n: "1 \<le> n" "n \<le> 3" "script (take n start_writes) u" "list_all node_ok u \<longrightarrow> n = 3"
      "list_all errno_set u \<longrightarrow> r = (if n = 3 \<and> list_all node_ok u then -1 else 0)"
    show thesis
      by (rule that [of r t u n, OF _ t(2) n]) (simp add: speaker_sends t u split: prod.split)
  qed
qed

section \<open>Requests\<close>

text \<open>What a request makes the module remember, and the node writes it stands for.\<close>

definition remember :: "light_consts \<Rightarrow> light_fun \<Rightarrow> light_state \<Rightarrow> lights \<Rightarrow> lights" where
  "remember K f st l = (case f of
     Set_backlight \<Rightarrow> l\<lparr>g_last_backlight_mode := brightnessMode st\<rparr>
   | Set_notifications \<Rightarrow> l\<lparr>g_notification := st\<rparr>
   | Set_attention \<Rightarrow>
       if flashMode st = Flash_hardware K then l\<lparr>g_attention := flashOnMS st\<rparr>
       else if flashMode st = Flash_none K then l\<lparr>g_attention := 0\<rparr> else l)"

definition shown :: "lights \<Rightarrow> light_state" where
  "shown l = (if is_lit (g_battery l) then g_battery l else g_notification l)"

definition persistence_text :: "light_consts \<Rightarrow> int \<Rightarrow> string" where
  "persistence_text K mode = (if mode = Brightness_low_persistence K then ''1'' else ''0'') @ [LF]"

definition backlight_writes :: "light_consts \<Rightarrow> int \<Rightarrow> light_state \<Rightarrow> (string \<times> string) list" where
  "backlight_writes K mode st =
     (if persistence_text K mode = persistence_text K (brightnessMode st) then []
      else [(PERSISTENCE_FILE, persistence_text K (brightnessMode st))]) @
     [(LCD_FILE, print_int (rgb_to_brightness st) @ [LF])]"

definition wanted :: "light_consts \<Rightarrow> lights \<Rightarrow> light_fun \<Rightarrow> light_state \<Rightarrow> (string \<times> string) list" where
  "wanted K l f st = (if f = Set_backlight then backlight_writes K (g_last_backlight_mode l) st
     else colour_writes K (rgb_brightness_ratio l) (shown (remember K f st l)) @ start_writes)"

lemma zero_text: "print_int 0 = ''0''"
  by code_simp

lemma persistence_change:
  "mode \<noteq> m \<and> m = Brightness_low_persistence K \<or> m \<noteq> Brightness_low_persistence K \<and> mode = Brightness_low_persistence K
   \<longleftrightarrow> persistence_text K mode \<noteq> persistence_text K m"
  by (auto simp: persistence_text_def)

lemma rgb_to_brightness_text: "length (print_int (rgb_to_brightness st) @ [LF]) < 20"
proof -
  have "int32 (rgb_to_brightness st)"
    using rgb_to_brightness_weighted [of st] channel_range [of 16 "color st"] channel_range [of 8 "color st"]
      channel_range [of 0 "color st"]
      weighted_range [of 0 "channel 16 (color st)" "channel 8 (color st)" "channel 0 (color st)" 255]
    by (simp add: int32_def)
  from print_int_length [OF this] show ?thesis by simp
qed

text \<open>The handler of the backlight as its two writes, the first only when the persistence changes.\<close>

lemma backlight_body:
  fixes K l st
  defines "lcd \<equiv> print_int (rgb_to_brightness st) @ [LF]" and "m \<equiv> persistence_text K (brightnessMode st)"
  shows "run_state (set_light_backlight K E True st) l =
     (let l1 = l\<lparr>hist := hist l @ [(Lock_lights, Void)]\<rparr>;
          (err, l2) = (if persistence_text K (g_last_backlight_mode l) \<noteq> m
            then run_state (write_text_node E PERSISTENCE_FILE m) l1 else (0, l1));
          l3 = l2\<lparr>g_last_backlight_mode := brightnessMode st\<rparr>;
          (err, l4) = (if err = 0 then run_state (write_text_node E LCD_FILE lcd) l3 else (err, l3))
      in (err, l4\<lparr>hist := hist l4 @ [(Unlock_lights, Void)]\<rparr>))"
proof -
  have "print_int (if brightnessMode st = Brightness_low_persistence K then 1 else 0) @ [LF] = m"
    by (simp add: m_def persistence_text_def one_text zero_text)
  then show ?thesis
    unfolding set_light_backlight_def Let_def persistence_change write_int_def lcd_def
    by (simp add: call_void_def split_beta m_def)
qed

lemma backlight_run:
  obtains r t ws where "run_state (set_light_backlight K E True st) l = (r, l\<lparr>g_last_backlight_mode := brightnessMode st,
      hist := hist l @ (Lock_lights, Void) # t @ [(Unlock_lights, Void)]\<rparr>)"
    and "script ws t" and "prefix ws (backlight_writes K (g_last_backlight_mode l) st)"
    and "list_all node_ok t \<longrightarrow> ws = backlight_writes K (g_last_backlight_mode l) st \<and> r = 0"
    and "list_all errno_set t \<longrightarrow> (r = 0 \<longleftrightarrow> list_all node_ok t)"
proof -
  let ?lcd = "print_int (rgb_to_brightness st) @ [LF]"
  let ?mode = "persistence_text K (brightnessMode st)"
  let ?change = "persistence_text K (g_last_backlight_mode l) \<noteq> ?mode"
  let ?l1 = "l\<lparr>hist := hist l @ [(Lock_lights, Void)]\<rparr>"
  have mode_len: "length ?mode < 20" by (simp add: persistence_text_def)
  show thesis
  proof (cases ?change)
    case False
    obtain r t where 1: "run_state (write_text_node E LCD_FILE ?lcd) (?l1\<lparr>g_last_backlight_mode := brightnessMode st\<rparr>) =
        (r, ?l1\<lparr>g_last_backlight_mode := brightnessMode st,
                hist := hist (?l1\<lparr>g_last_backlight_mode := brightnessMode st\<rparr>) @ t\<rparr>)"
      "node_trace LCD_FILE ?lcd r t" by (rule write_nodeE)
    show thesis
      using False 1 node_trace_ok [OF 1(2)] node_trace_result [OF 1(2)] rgb_to_brightness_text [of st]
      by (intro that [of r t "[(LCD_FILE, ?lcd)]"])
        (auto simp: backlight_body Let_def backlight_writes_def intro: script_one)
  next
    case change: True
    obtain r t where 1: "run_state (write_text_node E PERSISTENCE_FILE ?mode) ?l1 = (r, ?l1\<lparr>hist := hist ?l1 @ t\<rparr>)"
      "node_trace PERSISTENCE_FILE ?mode r t" by (rule write_nodeE)
    let ?l2 = "?l1\<lparr>hist := hist ?l1 @ t, g_last_backlight_mode := brightnessMode st\<rparr>"
    show thesis
    proof (cases "r = 0")
      case False
      then show thesis
        using change 1 node_trace_ok [OF 1(2)] node_trace_result [OF 1(2)] mode_len
        by (intro that [of r t "[(PERSISTENCE_FILE, ?mode)]"])
          (auto simp: backlight_body Let_def backlight_writes_def intro: script_one)
    next
      case r: True
      obtain q u where 2: "run_state (write_text_node E LCD_FILE ?lcd) ?l2 = (q, ?l2\<lparr>hist := hist ?l2 @ u\<rparr>)"
        "node_trace LCD_FILE ?lcd q u" by (rule write_nodeE)
      show thesis
        using change r 1 2 node_trace_ok [OF 2(2)] node_trace_result [OF 1(2)] node_trace_result [OF 2(2)]
          mode_len rgb_to_brightness_text [of st] script.more [OF 1(2) script_one [OF 2(2)]]
        by (intro that [of q "t @ u" "[(PERSISTENCE_FILE, ?mode), (LCD_FILE, ?lcd)]"])
          (auto simp: backlight_body Let_def backlight_writes_def)
    qed
  qed
qed

lemma handle_run:
  obtains t ws where "run_state (handle_speaker_battery_locked K E dev) l = ((), l\<lparr>hist := hist l @ t\<rparr>)"
    and "script ws t"
    and "if \<not> dev then ws = []
         else if list_all node_ok t then ws = colour_writes K (rgb_brightness_ratio l) (shown l) @ start_writes
         else prefix ws (colour_writes K (rgb_brightness_ratio l) (shown l) @ start_writes)"
proof (cases dev)
  case False
  show thesis
    by (rule that [of "[]" "[]"])
      (simp_all add: False handle_speaker_battery_locked_def set_speaker_light_locked_def)
next
  case True
  obtain r t u n where run: "run_state (set_speaker_light_locked K E True (shown l)) l = (r, l\<lparr>hist := hist l @ t @ u\<rparr>)"
    and t: "script (colour_writes K (rgb_brightness_ratio l) (shown l)) t" and n: "1 \<le> n" "n \<le> 3"
    and u: "script (take n start_writes) u" "list_all node_ok u \<longrightarrow> n = 3"
    by (rule speaker_run [of K E "shown l" l])
  have "prefix (take n start_writes) start_writes" by (rule take_is_prefix)
  moreover have "list_all node_ok u \<longrightarrow> take n start_writes = start_writes"
    using u(2) by (simp add: start_writes_def)
  ultimately show thesis
    using script_append [OF t u(1)]
    by (intro that [of "t @ u" "colour_writes K (rgb_brightness_ratio l) (shown l) @ take n start_writes"])
      (simp_all add: True run handle_speaker_battery_locked_def flip: shown_def)
qed

text \<open>One request, whatever it is for: its state change and its node writes.\<close>

lemma set_light_run:
  "let l' = snd (run_state (set_light K E f dev st) l) in
   if f = Set_backlight \<and> \<not> dev then l' = l
   else \<exists>t ws. l' = (remember K f st l)\<lparr>hist := hist l @ (Lock_lights, Void) # t @ [(Unlock_lights, Void)]\<rparr> \<and>
     script ws t \<and>
     (if \<not> dev then ws = []
      else if list_all node_ok t then ws = wanted K l f st
      else prefix ws (wanted K l f st))"
proof (cases "f = Set_backlight")
  case True
  show ?thesis
  proof (cases dev)
    case False
    then show ?thesis by (simp add: True set_light_def set_light_backlight_def Let_def)
  next
    case dev: True
    show ?thesis
      by (rule backlight_run [of K E st l]) (auto simp: True dev set_light_def remember_def wanted_def)
  qed
next
  case False
  let ?m = "(remember K f st l)\<lparr>hist := hist l @ [(Lock_lights, Void)]\<rparr>"
  have same: "shown ?m = shown (remember K f st l)" "rgb_brightness_ratio ?m = rgb_brightness_ratio l"
    by (auto simp: shown_def remember_def split: light_fun.split)
  obtain t ws where run: "run_state (handle_speaker_battery_locked K E dev) ?m = ((), ?m\<lparr>hist := hist ?m @ t\<rparr>)"
    and ws: "script ws t" "if \<not> dev then ws = []
         else if list_all node_ok t then ws = colour_writes K (rgb_brightness_ratio ?m) (shown ?m) @ start_writes
         else prefix ws (colour_writes K (rgb_brightness_ratio ?m) (shown ?m) @ start_writes)"
    by (rule handle_run)
  have order: "l\<lparr>hist := h, g_notification := n\<rparr> = l\<lparr>g_notification := n, hist := h\<rparr>"
    "l\<lparr>hist := h, g_attention := a\<rparr> = l\<lparr>g_attention := a, hist := h\<rparr>" for h n a
    by simp_all
  have "snd (run_state (set_light K E f dev st) l) = ?m\<lparr>hist := hist ?m @ t @ [(Unlock_lights, Void)]\<rparr>"
    using False run by (cases f) (auto simp: set_light_def set_light_notifications_def set_light_attention_def
        remember_def call_void_def order)
  with ws False show ?thesis
    by (auto simp: Let_def wanted_def same intro!: exI [of _ t] exI [of _ ws])
qed

section \<open>The lock\<close>

lemma script_no_lock: "script ws t \<Longrightarrow> list_all (\<lambda>e. fst e \<noteq> Lock_lights \<and> fst e \<noteq> Unlock_lights) t"
  by (induction rule: script.induct) (auto elim: node_traceE)

interpretation light_ops: guarded_ops "\<lambda>(f, dev, st). set_light K E f dev st" Lock_lights Unlock_lights for K E
proof
  show "Lock_lights \<noteq> Unlock_lights" by simp
  fix r :: "light_fun \<times> bool \<times> light_state" and l :: lights
  obtain f dev st where r: "r = (f, dev, st)" by (cases r)
  from set_light_run [of K E f dev st l]
  show "\<exists>t. hist (snd (run_state (case r of (f, dev, st) \<Rightarrow> set_light K E f dev st) l)) = hist l @ t \<and>
      bracketed Lock_lights Unlock_lights t"
    by (auto simp: r bracketed_def Let_def dest: script_no_lock split: if_splits)
qed

text \<open>
  C31. The lights module refines its specification: a request remembers what it must and, holding
  \<open>g_lock\<close> from the first call to the last, writes the wanted nodes in the wanted order; it stops early
  only after a call that failed.  Without a device nothing is written, and a backlight request without
  one does not even take the lock.  No sequence of requests takes the lock twice or leaves it taken.
\<close>

theorem set_light_refines:
  "(let l' = snd (run_state (set_light K E f dev st) l) in
    if f = Set_backlight \<and> \<not> dev then l' = l
    else \<exists>t ws. l' = (remember K f st l)\<lparr>hist := hist l @ (Lock_lights, Void) # t @ [(Unlock_lights, Void)]\<rparr> \<and>
      script ws t \<and>
      (if \<not> dev then ws = []
       else if list_all node_ok t then ws = wanted K l f st
       else prefix ws (wanted K l f st))) \<and>
   well_locked Lock_lights Unlock_lights False
     (emitted (for_each rs (once (\<lambda>(f, dev, st). set_light K E f dev st))) l)"
  using set_light_run light_ops.sequence_guarded by blast

end
