(* ===== verification/LightRequests.thy ===== *)
theory LightRequests
  imports LightWrites
begin

text \<open>
  Sequences of requests to the lights module: the descriptors they leave open, the persistence mode
  of the display, the values of the notification light, and what opening a device decides.
\<close>

section \<open>Descriptors\<close>

fun fd_change :: "light_call \<times> answer \<Rightarrow> int" where
  "fd_change (Open_node p, Num fd) = (if 0 \<le> fd then 1 else 0)"
| "fd_change (Close_node p fd, a) = -1"
| "fd_change e = 0"

definition open_fds :: "light_call history \<Rightarrow> int" where
  "open_fds t = sum_list (map fd_change t)"

fun opened_in :: "string list \<Rightarrow> light_call \<times> answer \<Rightarrow> bool" where
  "opened_in ps (Open_node p, Num fd) = (0 \<le> fd \<and> p \<in> set ps)"
| "opened_in ps e = False"

lemma open_fds_append [simp]: "open_fds (t @ u) = open_fds t + open_fds u"
  by (simp add: open_fds_def)

lemma node_trace_fds:
  "node_trace p x r t \<Longrightarrow> 20 \<le> length x \<longleftrightarrow> p \<in> set ps \<Longrightarrow> open_fds t = int (length (filter (opened_in ps) t))"
  by (erule node_traceE) (auto simp: open_fds_def)

lemma script_fds:
  "script ws t \<Longrightarrow> list_all (\<lambda>(p, x). 20 \<le> length x \<longleftrightarrow> p \<in> set ps) ws \<Longrightarrow>
     open_fds t = int (length (filter (opened_in ps) t))"
  by (induction rule: script.induct) (auto simp: open_fds_def node_trace_fds [unfolded open_fds_def])

lemma channel_text_length: "length (channel_text ratio v) < 20"
proof -
  have "int32 (scaled ratio v)"
    using sint_greater_eq [of "v * of_int ratio div 255"] sint_less [of "v * of_int ratio div 255"]
    by (simp add: int32_def scaled_def)
  from print_int_length [OF this] show ?thesis by (simp add: channel_text_def)
qed

definition on_off_nodes :: "string list" where
  "on_off_nodes = [RED_ON_OFF_MS_FILE, GREEN_ON_OFF_MS_FILE, BLUE_ON_OFF_MS_FILE]"

lemma colour_writes_long:
  "list_all (\<lambda>(p, x). 20 \<le> length x \<longleftrightarrow> p \<in> set (if 20 \<le> length (on_off_text K st) then on_off_nodes else []))
     (colour_writes K ratio st @ start_writes)"
  using channel_text_length
  by (auto simp: colour_writes_def start_writes_def on_off_nodes_def node_names not_le)

lemma backlight_writes_short: "list_all (\<lambda>(p, x). length x < 20) (backlight_writes K mode st)"
  using rgb_to_brightness_text [of st] by (simp add: backlight_writes_def persistence_text_def)

lemma list_all_prefix: "prefix ws vs \<Longrightarrow> list_all P vs \<Longrightarrow> list_all P ws"
  by (auto simp: prefix_def)

definition leaks :: "light_consts \<Rightarrow> lights \<Rightarrow> light_fun \<Rightarrow> light_state \<Rightarrow> string list" where
  "leaks K l f st = (if f \<noteq> Set_backlight \<and> 20 \<le> length (on_off_text K (shown (remember K f st l)))
     then on_off_nodes else [])"

lemma wanted_long: "list_all (\<lambda>(p, x). 20 \<le> length x \<longleftrightarrow> p \<in> set (leaks K l f st)) (wanted K l f st)"
proof (cases "f = Set_backlight")
  case True
  have "list_all (\<lambda>(p, x). 20 \<le> length x \<longleftrightarrow> p \<in> set []) (backlight_writes K (g_last_backlight_mode l) st)"
    by (rule list.pred_mono_strong [OF backlight_writes_short]) auto
  then show ?thesis by (simp add: True wanted_def leaks_def)
qed (use colour_writes_long in \<open>simp add: wanted_def leaks_def\<close>)

text \<open>
  C32. A request leaves open exactly the descriptors of the blink interval nodes it opened for an
  interval whose text does not fit the buffer of \<open>write_double_int\<close>, which returns before its
  \<open>close\<close>; every other descriptor is closed.
\<close>

theorem descriptors_leaked:
  "open_fds (emitted (set_light K E f dev st) l) =
     int (length (filter (opened_in (leaks K l f st)) (emitted (set_light K E f dev st) l)))"
proof (cases "f = Set_backlight \<and> \<not> dev")
  case True
  then show ?thesis using set_light_run [of K E f dev st l] by (simp add: emitted_def open_fds_def)
next
  case False
  with set_light_run [of K E f dev st l] obtain t ws where
    h: "snd (run_state (set_light K E f dev st) l) = (remember K f st l)\<lparr>hist := hist l @ (Lock_lights, Void) # t @ [(Unlock_lights, Void)]\<rparr>"
    and s: "script ws t" and ws: "if \<not> dev then ws = [] else if list_all node_ok t then ws = wanted K l f st
      else prefix ws (wanted K l f st)"
    by (auto simp: Let_def)
  from ws have "prefix ws (wanted K l f st)" by (auto split: if_splits)
  from script_fds [OF s list_all_prefix [OF this wanted_long]]
  have "open_fds t = int (length (filter (opened_in (leaks K l f st)) t))" .
  moreover have "emitted (set_light K E f dev st) l = (Lock_lights, Void) # t @ [(Unlock_lights, Void)]"
    by (rule hist_emitted) (simp add: h)
  ultimately show ?thesis by (simp add: open_fds_def)
qed

section \<open>Contents of the nodes\<close>

text \<open>What a node was last given by a successful write.\<close>

fun node_update :: "string \<Rightarrow> string \<Rightarrow> light_call \<times> answer \<Rightarrow> string" where
  "node_update p old (Write_node q fd x, Num amt) = (if q = p \<and> amt \<noteq> -1 then x else old)"
| "node_update p old e = old"

definition node_contents :: "string \<Rightarrow> string \<Rightarrow> light_call history \<Rightarrow> string" where
  "node_contents p old t = foldl (node_update p) old t"

lemma node_contents_simps [simp]:
  "node_contents p old [] = old"
  "node_contents p old (t @ u) = node_contents p (node_contents p old t) u"
  "node_contents p old (e # t) = node_contents p (node_update p old e) t"
  by (simp_all add: node_contents_def)

text \<open>The same of a list of writes that all succeed; a text of 20 bytes or more is not written.\<close>

fun final_text :: "string \<Rightarrow> string \<Rightarrow> (string \<times> string) list \<Rightarrow> string" where
  "final_text p old [] = old"
| "final_text p old ((q, x) # ws) = final_text p (if q = p \<and> length x < 20 then x else old) ws"

lemma final_text_append: "final_text p old (ws @ vs) = final_text p (final_text p old ws) vs"
  by (induction p old ws rule: final_text.induct) simp_all

lemma node_trace_contents:
  "node_trace q x r t \<Longrightarrow> list_all node_ok t \<Longrightarrow> node_contents p old t = (if q = p \<and> length x < 20 then x else old)"
  by (erule node_traceE) auto

lemma script_contents: "script ws t \<Longrightarrow> list_all node_ok t \<Longrightarrow> node_contents p old t = final_text p old ws"
  by (induction arbitrary: old rule: script.induct) (auto simp: node_trace_contents)

lemma script_writes: "script ws t \<Longrightarrow> (Write_node p fd x, a) \<in> set t \<Longrightarrow> (p, x) \<in> set ws"
  by (induction rule: script.induct) (auto elim: node_traceE)

section \<open>Sequences of requests\<close>

definition request :: "light_consts \<Rightarrow> light_call env \<Rightarrow> light_fun \<times> light_state \<Rightarrow> unit light_op" where
  "request K E r = do { _ \<leftarrow> set_light K E (fst r) True (snd r); ret () }"

lemma request_effect:
  obtains t where
    "run_state (request K E r) l = ((), (remember K (fst r) (snd r) l)\<lparr>hist := hist l @ t\<rparr>)"
    and "emitted (request K E r) l = t"
    and "\<And>p old. list_all node_ok t \<Longrightarrow> node_contents p old t = final_text p old (wanted K l (fst r) (snd r))"
    and "\<And>p fd x a. (Write_node p fd x, a) \<in> set t \<Longrightarrow> (p, x) \<in> set (wanted K l (fst r) (snd r))"
proof -
  obtain f st where r: "r = (f, st)" by (cases r)
  from set_light_run [of K E f True st l] obtain t ws where
    h: "snd (run_state (set_light K E f True st) l) = (remember K f st l)\<lparr>hist := hist l @ (Lock_lights, Void) # t @ [(Unlock_lights, Void)]\<rparr>"
    and s: "script ws t" and ws: "if list_all node_ok t then ws = wanted K l f st else prefix ws (wanted K l f st)"
    by (auto simp: Let_def)
  let ?t = "(Lock_lights, Void) # t @ [(Unlock_lights, Void)]"
  have run: "run_state (request K E r) l = ((), (remember K f st l)\<lparr>hist := hist l @ ?t\<rparr>)"
    using h by (simp add: request_def r split_beta)
  show thesis
  proof (rule that [of ?t])
    show "emitted (request K E r) l = ?t" by (rule hist_emitted) (simp add: run)
    show "node_contents p old ?t = final_text p old (wanted K l (fst r) (snd r))" if "list_all node_ok ?t" for p old
      using that script_contents [OF s] ws by (simp add: r)
    show "(p, x) \<in> set (wanted K l (fst r) (snd r))" if "(Write_node p fd x, a) \<in> set ?t" for p fd x a
      using that script_writes [OF s, of p fd x a] ws by (auto simp: r prefix_def split: if_splits)
  qed (use run in \<open>simp add: r\<close>)
qed

abbreviation serve :: "light_consts \<Rightarrow> light_call env \<Rightarrow> (light_fun \<times> light_state) list \<Rightarrow> unit light_op" where
  "serve K E rs \<equiv> for_each rs (request K E)"

lemma remember_hist: "remember K f st (l\<lparr>hist := h\<rparr>) = (remember K f st l)\<lparr>hist := h\<rparr>"
  by (cases f) (simp_all add: remember_def)

lemma emits_request: "emits (\<lambda>_. True) (request K E r)"
proof (rule emitsI)
  fix l
  obtain t where "run_state (request K E r) l = ((), (remember K (fst r) (snd r) l)\<lparr>hist := hist l @ t\<rparr>)"
    by (rule request_effect)
  then show "\<exists>t. hist (snd (run_state (request K E r) l)) = hist l @ t \<and> list_all (\<lambda>_. True) t"
    by (simp add: list_all_iff)
qed

lemma serve_emitted:
  "emitted (serve K E (r # rs)) l = emitted (request K E r) l @ emitted (serve K E rs) (snd (run_state (request K E r) l))"
  unfolding for_each.simps
  by (rule emitted_bind [where P = "\<lambda>_. True"]) (auto intro: emits_request emits_for_each)

text \<open>The fold of \<open>remember\<close>: what a sequence of requests makes the module remember.\<close>

fun remembered :: "light_consts \<Rightarrow> (light_fun \<times> light_state) list \<Rightarrow> lights \<Rightarrow> lights" where
  "remembered K [] l = l"
| "remembered K ((f, st) # rs) l = remembered K rs (remember K f st l)"

lemma remembered_hist: "remembered K rs (l\<lparr>hist := h\<rparr>) = (remembered K rs l)\<lparr>hist := h\<rparr>"
  by (induction K rs l rule: remembered.induct) (simp_all add: remember_hist)

lemma serve_state:
  "\<exists>h. snd (run_state (serve K E rs) l) = (remembered K rs l)\<lparr>hist := h\<rparr>"
proof (induction rs arbitrary: l)
  case Nil
  show ?case by (simp, rule exI [of _ "hist l"], simp)
next
  case (Cons r rs)
  obtain t where run: "run_state (request K E r) l = ((), (remember K (fst r) (snd r) l)\<lparr>hist := hist l @ t\<rparr>)"
    by (rule request_effect)
  from Cons [of "(remember K (fst r) (snd r) l)\<lparr>hist := hist l @ t\<rparr>"] run show ?case
    by (cases r) (auto simp: remembered_hist)
qed

lemma final_text_other: "p \<notin> fst ` set ws \<Longrightarrow> final_text p old ws = old"
  by (induction p old ws rule: final_text.induct) auto

lemma persistence_after:
  "old = persistence_text K (g_last_backlight_mode l) \<Longrightarrow>
   final_text PERSISTENCE_FILE old (wanted K l f st) = persistence_text K (g_last_backlight_mode (remember K f st l))"
proof (cases f)
  case Set_backlight
  assume "old = persistence_text K (g_last_backlight_mode l)"
  moreover have "length (persistence_text K m) < 20" for m by (simp add: persistence_text_def)
  ultimately show ?thesis
    by (simp add: Set_backlight wanted_def backlight_writes_def remember_def node_names)
qed (auto simp: wanted_def remember_def colour_writes_def start_writes_def final_text_other node_names)

lemma persistence_follows:
  "old = persistence_text K (g_last_backlight_mode l) \<Longrightarrow> list_all node_ok (emitted (serve K E rs) l) \<Longrightarrow>
   node_contents PERSISTENCE_FILE old (emitted (serve K E rs) l) =
     persistence_text K (g_last_backlight_mode (snd (run_state (serve K E rs) l)))"
proof (induction rs arbitrary: l old)
  case Nil
  then show ?case by (simp add: emitted_def)
next
  case (Cons r rs)
  obtain t where run: "run_state (request K E r) l = ((), (remember K (fst r) (snd r) l)\<lparr>hist := hist l @ t\<rparr>)"
    and t: "emitted (request K E r) l = t"
    and new: "\<And>p old. list_all node_ok t \<Longrightarrow> node_contents p old t = final_text p old (wanted K l (fst r) (snd r))"
    by (rule request_effect [where K = K and E = E and r = r and l = l]) blast
  let ?l = "(remember K (fst r) (snd r) l)\<lparr>hist := hist l @ t\<rparr>"
  have ok: "list_all node_ok t" "list_all node_ok (emitted (serve K E rs) ?l)"
    using Cons.prems(2) unfolding serve_emitted by (simp_all add: t run)
  have "node_contents PERSISTENCE_FILE old t = persistence_text K (g_last_backlight_mode ?l)"
    using persistence_after [OF Cons.prems(1)] new [OF ok(1)] by simp
  from Cons.IH [OF this ok(2)] show ?case
    unfolding serve_emitted by (simp add: t run)
qed

text \<open>
  The display follows the backlight requests: as long as no call fails, after any sequence of
  requests of any kind the persistence node last received \<open>1\<close> if the last backlight mode was low
  persistence and \<open>0\<close> otherwise, although it is written only on a change.
\<close>

theorem persistence_follows_mode:
  assumes "Brightness_user K \<noteq> Brightness_low_persistence K"
    and "list_all node_ok (emitted (serve K E rs) (new_lights K))"
  shows "node_contents PERSISTENCE_FILE (''0'' @ [LF]) (emitted (serve K E rs) (new_lights K)) =
    persistence_text K (g_last_backlight_mode (remembered K rs (new_lights K)))"
proof -
  have "''0'' @ [LF] = persistence_text K (g_last_backlight_mode (new_lights K))"
    using assms(1) by (simp add: persistence_text_def new_lights_def)
  from persistence_follows [OF this assms(2)] serve_state [where K = K and E = E and rs = rs and l = "new_lights K"] show ?thesis by auto
qed

section \<open>The notification light\<close>

text \<open>The state of the last notification request of a sequence.\<close>

fun last_notification :: "light_state \<Rightarrow> (light_fun \<times> light_state) list \<Rightarrow> light_state" where
  "last_notification n [] = n"
| "last_notification n ((f, st) # rs) = last_notification (if f = Set_notifications then st else n) rs"

definition led_text :: "string \<Rightarrow> int \<Rightarrow> light_state \<Rightarrow> string" where
  "led_text p ratio st = (if p = RED_LED_FILE then channel_text ratio (drop_bit 16 (color st) AND 0xFF)
     else if p = GREEN_LED_FILE then channel_text ratio (drop_bit 8 (color st) AND 0xFF)
     else channel_text ratio (color st AND 0xFF))"

definition led_nodes :: "string list" where
  "led_nodes = [RED_LED_FILE, GREEN_LED_FILE, BLUE_LED_FILE]"

lemma led_after:
  assumes "\<not> is_lit (g_battery l)" and p: "p \<in> set led_nodes"
  shows "final_text p old (wanted K l f st) =
    (if f = Set_backlight then old else led_text p (rgb_brightness_ratio l) (g_notification (remember K f st l)))"
proof (cases "f = Set_backlight")
  case True
  from p have "p \<notin> fst ` set (backlight_writes K (g_last_backlight_mode l) st)"
    by (auto simp: led_nodes_def backlight_writes_def node_names)
  with True show ?thesis by (simp add: wanted_def final_text_other)
next
  case False
  have "shown (remember K f st l) = g_notification (remember K f st l)"
    using assms(1) by (auto simp: shown_def remember_def split: light_fun.split)
  with False p channel_text_length show ?thesis
    by (auto simp: wanted_def final_text_append colour_writes_def start_writes_def led_nodes_def led_text_def node_names)
qed

lemma leds_follow:
  assumes "\<not> is_lit (g_battery l)" and "list_all node_ok (emitted (serve K E rs) l)" and "p \<in> set led_nodes"
    and "\<not> list_all (\<lambda>r. fst r = Set_backlight) rs \<or> old = led_text p (rgb_brightness_ratio l) (g_notification l)"
  shows "node_contents p old (emitted (serve K E rs) l) =
    led_text p (rgb_brightness_ratio l) (last_notification (g_notification l) rs)"
  using assms
proof (induction rs arbitrary: l old)
  case Nil
  then show ?case by (simp add: emitted_def)
next
  case (Cons r rs)
  obtain f st where r: "r = (f, st)" by (cases r)
  obtain t where run: "run_state (request K E (f, st)) l = ((), (remember K f st l)\<lparr>hist := hist l @ t\<rparr>)"
    and t: "emitted (request K E (f, st)) l = t"
    and new: "\<And>p old. list_all node_ok t \<Longrightarrow> node_contents p old t = final_text p old (wanted K l f st)"
    by (rule request_effect [where K = K and E = E and r = "(f, st)" and l = l]) auto
  let ?l = "(remember K f st l)\<lparr>hist := hist l @ t\<rparr>"
  have ok: "list_all node_ok t" "list_all node_ok (emitted (serve K E rs) ?l)"
    using Cons.prems(2) unfolding serve_emitted r by (simp_all add: t run)
  have same: "g_battery ?l = g_battery l" "rgb_brightness_ratio ?l = rgb_brightness_ratio l"
    "g_notification ?l = (if f = Set_notifications then st else g_notification l)"
    by (simp_all add: remember_def split: light_fun.split)
  let ?new = "if f = Set_backlight then old else led_text p (rgb_brightness_ratio l) (g_notification ?l)"
  have step: "node_contents p old t = ?new"
    using new [OF ok(1)] led_after [OF Cons.prems(1,3)] by (simp add: r)
  have "\<not> list_all (\<lambda>r. fst r = Set_backlight) rs \<or> ?new = led_text p (rgb_brightness_ratio ?l) (g_notification ?l)"
    using Cons.prems(4) by (auto simp: same r)
  from Cons.IH [OF _ ok(2) Cons.prems(3) this] Cons.prems(1) show ?case
    unfolding serve_emitted r by (simp add: t run step same)
qed

text \<open>
  C33. The notification light shows the last notification: as long as no call fails, after any sequence
  of requests with at least one for the notification or the attention light, each of the three colours
  was last set to the scaled channel of the last notification request, whatever the attention requests
  asked for, and the battery light never shows.
\<close>

theorem leds_show_notification:
  assumes "g_battery l = zero_state" and "list_all node_ok (emitted (serve K E rs) l)" and "p \<in> set led_nodes"
    and "\<not> list_all (\<lambda>r. fst r = Set_backlight) rs"
  shows "node_contents p old (emitted (serve K E rs) l) =
    led_text p (rgb_brightness_ratio l) (last_notification (g_notification l) rs)"
proof -
  have "\<not> is_lit (g_battery l)" by (simp add: assms(1) is_lit_def zero_state_def)
  from leds_follow [OF this assms(2,3)] assms(4) show ?thesis by simp
qed

section \<open>Opening\<close>

definition opens :: "light_consts \<Rightarrow> light_call env \<Rightarrow> string \<Rightarrow> unit light_op" where
  "opens K E name = do { _ \<leftarrow> open_lights K E name; ret () }"

abbreviation color_reads :: "light_call history \<Rightarrow> nat" where
  "color_reads t \<equiv> length (filter (\<lambda>e. fst e = Get_color) t)"

text \<open>Before the first device is open nothing has been read; afterwards the colour was read once.\<close>

definition opened_ok :: "lights \<Rightarrow> bool" where
  "opened_ok l \<longleftrightarrow> color_reads (hist l) = (if g_init l then 1 else 0) \<and> g_battery l = zero_state \<and>
     (g_init l \<longrightarrow> rgb_brightness_ratio l \<in> {15, 20, 25})"

lemma open_step:
  assumes "opened_ok l"
  shows "opened_ok (snd (run_state (opens K E name) l)) \<and>
    g_init (snd (run_state (opens K E name) l)) = (g_init l \<or> light_of_name K name \<noteq> None)"
  using assms
  by (auto simp: opens_def open_lights_def init_globals_def run_calls opened_ok_def ratio_of_color_def split: option.split)

lemma opens_run:
  "opened_ok l \<Longrightarrow> opened_ok (snd (run_state (for_each names (opens K E)) l)) \<and>
    g_init (snd (run_state (for_each names (opens K E)) l)) = (g_init l \<or> (\<exists>n\<in>set names. light_of_name K n \<noteq> None))"
proof (induction names arbitrary: l)
  case (Cons n names)
  from Cons.IH [of "snd (run_state (opens K E n) l)"] open_step [OF Cons.prems, of K E n] show ?case
    by (simp add: split_beta disj_assoc)
qed simp

lemma scaled_range:
  assumes "0 \<le> ratio" "ratio \<le> 25"
  shows "\<exists>v. 0 \<le> v \<and> v \<le> ratio \<and> channel_text ratio (drop_bit sh c AND 0xFF) = print_int v @ [LF]"
proof -
  let ?w = "drop_bit sh c AND (0xFF :: 32 word)"
  have w: "0 \<le> uint ?w" "uint ?w \<le> 255" using channel_range [of sh c] by (simp_all add: channel_def)
  have "uint (?w * of_int ratio) = uint ?w * ratio"
  proof -
    have "uint ?w * ratio \<le> 255 * 25" using w assms by (intro mult_mono) auto
    moreover have "uint (of_int ratio :: 32 word) = ratio" using assms by (simp add: uint_word_of_int)
    ultimately show ?thesis using w assms by (simp add: uint_word_ariths)
  qed
  then have u: "uint (?w * of_int ratio div 255) = uint ?w * ratio div 255" by (simp add: uint_div_distrib)
  have "uint ?w * ratio \<le> 255 * ratio" using w assms by (intro mult_right_mono) auto
  then have hi: "uint ?w * ratio div 255 \<le> ratio" by linarith
  have "0 \<le> uint ?w * ratio" using w assms by (intro mult_nonneg_nonneg)
  then have lo: "0 \<le> uint ?w * ratio div 255" by linarith
  have "sint (?w * of_int ratio div 255) = uint ?w * ratio div 255"
    using u lo hi assms by (simp add: sint_uint signed_take_bit_int_eq_self)
  with lo hi show ?thesis by (auto simp: channel_text_def scaled_def)
qed

lemma wanted_led:
  "(p, x) \<in> set (wanted K l f st) \<Longrightarrow> p \<in> set led_nodes \<Longrightarrow>
     \<exists>sh\<in>{16, 8, 0}. x = channel_text (rgb_brightness_ratio l) (drop_bit sh (color (shown (remember K f st l))) AND 0xFF)"
  by (auto simp: wanted_def led_nodes_def backlight_writes_def colour_writes_def start_writes_def node_names
      split: if_splits)

lemma serve_led_writes:
  "(Write_node p fd x, a) \<in> set (emitted (serve K E rs) l) \<Longrightarrow> p \<in> set led_nodes \<Longrightarrow>
     \<exists>sh c. x = channel_text (rgb_brightness_ratio l) (drop_bit sh c AND 0xFF)"
proof (induction rs arbitrary: l)
  case Nil
  then show ?case by (simp add: emitted_def)
next
  case (Cons r rs)
  obtain f st where r: "r = (f, st)" by (cases r)
  obtain t where run: "run_state (request K E (f, st)) l = ((), (remember K f st l)\<lparr>hist := hist l @ t\<rparr>)"
    and t: "emitted (request K E (f, st)) l = t"
    and own: "\<And>p fd x a. (Write_node p fd x, a) \<in> set t \<Longrightarrow> (p, x) \<in> set (wanted K l f st)"
    by (rule request_effect [where K = K and E = E and r = "(f, st)" and l = l]) auto
  have ratio: "rgb_brightness_ratio ((remember K f st l)\<lparr>hist := hist l @ t\<rparr>) = rgb_brightness_ratio l"
    by (simp add: remember_def split: light_fun.split)
  from Cons.prems(1) consider "(Write_node p fd x, a) \<in> set t"
    | "(Write_node p fd x, a) \<in> set (emitted (serve K E rs) ((remember K f st l)\<lparr>hist := hist l @ t\<rparr>))"
    unfolding serve_emitted r by (auto simp: t run)
  then show ?case
  proof cases
    case 1
    from wanted_led [OF own [OF 1] Cons.prems(2)] show ?thesis by blast
  next
    case 2
    from Cons.IH [OF 2 Cons.prems(2)] show ?thesis by (simp only: ratio)
  qed
qed

text \<open>
  C34. However many devices are opened, the colour of the device is read once, with the first, and
  decides the scale for good: every brightness written to a colour of the notification light afterwards,
  by any requests, is a number between 0 and 25.
\<close>

theorem leds_dimmed:
  assumes "\<exists>n\<in>set names. light_of_name K n \<noteq> None"
  shows "let l = snd (run_state (for_each names (opens K E)) (new_lights K)) in
    color_reads (hist l) = 1 \<and>
    (\<forall>(c, a) \<in> set (emitted (serve K E rs) l). case c of
       Write_node p fd x \<Rightarrow> if p \<in> set led_nodes then \<exists>v. 0 \<le> v \<and> v \<le> 25 \<and> x = print_int v @ [LF] else True
     | _ \<Rightarrow> True)"
proof -
  let ?l = "snd (run_state (for_each names (opens K E)) (new_lights K))"
  have "opened_ok (new_lights K)" by (simp add: opened_ok_def new_lights_def)
  from opens_run [OF this] assms have ok: "opened_ok ?l" and init: "g_init ?l" by auto
  then have ratio: "0 \<le> rgb_brightness_ratio ?l" "rgb_brightness_ratio ?l \<le> 25" by (auto simp: opened_ok_def)
  have "\<exists>v. 0 \<le> v \<and> v \<le> 25 \<and> x = print_int v @ [LF]"
    if w: "(Write_node p fd x, a) \<in> set (emitted (serve K E rs) ?l)" "p \<in> set led_nodes" for p fd x a
  proof -
    from serve_led_writes [OF w] obtain sh c where "x = channel_text (rgb_brightness_ratio ?l) (drop_bit sh c AND 0xFF)"
      by blast
    with scaled_range [OF ratio, of sh c] ratio(2) show ?thesis by (metis order_trans)
  qed
  then show ?thesis using ok init by (auto simp: Let_def opened_ok_def split: light_call.split)
qed

section \<open>Instances\<close>

text \<open>A kernel that accepts everything, and numbers for \<open>hardware/lights.h\<close>.\<close>

definition light_env :: "string option \<Rightarrow> light_call env" where
  "light_env c = \<lparr>e_num = (\<lambda>_ _. 3), e_flag = (\<lambda>_ _. True), e_text = (\<lambda>_ _. c), e_entries = (\<lambda>_ _. None)\<rparr>"

definition hw_lights :: light_consts where
  "hw_lights = \<lparr>Brightness_user = 0, Brightness_low_persistence = 2, Flash_none = 0, Flash_timed = 1, Flash_hardware = 2,
     Id_backlight = ''backlight'', Id_notifications = ''notifications'', Id_attention = ''attention''\<rparr>"

lemma light_env_write: "emits node_ok (write_text_node (light_env c) p x)"
  by (rule emitsI) (auto simp: write_text_node_def light_env_def run_calls)

lemma light_env_serves: "emits node_ok (serve K (light_env c) rs)"
  unfolding request_def set_light_def set_light_backlight_def set_light_notifications_def set_light_attention_def
    handle_speaker_battery_locked_def set_speaker_light_locked_def start_lights_def write_int_def write_double_int_def Let_def
  by (auto intro!: emits_intros light_env_write split: light_fun.split)

theorem persistence_follows_mode_witness:
  "node_contents PERSISTENCE_FILE (''0'' @ [LF])
     (emitted (serve hw_lights (light_env None) [(Set_backlight, zero_state\<lparr>brightnessMode := 2\<rparr>)]) (new_lights hw_lights)) =
   ''1'' @ [LF]"
proof -
  have "Brightness_user hw_lights \<noteq> Brightness_low_persistence hw_lights" by (simp add: hw_lights_def)
  moreover have "list_all node_ok
     (emitted (serve hw_lights (light_env None) [(Set_backlight, zero_state\<lparr>brightnessMode := 2\<rparr>)]) (new_lights hw_lights))"
    by (rule emits_all [OF light_env_serves])
  ultimately show ?thesis
    by (subst persistence_follows_mode)
      (simp_all add: remember_def persistence_text_def hw_lights_def new_lights_def zero_state_def)
qed

theorem leds_show_notification_witness:
  "node_contents RED_LED_FILE []
     (emitted (serve hw_lights (light_env None) [(Set_notifications, zero_state\<lparr>color := 0xFF0000\<rparr>)]) (new_lights hw_lights)) =
   channel_text 255 255"
proof -
  have "list_all node_ok
     (emitted (serve hw_lights (light_env None) [(Set_notifications, zero_state\<lparr>color := 0xFF0000\<rparr>)]) (new_lights hw_lights))"
    by (rule emits_all [OF light_env_serves])
  from leds_show_notification [OF _ this, of RED_LED_FILE "[]"]
  have "node_contents RED_LED_FILE []
     (emitted (serve hw_lights (light_env None) [(Set_notifications, zero_state\<lparr>color := 0xFF0000\<rparr>)]) (new_lights hw_lights)) =
     led_text RED_LED_FILE 255 (zero_state\<lparr>color := 0xFF0000\<rparr>)"
    by (simp add: new_lights_def led_nodes_def del: for_each.simps)
  then show ?thesis by (simp add: led_text_def del: for_each.simps)
qed

theorem leds_dimmed_witness:
  "color_reads (hist (snd (run_state (for_each [''attention'', ''none'', ''backlight''] (opens hw_lights (light_env (Some ''BLU00''))))
     (new_lights hw_lights)))) = 1"
proof -
  have "\<exists>n\<in>set [''attention'', ''none'', ''backlight'']. light_of_name hw_lights n \<noteq> None"
    by (simp add: light_of_name_def hw_lights_def)
  from leds_dimmed [OF this] show ?thesis unfolding Let_def by blast
qed

end
