(* ===== verification/LightDevices.thy ===== *)
theory LightDevices
  imports LightRequests
begin

text \<open>
  The devices that \<open>liblight/lights.c\<close> hands out: \<open>open_lights\<close> allocates one, the client calls its
  \<open>set_light\<close> and its \<open>close\<close> through the pointer, \<open>close_lights\<close> frees it.  The table holds the devices
  that are allocated, by their addresses, with the method stored in each; the addresses come from
  \<open>malloc\<close> and are a parameter.  \<open>None\<close> is a call through a pointer that is not a device any more.
\<close>

section \<open>The module\<close>

text \<open>\<open>HAL_MODULE_INFO_SYM\<close>, by the strings and numbers that the source writes itself.\<close>

record hal_module =
  version_major :: int
  version_minor :: int
  hal_name :: string
  author :: string

definition lights_module :: hal_module where
  "lights_module = \<lparr>version_major = 1, version_minor = 0, hal_name = ''lights Module'', author = ''Google, Inc.''\<rparr>"

datatype hal_op =
    Open_device string
  | Set_light nat light_state
  | Close_device nat

type_synonym devices = "nat \<rightharpoonup> light_fun"

fun hal_step ::
  "light_consts \<Rightarrow> light_call env \<Rightarrow> (devices \<Rightarrow> nat) \<Rightarrow> hal_op \<Rightarrow> lights \<times> devices \<Rightarrow> (lights \<times> devices) option" where
  "hal_step K E alloc (Open_device name) (l, D) =
     (case run_state (open_lights K E name) l of
        ((_, None), l) \<Rightarrow> Some (l, D)
      | ((_, Some f), l) \<Rightarrow> Some (l, D(alloc D \<mapsto> f)))"
| "hal_step K E alloc (Set_light d st) (l, D) =
     (case D d of None \<Rightarrow> None | Some f \<Rightarrow> Some (snd (run_state (set_light K E f True st) l), D))"
| "hal_step K E alloc (Close_device d) (l, D) =
     (case D d of None \<Rightarrow> None | Some _ \<Rightarrow> Some (snd (run_state (close_lights True) l), D(d := None)))"

fun hal_run ::
  "light_consts \<Rightarrow> light_call env \<Rightarrow> (devices \<Rightarrow> nat) \<Rightarrow> hal_op list \<Rightarrow> lights \<times> devices \<Rightarrow>
     (lights \<times> devices) option" where
  "hal_run K E alloc [] s = Some s"
| "hal_run K E alloc (r # rs) s = Option.bind (hal_step K E alloc r s) (hal_run K E alloc rs)"

section \<open>What is allocated\<close>

definition heap_call :: "light_call \<times> answer \<Rightarrow> bool" where
  "heap_call e \<longleftrightarrow> e = (Malloc, Flag True) \<or> fst e = Free_device"

fun heap_change :: "light_call \<times> answer \<Rightarrow> int" where
  "heap_change (Malloc, Flag ok) = (if ok then 1 else 0)"
| "heap_change (Free_device, a) = -1"
| "heap_change e = 0"

definition allocated :: "light_call history \<Rightarrow> int" where
  "allocated t = sum_list (map heap_change t)"

lemma allocated_simps [simp]:
  "allocated [] = 0" "allocated (t @ u) = allocated t + allocated u" "allocated (e # t) = heap_change e + allocated t"
  by (simp_all add: allocated_def)

lemma no_heap_call: "list_all (\<lambda>e. \<not> heap_call e) t \<Longrightarrow> allocated t = 0"
proof (induction t)
  case (Cons e t)
  then show ?case by (cases e rule: heap_change.cases) (auto simp: heap_call_def)
qed simp

lemma lock_quiet [simp]: "\<not> heap_call (Lock_lights, a)" "\<not> heap_call (Unlock_lights, a)"
  by (simp_all add: heap_call_def)

lemma node_quiet: "emits (\<lambda>e. \<not> heap_call e) (write_text_node E p x)"
  unfolding write_text_node_def by (intro emits_intros) (simp_all add: heap_call_def)

lemma set_light_quiet: "emits (\<lambda>e. \<not> heap_call e) (set_light K E f dev st)"
proof -
  have speaker: "emits (\<lambda>e. \<not> heap_call e) (handle_speaker_battery_locked K E dev)"
    unfolding handle_speaker_battery_locked_def set_speaker_light_locked_def start_lights_def write_int_def
      write_double_int_def Let_def
    by (intro emits_intros node_quiet)
  show ?thesis
    unfolding set_light_def set_light_backlight_def set_light_notifications_def set_light_attention_def Let_def
      write_int_def
    by (cases f) (auto intro!: emits_intros node_quiet speaker)
qed

lemma set_light_allocated: "allocated (hist (snd (run_state (set_light K E f dev st) l))) = allocated (hist l)"
  using emits_hist [OF set_light_quiet, of K E f dev st l] no_heap_call [OF emits_all [OF set_light_quiet]] by simp

lemma open_allocated:
  "run_state (open_lights K E name) l = ((rc, f), l') \<Longrightarrow>
     allocated (hist l') = allocated (hist l) + (if f = None then 0 else 1) \<and> (f \<noteq> None \<longrightarrow> f = light_of_name K name)"
  by (auto simp: open_lights_def init_globals_def run_calls split: option.splits if_splits)

text \<open>The devices that a client has opened and not closed, by the names it opened them with.\<close>

fun live :: "light_consts \<Rightarrow> lights \<times> devices \<Rightarrow> bool" where
  "live K (l, D) \<longleftrightarrow> finite (dom D) \<and> allocated (hist l) = int (card (dom D)) \<and>
     ran D \<subseteq> {f. \<exists>name. light_of_name K name = Some f}"

lemma live_step:
  assumes fresh: "\<And>D. finite (dom D) \<Longrightarrow> alloc D \<notin> dom D" and live: "live K s" and step: "hal_step K E alloc r s = Some s'"
  shows "live K s'"
proof (cases s)
  case (Pair l D)
  show ?thesis
  proof (cases r)
    case (Open_device name)
    obtain rc f l' where run: "run_state (open_lights K E name) l = ((rc, f), l')" by (metis prod.collapse)
    note o = open_allocated [OF run]
    show ?thesis
    proof (cases f)
      case None
      with o run live step show ?thesis by (auto simp: Pair Open_device)
    next
      case (Some g)
      have "alloc D \<notin> dom D" using fresh live Pair by simp
      then have "ran (D(alloc D \<mapsto> g)) = insert g (ran D)" and "card (dom (D(alloc D \<mapsto> g))) = Suc (card (dom D))"
        using live Pair by (auto simp: domIff ran_map_upd)
      moreover have "s' = (l', D(alloc D \<mapsto> g))" using step run Some by (simp add: Pair Open_device)
      ultimately show ?thesis using o live Some by (auto simp: Pair)
    qed
  next
    case (Set_light d st)
    with live step show ?thesis by (auto simp: Pair set_light_allocated split: option.splits)
  next
    case (Close_device d)
    with live step obtain f where d: "D d = Some f" and s': "s' = (snd (run_state (close_lights True) l), D(d := None))"
      by (auto simp: Pair split: option.splits)
    have "card (dom D) = Suc (card (dom D - {d}))"
      using live d Pair by (intro card.remove) auto
    moreover have "ran (D(d := None)) \<subseteq> ran D" by (auto simp: ran_def split: if_splits)
    ultimately show ?thesis using live by (auto simp: s' Pair close_lights_def run_calls)
  qed
qed

text \<open>
  Whatever a client does with devices that it has opened and not closed, every device is freed exactly
  once, when it is closed: what is allocated is what is open, and each device has the method of a name.
\<close>

theorem devices_freed_once:
  assumes "\<And>D. finite (dom D) \<Longrightarrow> alloc D \<notin> dom D"
    and "hal_run K E alloc rs (new_lights K, Map.empty) = Some (l, D)"
  shows "allocated (hist l) = int (card (dom D)) \<and> ran D \<subseteq> {f. \<exists>name. light_of_name K name = Some f}"
proof -
  have "hal_run K E alloc rs s = Some s' \<Longrightarrow> live K s \<Longrightarrow> live K s'" for s s'
  proof (induction rs arbitrary: s)
    case (Cons r rs)
    then obtain s1 where "hal_step K E alloc r s = Some s1" "hal_run K E alloc rs s1 = Some s'"
      by (auto simp: bind_eq_Some_conv)
    with Cons live_step [OF assms(1)] show ?case by blast
  qed simp
  from this [OF assms(2)] show ?thesis by (simp add: new_lights_def)
qed

end
