(* ===== verification/LightBattery.thy ===== *)
theory LightBattery
  imports LightRequests
begin

text \<open>
  The battery light of \<open>liblight/lights.c\<close>, which the source compiles only with \<open>LIGHTS_SUPPORT_BATTERY\<close>
  set: \<open>set_light_battery\<close>, and how the battery and the notifications share the three colours.
\<close>

definition set_light_battery :: "light_consts \<Rightarrow> light_call env \<Rightarrow> bool \<Rightarrow> light_state \<Rightarrow> int light_op" where
  "set_light_battery K E dev st = do {
     call_void Lock_lights;
     modify (\<lambda>l. l\<lparr>g_battery := st\<rparr>);
     handle_speaker_battery_locked K E dev;
     call_void Unlock_lights;
     ret 0
   }"

lemma battery_run:
  obtains t ws where
    "run_state (set_light_battery K E dev st) l =
       (0, l\<lparr>g_battery := st, hist := hist l @ (Lock_lights, Void) # t @ [(Unlock_lights, Void)]\<rparr>)"
    and "script ws t"
    and "dev \<Longrightarrow> list_all node_ok t \<Longrightarrow>
      ws = colour_writes K (rgb_brightness_ratio l) (shown (l\<lparr>g_battery := st\<rparr>)) @ start_writes"
proof -
  let ?m = "l\<lparr>g_battery := st, hist := hist l @ [(Lock_lights, Void)]\<rparr>"
  have swap: "l\<lparr>hist := h, g_battery := st\<rparr> = l\<lparr>g_battery := st, hist := h\<rparr>" for h by simp
  obtain t ws where "run_state (handle_speaker_battery_locked K E dev) ?m = ((), ?m\<lparr>hist := hist ?m @ t\<rparr>)"
    "script ws t" "if \<not> dev then ws = []
       else if list_all node_ok t then ws = colour_writes K (rgb_brightness_ratio ?m) (shown ?m) @ start_writes
       else prefix ws (colour_writes K (rgb_brightness_ratio ?m) (shown ?m) @ start_writes)"
    by (rule handle_run)
  moreover have "shown ?m = shown (l\<lparr>g_battery := st\<rparr>)" by (simp add: shown_def)
  ultimately show thesis
    by (intro that [of t ws]) (simp_all add: set_light_battery_def call_void_def swap)
qed

lemma speaker_text:
  "p \<in> set led_nodes \<Longrightarrow> final_text p old (colour_writes K r x @ start_writes) = led_text p r x"
  using channel_text_length
  by (auto simp: final_text_append colour_writes_def start_writes_def led_nodes_def led_text_def node_names)

text \<open>The battery has precedence: its light shows if it is lit, the last notification otherwise.\<close>

theorem battery_has_precedence:
  assumes "list_all node_ok (emitted (set_light_battery K E True st) l)" and "p \<in> set led_nodes"
  shows "node_contents p old (emitted (set_light_battery K E True st) l) =
    led_text p (rgb_brightness_ratio l) (if is_lit st then st else g_notification l)"
proof -
  obtain t ws where run: "run_state (set_light_battery K E True st) l =
       (0, l\<lparr>g_battery := st, hist := hist l @ (Lock_lights, Void) # t @ [(Unlock_lights, Void)]\<rparr>)"
    and t: "script ws t" and ws: "list_all node_ok t \<Longrightarrow>
      ws = colour_writes K (rgb_brightness_ratio l) (shown (l\<lparr>g_battery := st\<rparr>)) @ start_writes"
    by (rule battery_run [where K = K and E = E and dev = True and st = st and l = l]) blast
  have e: "emitted (set_light_battery K E True st) l = (Lock_lights, Void) # t @ [(Unlock_lights, Void)]"
    by (rule hist_emitted) (simp add: run)
  with assms(1) ws have "ws = colour_writes K (rgb_brightness_ratio l) (if is_lit st then st else g_notification l) @ start_writes"
    and ok: "list_all node_ok t"
    by (simp_all add: shown_def)
  with script_contents [OF t ok, of p old] speaker_text [OF assms(2)] show ?thesis by (simp add: e)
qed

text \<open>A notification does not show while the battery light is lit.\<close>

theorem battery_keeps_light:
  assumes "is_lit (g_battery l)" and "list_all node_ok (emitted (request K E (Set_notifications, st)) l)"
    and "p \<in> set led_nodes"
  shows "node_contents p old (emitted (request K E (Set_notifications, st)) l) =
    led_text p (rgb_brightness_ratio l) (g_battery l)"
proof -
  obtain t where "emitted (request K E (Set_notifications, st)) l = t"
    "\<And>p old. list_all node_ok t \<Longrightarrow> node_contents p old t = final_text p old (wanted K l Set_notifications st)"
    by (rule request_effect [where K = K and E = E and r = "(Set_notifications, st)" and l = l]) auto
  moreover have "wanted K l Set_notifications st = colour_writes K (rgb_brightness_ratio l) (g_battery l) @ start_writes"
    using assms(1) by (simp add: wanted_def shown_def remember_def)
  ultimately show ?thesis using assms(2) speaker_text [OF assms(3)] by simp
qed

end
