(* ===== verification/Folio.thy ===== *)
theory Folio
  imports Wahoo_Base
begin

unbundle bit_operations_syntax

text \<open>
  \<open>folio_daemon/main.cpp\<close>: the daemon that turns the events of the Hall sensor into lid switch events of
  a uinput device.  The numbers of \<open>linux/input.h\<close> are a parameter.  \<open>TEMP_FAILURE_RETRY\<close> is part of the
  call it wraps: the answer is the one that is not \<open>EINTR\<close>.  Of the messages only the warning of the
  retry loop is kept, because its rate is part of what the loop is written for.

  The polling loop runs until a failure, so it is cut after a number of polls and of events per poll;
  a run that was cut ends in \<open>None\<close>.  Everything proved holds for all cuts, so for every prefix of the run.
\<close>

section \<open>Calls\<close>

record input_codes =
  EV_SW :: int
  EV_SYN :: int
  SW_LID :: int
  SYN_REPORT :: int

datatype folio_call =
    Open_uinput
  | Set_evbit int int             \<comment> \<open>descriptor, event type\<close>
  | Set_swbit int int
  | Write_device int              \<comment> \<open>the \<open>uinput_user_dev\<close>\<close>
  | Dev_create int
  | Get_manager                   \<comment> \<open>a pointer: whether it is not null\<close>
  | Looper_for_thread
  | Looper_prepare
  | Create_queue
  | Clock
  | Default_sensor int
  | Min_delay
  | Sleep int
  | Warn
  | Register_sensor int int
  | Poll_all
  | Get_events
  | Data_positive                 \<comment> \<open>\<open>sensorEvent.data[0] > 0.0f\<close>\<close>
  | Write_event int int int int   \<comment> \<open>descriptor, type, code, value\<close>
  | Destroy_queue
  | Close_uinput int

type_synonym folio = "folio_call world"

type_synonym 'a folio_op = "(folio, 'a) state"

definition SENSOR_TYPE :: int where "SENSOR_TYPE = 33171016"
definition RETRY_LIMIT :: int where "RETRY_LIMIT = 120"
definition RETRY_PERIOD :: int where "RETRY_PERIOD = 30"
definition WARN_PERIOD :: int where "WARN_PERIOD = 300"

section \<open>The daemon\<close>

text \<open>The uinput device; \<open>False\<close> is a \<open>goto out\<close>.\<close>

definition create_device :: "input_codes \<Rightarrow> folio_call env \<Rightarrow> int \<Rightarrow> bool folio_op" where
  "create_device C E fd = do {
     a \<leftarrow> call_num E (Set_evbit fd (EV_SW C));
     b \<leftarrow> call_num E (Set_evbit fd (EV_SYN C));
     c \<leftarrow> call_num E (Set_swbit fd (SW_LID C));
     if a OR b OR c \<noteq> 0 then ret False
     else do {
       err \<leftarrow> call_num E (Write_device fd);
       if err < 0 then ret False
       else do {
         err \<leftarrow> call_num E (Dev_create fd);
         ret (\<not> err < 0)
       }
     }
   }"

text \<open>The retry loop: \<open>Some\<close> of the minimum delay, or \<open>None\<close> when the retries are exhausted.\<close>

function find_sensor :: "folio_call env \<Rightarrow> int \<Rightarrow> int \<Rightarrow> int option folio_op" where
  "find_sensor E attemptCount lastWarn = do {
     now \<leftarrow> call_num E Clock;
     found \<leftarrow> call_flag E (Default_sensor SENSOR_TYPE);
     if found then do { d \<leftarrow> call_num E Min_delay; ret (Some d) }
     else if attemptCount + 1 \<ge> RETRY_LIMIT then ret None
     else do {
       lastWarn \<leftarrow> (if now > lastWarn + WARN_PERIOD then do { call_void Warn; ret now } else ret lastWarn);
       call_void (Sleep RETRY_PERIOD);
       find_sensor E (attemptCount + 1) lastWarn
     }
   }"
  by pat_completeness auto
termination
  by (relation "measure (\<lambda>(E, attemptCount, lastWarn). nat (RETRY_LIMIT - attemptCount))") auto

declare find_sensor.simps [simp del]

text \<open>
  \<open>while (getEvents(...) > 0)\<close>: \<open>Some (Inr eventCount)\<close> when the queue is drained, \<open>Some (Inl ())\<close> for
  the \<open>goto out\<close> of a failed write.
\<close>

fun drain :: "input_codes \<Rightarrow> folio_call env \<Rightarrow> int \<Rightarrow> nat \<Rightarrow> int \<Rightarrow> (unit + int) option folio_op" where
  "drain C E fd 0 eventCount = ret None"
| "drain C E fd (Suc k) eventCount = do {
     n \<leftarrow> call_num E Get_events;
     if \<not> n > 0 then ret (Some (Inr eventCount))
     else do {
       positive \<leftarrow> call_flag E Data_positive;
       let isClosed = (if positive then 1 else 0);
       err \<leftarrow> call_num E (Write_event fd (EV_SW C) (SW_LID C) isClosed);
       if err < 0 then ret (Some (Inl ()))
       else do {
         err \<leftarrow> call_num E (Write_event fd (EV_SYN C) (SYN_REPORT C) 0);
         if err < 0 then ret (Some (Inl ()))
         else drain C E fd k (eventCount + 1)
       }
     }
   }"

text \<open>The polling loop; \<open>None\<close> if it was cut.\<close>

fun polling :: "input_codes \<Rightarrow> folio_call env \<Rightarrow> int \<Rightarrow> nat \<Rightarrow> nat \<Rightarrow> unit option folio_op" where
  "polling C E fd k 0 = ret None"
| "polling C E fd k (Suc n) = do {
     r \<leftarrow> call_num E Poll_all;
     if r \<noteq> 0 then ret (Some ())
     else do {
       d \<leftarrow> drain C E fd k 0;
       case d of
         None \<Rightarrow> ret None
       | Some (Inl _) \<Rightarrow> ret (Some ())
       | Some (Inr eventCount) \<Rightarrow> if eventCount = 0 then ret (Some ()) else polling C E fd k n
     }
   }"

text \<open>The label \<open>out\<close>.\<close>

definition clean_up :: "int \<Rightarrow> bool \<Rightarrow> bool \<Rightarrow> int option folio_op" where
  "clean_up uinputFd sensorManager eventQueue = do {
     (if sensorManager \<and> eventQueue then call_void Destroy_queue else ret ());
     (if uinputFd \<ge> 0 then call_void (Close_uinput uinputFd) else ret ());
     ret (Some 1)
   }"

text \<open>The rest of \<open>main\<close> once the node has been opened, with or without success.\<close>

definition folio_body :: "input_codes \<Rightarrow> folio_call env \<Rightarrow> nat \<Rightarrow> nat \<Rightarrow> int \<Rightarrow> int option folio_op" where
  "folio_body C E k n uinputFd =
     (if uinputFd < 0 then clean_up uinputFd False False
      else do {
        created \<leftarrow> create_device C E uinputFd;
        if \<not> created then clean_up uinputFd False False
        else do {
          sensorManager \<leftarrow> call_flag E Get_manager;
          looper \<leftarrow> call_flag E Looper_for_thread;
          (if \<not> looper then call_void Looper_prepare else ret ());
          eventQueue \<leftarrow> call_flag E Create_queue;
          sensor \<leftarrow> find_sensor E 0 0;
          case sensor of
            None \<Rightarrow> clean_up uinputFd sensorManager eventQueue
          | Some hallMinDelay \<Rightarrow> do {
              err \<leftarrow> call_num E (Register_sensor hallMinDelay 10000);
              if err < 0 then clean_up uinputFd sensorManager eventQueue
              else do {
                left \<leftarrow> polling C E uinputFd k n;
                if left = None then ret None
                else clean_up uinputFd sensorManager eventQueue
              }
            }
        }
      })"

definition folio_main :: "input_codes \<Rightarrow> folio_call env \<Rightarrow> nat \<Rightarrow> nat \<Rightarrow> int option folio_op" where
  "folio_main C E k n = do { uinputFd \<leftarrow> call_num E Open_uinput; folio_body C E k n uinputFd }"

end
