(* ===== verification/FolioRuns.thy ===== *)
theory FolioRuns
  imports Folio
begin

text \<open>
  What the folio daemon does, for every length of its run: how lid events are reported, how long it
  tries to get the sensor, and what it gives back when it leaves.
\<close>

section \<open>Lid events\<close>

fun lid_event :: "folio_call \<times> answer \<Rightarrow> bool" where
  "lid_event (Get_events, Num n) = (n > 0)"
| "lid_event (Data_positive, a) = True"
| "lid_event (Write_event fd ty co v, a) = True"
| "lid_event e = False"

text \<open>
  The specification of the reports: every event received is written as a switch event with its value and
  a synchronisation event, before the next one is fetched; the flag tells that no write has failed, and
  nothing follows a failed one.
\<close>

inductive lid_log :: "input_codes \<Rightarrow> int \<Rightarrow> bool \<Rightarrow> folio_call history \<Rightarrow> bool" for C fd where
  no_events: "lid_log C fd True []"
| reported: "x = (if v then 1 else 0) \<Longrightarrow> 0 < n \<Longrightarrow> 0 \<le> a \<Longrightarrow> 0 \<le> b \<Longrightarrow> lid_log C fd ok t \<Longrightarrow>
    lid_log C fd ok ([(Get_events, Num n), (Data_positive, Flag v),
      (Write_event fd (EV_SW C) (SW_LID C) x, Num a),
      (Write_event fd (EV_SYN C) (SYN_REPORT C) 0, Num b)] @ t)"
| sw_failed: "x = (if v then 1 else 0) \<Longrightarrow> 0 < n \<Longrightarrow> a < 0 \<Longrightarrow>
    lid_log C fd False [(Get_events, Num n), (Data_positive, Flag v),
      (Write_event fd (EV_SW C) (SW_LID C) x, Num a)]"
| syn_failed: "x = (if v then 1 else 0) \<Longrightarrow> 0 < n \<Longrightarrow> 0 \<le> a \<Longrightarrow> b < 0 \<Longrightarrow>
    lid_log C fd False [(Get_events, Num n), (Data_positive, Flag v),
      (Write_event fd (EV_SW C) (SW_LID C) x, Num a),
      (Write_event fd (EV_SYN C) (SYN_REPORT C) 0, Num b)]"

lemma lid_log_append: "lid_log C fd ok t \<Longrightarrow> ok \<Longrightarrow> lid_log C fd ok' u \<Longrightarrow> lid_log C fd ok' (t @ u)"
proof (induction rule: lid_log.induct)
  case (reported x v n a b ok t)
  then show ?case using lid_log.reported [of x v n a b C fd ok' "t @ u"] by simp
qed simp_all

abbreviation logged :: "input_codes \<Rightarrow> int \<Rightarrow> bool \<Rightarrow> folio_call history \<Rightarrow> bool" where
  "logged C fd ok t \<equiv> lid_log C fd ok (filter lid_event t)"

lemma drain_logged: "yields (\<lambda>r t. logged C fd (r \<noteq> Some (Inl ())) t) (drain C E fd k c)"
proof (induction k arbitrary: c)
  case 0
  then show ?case by (auto intro!: yields_return intro: lid_log.no_events)
next
  case (Suc k)
  show ?case
    unfolding drain.simps Let_def
    by (intro yields_steps yields_mono [OF Suc.IH])
      (auto intro: lid_log.no_events lid_log.sw_failed lid_log.syn_failed lid_log.reported [simplified])
qed

lemma polling_logged: "yields (\<lambda>r t. \<exists>ok. logged C fd ok t) (polling C E fd k n)"
proof (induction n)
  case 0
  then show ?case by (auto intro!: yields_return exI [of _ True] lid_log.no_events)
next
  case (Suc n)
  have more: "yields (\<lambda>r u. \<exists>ok. lid_log C fd ok (filter lid_event t @ filter lid_event u)) (polling C E fd k n)"
    if "logged C fd True t" for t
    by (rule yields_mono [OF Suc.IH]) (auto intro: lid_log_append [OF that])
  show ?case
    unfolding polling.simps
    by (intro yields_steps yields_bind [OF drain_logged [where C = C and fd = fd]])
      (auto split: option.split sum.split intro!: yields_return yields_if more intro: lid_log.no_events exI)
qed

text \<open>What is called while the sensor is looked for.\<close>

lemma find_sensor_emits:
  "emits (\<lambda>e. fst e \<in> {Clock, Default_sensor SENSOR_TYPE, Min_delay, Warn, Sleep RETRY_PERIOD}) (find_sensor E a w)"
proof (induction E a w rule: find_sensor.induct)
  case (1 E a w)
  show ?case
    by (subst find_sensor.simps) (intro emits_intros 1; simp)
qed

lemma find_sensor_quiet: "emits (\<lambda>e. \<not> lid_event e) (find_sensor E a w)"
  by (rule emits_mono [OF find_sensor_emits]) auto

lemma create_device_quiet: "emits (\<lambda>e. \<not> lid_event e) (create_device C E fd)"
  unfolding create_device_def by (intro emits_intros) simp_all

lemma clean_up_logged: "yields (\<lambda>r u. R (filter lid_event u)) (clean_up fd m q)" if "R []"
  unfolding clean_up_def
  using that by (intro yields_quiet yields_return emits_intros) simp_all

lemma folio_body_logged: "yields (\<lambda>r t. \<exists>ok. logged C fd ok t) (folio_body C E k n fd)"
proof -
  have clean: "yields (\<lambda>r u. \<exists>ok. logged C fd ok u) (clean_up d m q)" for d m q
    by (rule clean_up_logged) (auto intro!: exI [of _ True] lid_log.no_events)
  have tail: "yields (\<lambda>r u. \<exists>ok. logged C fd ok u)
     (do { left \<leftarrow> polling C E fd k n; if left = None then ret None else clean_up fd m q })" for m q
  proof (rule yields_bind [OF polling_logged])
    fix left t
    assume t: "\<exists>ok. logged C fd ok t"
    then show "yields (\<lambda>r u. \<exists>ok. logged C fd ok (t @ u)) (if left = None then ret None else clean_up fd m q)"
      using clean_up_logged [of "\<lambda>u. \<exists>ok. lid_log C fd ok (filter lid_event t @ u)" fd m q]
      by (auto intro!: yields_return)
  qed
  show ?thesis
    unfolding folio_body_def
    by (intro yields_if clean yields_quiet create_device_quiet find_sensor_quiet emits_intros)
      (auto split: option.split intro!: clean tail yields_quiet emits_intros)
qed

definition after_open :: "folio_call env \<Rightarrow> folio \<Rightarrow> folio" where
  "after_open E s = s\<lparr>hist := hist s @ [(Open_uinput, Num (e_num E (hist s) Open_uinput))]\<rparr>"

lemma folio_main_split:
  "fst (run_state (folio_main C E k n) s) = fst (run_state (folio_body C E k n (e_num E (hist s) Open_uinput)) (after_open E s)) \<and>
    emitted (folio_main C E k n) s = (Open_uinput, Num (e_num E (hist s) Open_uinput)) #
      emitted (folio_body C E k n (e_num E (hist s) Open_uinput)) (after_open E s)"
proof -
  let ?fd = "e_num E (hist s) Open_uinput"
  from yields_emitted [OF folio_body_logged [where C = C and fd = ?fd and E = E and k = k and n = n], where s = "after_open E s"]
  have "hist (snd (run_state (folio_body C E k n ?fd) (after_open E s))) = hist (after_open E s) @ emitted (folio_body C E k n ?fd) (after_open E s)"
    by simp
  then show ?thesis
    by (auto intro!: hist_emitted simp: folio_main_def run_calls after_open_def)
qed

text \<open>
  C36. However long the daemon runs, every event it receives from the sensor is reported on the device it
  opened, closed or open as the sensor says, and synchronised before the next event is fetched; nothing
  else is ever reported, and nothing follows a report that failed.
\<close>

theorem lid_events_reported:
  "\<exists>ok. lid_log C (e_num E (hist s) Open_uinput) ok (filter lid_event (emitted (folio_main C E k n) s))"
  using folio_main_split [of C E k n s]
    yields_emitted [OF folio_body_logged [where C = C and fd = "e_num E (hist s) Open_uinput" and E = E and k = k and n = n],
      where s = "after_open E s"]
  by simp

section \<open>Getting the sensor\<close>

abbreviation lookups :: "folio_call history \<Rightarrow> int" where
  "lookups t \<equiv> int (length (filter (\<lambda>e. fst e = Default_sensor SENSOR_TYPE) t))"

abbreviation sleeps :: "folio_call history \<Rightarrow> int" where
  "sleeps t \<equiv> int (length (filter (\<lambda>e. fst e = Sleep RETRY_PERIOD) t))"

text \<open>The times at which a warning was given: the last answer of the clock before it.\<close>

fun warned :: "int \<Rightarrow> folio_call history \<Rightarrow> int list" where
  "warned now [] = []"
| "warned now ((c, a) # t) = (case c of
     Clock \<Rightarrow> warned (case a of Num n \<Rightarrow> n | _ \<Rightarrow> now) t
   | Warn \<Rightarrow> now # warned now t
   | _ \<Rightarrow> warned now t)"

fun spaced :: "int \<Rightarrow> int list \<Rightarrow> bool" where
  "spaced lo [] = True"
| "spaced lo (w # ws) = (w > lo + WARN_PERIOD \<and> spaced w ws)"

definition sensor_trace :: "int \<Rightarrow> int \<Rightarrow> int option \<Rightarrow> folio_call history \<Rightarrow> bool" where
  "sensor_trace a w r t \<longleftrightarrow> 1 \<le> lookups t \<and> lookups t \<le> RETRY_LIMIT - a \<and> sleeps t = lookups t - 1 \<and>
     (r = None \<longleftrightarrow> (Default_sensor SENSOR_TYPE, Flag True) \<notin> set t) \<and>
     (r = None \<longrightarrow> lookups t = RETRY_LIMIT - a) \<and> (\<forall>now. spaced w (warned now t))"

lemma find_sensor_trace: "a < RETRY_LIMIT \<Longrightarrow> yields (sensor_trace a w) (find_sensor E a w)"
proof (induction E a w rule: find_sensor.induct)
  case (1 E a w)
  have rec: "yields (sensor_trace (a + 1) w') (find_sensor E (a + 1) w')" if "\<not> a + 1 \<ge> RETRY_LIMIT" for w'
    using that by (intro 1(1)) simp_all
  show ?case
    by (subst find_sensor.simps, intro yields_steps)
      (use 1(2) in \<open>auto simp: sensor_trace_def intro!: yields_mono [OF rec]\<close>)
qed


section \<open>Leaving\<close>

fun resource_event :: "folio_call \<times> answer \<Rightarrow> bool" where
  "resource_event (Close_uinput fd, a) = True"
| "resource_event (Destroy_queue, a) = True"
| "resource_event (Get_manager, a) = True"
| "resource_event (Create_queue, a) = True"
| "resource_event e = False"

text \<open>
  What must happen to the descriptor and the event queue: either nothing was created and the descriptor is
  closed, or the queue was asked for and, when the daemon leaves, is destroyed if there is one, and then
  the descriptor is closed.
\<close>

definition released :: "int \<Rightarrow> int option \<Rightarrow> folio_call history \<Rightarrow> bool" where
  "released fd r u \<longleftrightarrow>
     r = Some 1 \<and> u = (if 0 \<le> fd then [(Close_uinput fd, Void)] else []) \<or>
     0 \<le> fd \<and> (\<exists>manager queue. u = [(Get_manager, Flag manager), (Create_queue, Flag queue)] @
       (if r = None then []
        else (if manager \<and> queue then [(Destroy_queue, Void)] else []) @ [(Close_uinput fd, Void)]) \<and> r \<in> {None, Some 1})"

lemma drain_quiet: "emits (\<lambda>e. \<not> resource_event e) (drain C E fd k c)"
  by (induction k arbitrary: c) (auto simp: Let_def intro!: emits_intros)

lemma polling_quiet: "emits (\<lambda>e. \<not> resource_event e) (polling C E fd k n)"
  by (induction n) (auto intro!: emits_intros drain_quiet split: option.split sum.split)

lemma find_sensor_no_resource: "emits (\<lambda>e. \<not> resource_event e) (find_sensor E a w)"
  by (rule emits_mono [OF find_sensor_emits]) auto

lemma create_device_no_resource: "emits (\<lambda>e. \<not> resource_event e) (create_device C E fd)"
  unfolding create_device_def by (intro emits_intros) simp_all

lemma clean_up_yields:
  "yields (\<lambda>r u. r = Some 1 \<and> u = (if m \<and> q then [(Destroy_queue, Void)] else []) @
     (if 0 \<le> fd then [(Close_uinput fd, Void)] else [])) (clean_up fd m q)"
  unfolding clean_up_def by (intro yields_steps) simp_all

lemma folio_body_released: "yields (\<lambda>r t. released fd r (filter resource_event t)) (folio_body C E k n fd)"
proof -
  have early: "yields (\<lambda>r u. released fd r (filter resource_event u)) (clean_up fd False False)"
    by (rule yields_mono [OF clean_up_yields]) (auto simp: released_def)
  have late: "yields (\<lambda>r u. released fd r ([(Get_manager, Flag m), (Create_queue, Flag q)] @ filter resource_event u)) (clean_up fd m q)"
    if "0 \<le> fd" for m q
    by (rule yields_mono [OF clean_up_yields]) (use that in \<open>auto simp: released_def\<close>)
  have rest: "yields (\<lambda>r u. released fd r ([(Get_manager, Flag m), (Create_queue, Flag q)] @ filter resource_event u))
     (do { sensor \<leftarrow> find_sensor E 0 0;
           case sensor of
             None \<Rightarrow> clean_up fd m q
           | Some d \<Rightarrow> do {
               err \<leftarrow> call_num E (Register_sensor d 10000);
               if err < 0 then clean_up fd m q
               else do { left \<leftarrow> polling C E fd k n; if left = None then ret None else clean_up fd m q } } })"
    if fd: "0 \<le> fd" for m q
    by (intro yields_quiet [OF find_sensor_no_resource] yields_case_option late [OF fd] yields_if yields_return
          yields_quiet [OF polling_quiet] yields_quiet [OF emits_call_num])
      (use fd in \<open>simp_all add: released_def\<close>)
  show ?thesis
    unfolding folio_body_def
    by (intro yields_if early yields_quiet [OF create_device_no_resource] yields_steps)
      (use rest in simp_all)
qed

text \<open>
  When the daemon leaves, for whatever reason, it reports failure with 1, has destroyed the event
  queue exactly if it and the manager exist, and then closes the descriptor it opened, once; as long as it
  runs it gives up neither.
\<close>

theorem daemon_releases:
  "released (e_num E (hist s) Open_uinput) (fst (run_state (folio_main C E k n) s))
     (filter resource_event (emitted (folio_main C E k n) s))"
  using folio_main_split [of C E k n s]
    yields_emitted [OF folio_body_released [where C = C and fd = "e_num E (hist s) Open_uinput" and E = E and k = k and n = n],
      where s = "after_open E s"]
  by simp

end
