(* ===== verification/EaselStats.thy ===== *)
theory EaselStats
  imports CText Guarded
begin

text \<open>
  \<open>powerstats/EaselStateResidencyDataProvider.cpp\<close>: the provider of the power statistics of the Easel
  coprocessor.  It keeps no record of time; every query samples the state once and counts.
  The records of the HIDL interface are modelled by the fields the code sets.
\<close>

section \<open>The provider\<close>

datatype easel_call =
    Lock_easel                    \<comment> \<open>\<open>mLock\<close>, taken by the \<open>lock_guard\<close>\<close>
  | Unlock_easel                  \<comment> \<open>its destructor, on every return\<close>
  | Read_easel_state string       \<comment> \<open>opening the \<open>ifstream\<close> and its contents\<close>

record easel = "easel_call world" +
  mPowerEntityId :: "32 word"
  mTotalOnSnapshotCount :: "64 word"
  mTotalNotOnSnapshotCount :: "64 word"

type_synonym 'a easel_op = "(easel, 'a) state"

definition new_easel :: "32 word \<Rightarrow> easel" where
  "new_easel i = \<lparr>hist = [], mPowerEntityId = i, mTotalOnSnapshotCount = 0, mTotalNotOnSnapshotCount = 0\<rparr>"

definition EASEL_SYNTHETIC_SLEEP_ID :: "32 word" where "EASEL_SYNTHETIC_SLEEP_ID = 0"
definition EASEL_OFF :: "64 word" where "EASEL_OFF = 0"
definition EASEL_ON :: "64 word" where "EASEL_ON = 1"
definition EASEL_SUSPENDED :: "64 word" where "EASEL_SUSPENDED = 2"
definition NUM_EASEL_STATES :: "64 word" where "NUM_EASEL_STATES = 3"

definition easel_path :: string where
  "easel_path = ''/sys/devices/virtual/misc/mnh_sm/state''"

record residency =
  powerEntityStateId :: "32 word"
  totalTimeInStateMs :: "64 word"
  totalStateEntryCount :: "64 word"
  lastEntryTimestampMs :: "64 word"

record residency_result =
  powerEntityId :: "32 word"
  stateResidencyData :: "residency list"

record state_space =
  spaceEntityId :: "32 word"
  states :: "(32 word \<times> string) list"

text \<open>\<open>std::unordered_map::emplace\<close>: an entry that exists is kept.\<close>

definition emplace :: "'k \<Rightarrow> 'v \<Rightarrow> ('k \<Rightarrow> 'v option) \<Rightarrow> 'k \<Rightarrow> 'v option" where
  "emplace k v m = (if m k = None then m(k \<mapsto> v) else m)"

text \<open>\<open>inFile >> currentState\<close> and the test of its range; \<open>None\<close> is the failed parse.\<close>

definition parse_state :: "string \<Rightarrow> 64 word option" where
  "parse_state txt = (case extract_u64 0 (Some txt) of
     (v, None) \<Rightarrow> None
   | (v, Some _) \<Rightarrow> if v \<ge> NUM_EASEL_STATES then None else Some v)"

definition count_state :: "64 word \<Rightarrow> easel \<Rightarrow> easel" where
  "count_state currentState e =
     (if currentState = EASEL_OFF \<or> currentState = EASEL_SUSPENDED
      then e\<lparr>mTotalNotOnSnapshotCount := mTotalNotOnSnapshotCount e + 1\<rparr>
      else e\<lparr>mTotalOnSnapshotCount := mTotalOnSnapshotCount e + 1\<rparr>)"

definition easel_result :: "easel \<Rightarrow> residency_result" where
  "easel_result e = \<lparr>powerEntityId = mPowerEntityId e, stateResidencyData =
     [\<lparr>powerEntityStateId = EASEL_SYNTHETIC_SLEEP_ID, totalTimeInStateMs = mTotalNotOnSnapshotCount e,
       totalStateEntryCount = mTotalOnSnapshotCount e, lastEntryTimestampMs = 0\<rparr>]\<rparr>"

definition getResults ::
  "easel_call env \<Rightarrow> (32 word \<Rightarrow> residency_result option) \<Rightarrow> (bool \<times> (32 word \<Rightarrow> residency_result option)) easel_op" where
  "getResults E m = do {
     call_void Lock_easel;
     r \<leftarrow> call_text E (Read_easel_state easel_path);
     out \<leftarrow> (case r of
        None \<Rightarrow> ret (False, m)
      | Some txt \<Rightarrow> (case parse_state txt of
          None \<Rightarrow> ret (False, m)
        | Some currentState \<Rightarrow> do {
            modify (count_state currentState);
            e \<leftarrow> gets id;
            ret (True, emplace (mPowerEntityId e) (easel_result e) m)
          }));
     call_void Unlock_easel;
     ret out
   }"

definition getStateSpaces :: "easel \<Rightarrow> state_space list" where
  "getStateSpaces e =
     [\<lparr>spaceEntityId = mPowerEntityId e, states = [(EASEL_SYNTHETIC_SLEEP_ID, ''SyntheticSleep'')]\<rparr>]"

section \<open>Sequences of queries\<close>

text \<open>The states a history sampled: the reads that could be parsed.\<close>

definition samples :: "easel_call history \<Rightarrow> 64 word list" where
  "samples t = concat (map (\<lambda>e. case e of
       (Read_easel_state p, Text (Some txt)) \<Rightarrow> (case parse_state txt of None \<Rightarrow> [] | Some v \<Rightarrow> [v])
     | _ \<Rightarrow> []) t)"

definition asleep :: "64 word list \<Rightarrow> nat" where
  "asleep vs = length (filter (\<lambda>v. v \<noteq> EASEL_ON) vs)"

definition awake :: "64 word list \<Rightarrow> nat" where
  "awake vs = length (filter (\<lambda>v. v = EASEL_ON) vs)"

lemma samples_simps [simp]: "samples [] = []" "samples (t @ u) = samples t @ samples u"
  "samples ((Lock_easel, a) # t) = samples t" "samples ((Unlock_easel, a) # t) = samples t"
  "samples ((Read_easel_state p, Text None) # t) = samples t"
  "samples ((Read_easel_state p, Text (Some txt)) # t) =
     (case parse_state txt of None \<Rightarrow> samples t | Some v \<Rightarrow> v # samples t)"
  by (simp_all add: samples_def split: option.split)

lemma parse_state_range: "parse_state txt = Some v \<Longrightarrow> v = EASEL_OFF \<or> v = EASEL_ON \<or> v = EASEL_SUSPENDED"
proof -
  assume "parse_state txt = Some v"
  then have "v < 3" by (auto simp: parse_state_def NUM_EASEL_STATES_def split: prod.splits option.splits if_splits)
  then have "unat v < 3" by (simp add: word_less_nat_alt)
  then consider "unat v = 0" | "unat v = 1" | "unat v = 2" by linarith
  then show ?thesis
    by cases (auto simp: EASEL_OFF_def EASEL_ON_def EASEL_SUSPENDED_def word_unat_eq_iff)
qed

definition counted :: "easel \<Rightarrow> bool" where
  "counted e \<longleftrightarrow> mTotalNotOnSnapshotCount e = of_nat (asleep (samples (hist e))) \<and>
     mTotalOnSnapshotCount e = of_nat (awake (samples (hist e)))"

lemma query_counted:
  assumes "counted e"
  shows "let ok = fst (fst (run_state (getResults E m) e)); m' = snd (fst (run_state (getResults E m) e));
         e' = snd (run_state (getResults E m) e) in
    counted e' \<and> mPowerEntityId e' = mPowerEntityId e \<and>
    length (samples (hist e')) = length (samples (hist e)) + (if ok then 1 else 0) \<and>
    m' = (if ok then emplace (mPowerEntityId e) (easel_result e') m else m)"
proof (cases "e_text E (hist e @ [(Lock_easel, Void)]) (Read_easel_state easel_path)")
  case None
  then show ?thesis using assms by (simp add: getResults_def run_calls counted_def)
next
  case read: (Some c)
  show ?thesis
  proof (cases "parse_state c")
    case None
    then show ?thesis using assms read by (simp add: getResults_def run_calls counted_def)
  next
    case state: (Some v)
    from parse_state_range [OF state] read state assms show ?thesis
      by (auto simp: getResults_def run_calls counted_def count_state_def easel_result_def asleep_def awake_def
          EASEL_OFF_def EASEL_ON_def EASEL_SUSPENDED_def)
  qed
qed

lemma queries_counted:
  "counted e \<Longrightarrow> counted (snd (run_state (for_each ms (once (getResults E))) e)) \<and>
     mPowerEntityId (snd (run_state (for_each ms (once (getResults E))) e)) = mPowerEntityId e"
proof (induction ms arbitrary: e)
  case (Cons m ms)
  from query_counted [OF Cons.prems, of E m] Cons.IH [of "snd (run_state (getResults E m) e)"] show ?case
    by (simp add: run_once Let_def)
qed simp

lemma getResults_hist:
  "\<exists>a. hist (snd (run_state (getResults E m) e)) =
     hist e @ [(Lock_easel, Void), (Read_easel_state easel_path, a), (Unlock_easel, Void)]"
  by (auto simp: getResults_def run_calls count_state_def split: option.split)

interpretation easel_ops: guarded_ops "getResults E" Lock_easel Unlock_easel for E
proof
  show "Lock_easel \<noteq> Unlock_easel" by simp
  fix m e
  show "\<exists>t. hist (snd (run_state (getResults E m) e)) = hist e @ t \<and> bracketed Lock_easel Unlock_easel t"
    using getResults_hist [of E m e] by (fastforce simp: bracketed_def)
qed


end
