(* ===== verification/PowerStatsService.thy ===== *)
theory PowerStatsService
  imports Wahoo_Base
begin

text \<open>
  \<open>powerstats/service.cpp\<close>: how the power statistics service is put together, the power entities it
  announces and the data providers that serve them.  The service object and the providers other than the
  Easel one come from \<open>libpixelpowerstats\<close>; here they are the calls made on them.
\<close>

section \<open>Configuration\<close>

datatype entity_type = SUBSYSTEM | POWER_DOMAIN

datatype transform = No_transform | RpmConvertToMs

record state_config =
  config_name :: string
  header :: string
  entryCountSupported :: bool
  entryCountPrefix :: string
  totalTimeSupported :: bool
  totalTimePrefix :: string
  totalTimeTransform :: transform
  lastEntrySupported :: bool

text \<open>A provider; its argument is what its constructor is given.\<close>

datatype provider =
    Rpm_provider string
  | Soc_provider string
  | Wlan_provider int string
  | Easel_provider int
  | Aidl_provider

datatype service_call =
    Get_bool_property string
  | Add_power_entity string entity_type                     \<comment> \<open>answers the id\<close>
  | Add_entity provider int string "state_config list"      \<comment> \<open>provider, id, name of the entity in the file, states\<close>
  | Add_provider provider
  | Add_service string provider
  | Start_thread_pool
  | Configure_thread_pool
  | Register_service
  | Join_thread_pool

type_synonym power_service = "service_call world"
type_synonym 'a service_op = "(power_service, 'a) state"

definition RPM_CLK :: "64 word" where "RPM_CLK = 19200"

definition rpmConvertToMs :: "64 word \<Rightarrow> 64 word" where "rpmConvertToMs a = a div RPM_CLK"

definition rpmStateResidencyConfigs :: "state_config list" where
  "rpmStateResidencyConfigs =
     [\<lparr>config_name = ''XO_shutdown'', header = '''', entryCountSupported = True, entryCountPrefix = ''XO Count:'',
       totalTimeSupported = True, totalTimePrefix = ''Accumulated XO duration:'', totalTimeTransform = RpmConvertToMs,
       lastEntrySupported = False\<rparr>]"

definition socStateResidencyConfigs :: "state_config list" where
  "socStateResidencyConfigs =
     [\<lparr>config_name = ''XO_shutdown'', header = ''RPM Mode:vlow'', entryCountSupported = True, entryCountPrefix = ''count:'',
       totalTimeSupported = True, totalTimePrefix = ''actual last sleep(msec):'', totalTimeTransform = No_transform,
       lastEntrySupported = False\<rparr>,
      \<lparr>config_name = ''VMIN'', header = ''RPM Mode:vmin'', entryCountSupported = True, entryCountPrefix = ''count:'',
       totalTimeSupported = True, totalTimePrefix = ''actual last sleep(msec):'', totalTimeTransform = No_transform,
       lastEntrySupported = False\<rparr>]"

section \<open>The main function\<close>

definition system_stats :: string where "system_stats = ''/d/system_stats''"

text \<open>The entities of a debuggable build.\<close>

definition add_rpm_entity :: "service_call env \<Rightarrow> string \<Rightarrow> unit service_op" where
  "add_rpm_entity E name = do {
     i \<leftarrow> call_num E (Add_power_entity name SUBSYSTEM);
     call_void (Add_entity (Rpm_provider system_stats) i name rpmStateResidencyConfigs)
   }"

definition add_debug_entities :: "service_call env \<Rightarrow> unit service_op" where
  "add_debug_entities E = do {
     add_rpm_entity E ''APSS'';
     add_rpm_entity E ''MPSS'';
     add_rpm_entity E ''ADSP'';
     add_rpm_entity E ''SLPI'';
     call_void (Add_provider (Rpm_provider system_stats));
     socId \<leftarrow> call_num E (Add_power_entity ''SoC'' POWER_DOMAIN);
     call_void (Add_entity (Soc_provider system_stats) socId '''' socStateResidencyConfigs);
     call_void (Add_provider (Soc_provider system_stats));
     wlanId \<leftarrow> call_num E (Add_power_entity ''WLAN'' SUBSYSTEM);
     call_void (Add_provider (Wlan_provider wlanId ''/d/wlan0/power_stats''))
   }"

text \<open>\<open>main\<close>: the thread pool it joins at the end may return, and then it returns 1 as after a failure.\<close>

definition powerstats_main :: "service_call env \<Rightarrow> int service_op" where
  "powerstats_main E = do {
     isDebuggable \<leftarrow> call_flag E (Get_bool_property ''ro.debuggable'');
     (if isDebuggable then add_debug_entities E else ret ());
     easelId \<leftarrow> call_num E (Add_power_entity ''Easel'' SUBSYSTEM);
     call_void (Add_provider (Easel_provider easelId));
     serviceStatus \<leftarrow> call_num E (Add_service ''power.stats-vendor'' Aidl_provider);
     if serviceStatus \<noteq> 0 then ret 1
     else do {
       call_void Start_thread_pool;
       call_void (Add_provider Aidl_provider);
       call_void Configure_thread_pool;
       status \<leftarrow> call_num E Register_service;
       if status \<noteq> 0 then ret 1
       else do {
         call_void Join_thread_pool;
         ret 1
       }
     }
   }"

section \<open>Every entity has its provider\<close>

text \<open>The ids the service announced, and those its providers serve, each in the order of the calls.\<close>

fun announced :: "service_call history \<Rightarrow> int list" where
  "announced [] = []"
| "announced ((Add_power_entity n ty, Num i) # t) = i # announced t"
| "announced (e # t) = announced t"

fun entity_ids :: "provider \<Rightarrow> service_call history \<Rightarrow> int list" where
  "entity_ids p [] = []"
| "entity_ids p ((Add_entity q i n cs, a) # t) = (if q = p then i # entity_ids p t else entity_ids p t)"
| "entity_ids p (e # t) = entity_ids p t"

fun served :: "service_call history \<Rightarrow> service_call history \<Rightarrow> int list" where
  "served past [] = []"
| "served past ((Add_provider p, a) # t) =
     (case p of Wlan_provider i f \<Rightarrow> [i] | Easel_provider i \<Rightarrow> [i] | Aidl_provider \<Rightarrow> [] | _ \<Rightarrow> entity_ids p past) @
     served (past @ [(Add_provider p, a)]) t"
| "served past (e # t) = served (past @ [e]) t"

text \<open>
  Whatever the build and whatever fails, the providers that were added serve exactly the ids announced, in
  their order, and the service is registered and joined only after all of them.
\<close>

definition registering :: "service_call \<times> answer \<Rightarrow> bool" where
  "registering e \<longleftrightarrow> fst e \<in> {Register_service, Join_thread_pool}"

lemma entities_have_providers:
  "let t = emitted (powerstats_main E) s in
   served [] t = announced t \<and> fst (run_state (powerstats_main E) s) = 1 \<and>
   list_all registering (dropWhile (\<lambda>e. \<not> registering e) t)"
proof -
  have "yields (\<lambda>r t. served [] t = announced t \<and> r = 1 \<and>
     list_all registering (dropWhile (\<lambda>e. \<not> registering e) t)) (powerstats_main E)"
    unfolding powerstats_main_def add_debug_entities_def add_rpm_entity_def
    by (intro yields_steps) (simp_all add: registering_def)
  from yields_emitted [OF this, of s] show ?thesis by (simp add: Let_def)
qed

end
