(* ===== verification/ServiceMains.thy ===== *)
theory ServiceMains
  imports GadgetIds PowerStatsService
begin

text \<open>
  The \<open>main\<close> functions of the services, with the constructor of the USB service object, which ends the
  process when its condition variable cannot be set up: \<open>usb/service.cpp\<close>, \<open>dumpstate/service.cpp\<close>,
  \<open>main\<close> of \<open>health/HealthService.cpp\<close>, and the contract that they share with \<open>main\<close> of
  \<open>powerstats/service.cpp\<close>: a process serves requests only once every interface is registered.
\<close>

section \<open>The calls\<close>

datatype iface = IUsb | IUsbGadget | IDumpstateDevice

datatype main_call =
    Condattr_init
  | Condattr_setclock_monotonic
  | Cond_init
  | Condattr_destroy
  | Abort
  | Access_os_desc string
  | Configure_rpc nat bool            \<comment> \<open>threads, whether the caller joins\<close>
  | Register_as_service iface
  | Join_rpc
  | Health_service_main

text \<open>How a process ends: \<open>main\<close> returned, or \<open>abort\<close>.\<close>

datatype exit = Returned int | Aborted

type_synonym process = "main_call world"

section \<open>The USB service\<close>

text \<open>\<open>if (call) { ...; abort(); }\<close>\<close>

definition or_abort :: "main_call env \<Rightarrow> main_call \<Rightarrow> (process, exit + unit) state" where
  "or_abort E c = do {
     r \<leftarrow> call_num E c;
     if r \<noteq> 0 then do { call_void Abort; ret (Inl Aborted) } else ret (Inr ())
   }"

text \<open>\<open>Usb::Usb()\<close>\<close>

definition construct_usb :: "main_call env \<Rightarrow> (process, exit + unit) state" where
  "construct_usb E =
     or_return (or_abort E Condattr_init) (\<lambda>_.
     or_return (or_abort E Condattr_setclock_monotonic) (\<lambda>_.
     or_return (or_abort E Cond_init) (\<lambda>_.
     or_abort E Condattr_destroy)))"

definition register_or_exit :: "main_call env \<Rightarrow> iface \<Rightarrow> int \<Rightarrow> (process, exit + unit) state" where
  "register_or_exit E i code = do {
     status \<leftarrow> call_num E (Register_as_service i);
     ret (if status \<noteq> 0 then Inl (Returned code) else Inr ())
   }"

definition usb_main :: "main_call env \<Rightarrow> (process, exit) state" where
  "usb_main E = returned (
     or_return (construct_usb E) (\<lambda>_. do {
       _ \<leftarrow> call_num E (Access_os_desc OS_DESC_PATH);
       call_void (Configure_rpc 2 True);
       or_return (register_or_exit E IUsb 1) (\<lambda>_.
       or_return (register_or_exit E IUsbGadget 1) (\<lambda>_. do {
         call_void Join_rpc;
         ret (Inr (Returned 1))
       }))
     }))"

section \<open>The dump and the health service\<close>

text \<open>When the thread pool it joins returns, this \<open>main\<close> ends without a \<open>return\<close>: the value is 0.\<close>

definition dumpstate_main :: "main_call env \<Rightarrow> (process, exit) state" where
  "dumpstate_main E = returned (do {
     call_void (Configure_rpc 1 True);
     or_return (register_or_exit E IDumpstateDevice (-1)) (\<lambda>_. do {
       call_void Join_rpc;
       ret (Inr (Returned 0))
     })
   })"

definition health_main :: "main_call env \<Rightarrow> (process, exit) state" where
  "health_main E = do { r \<leftarrow> call_num E Health_service_main; ret (Returned r) }"

section \<open>The contract of a service process\<close>

text \<open>What a call means for it.\<close>

datatype phase = Configuring | Registering bool | Joining | Elsewhere

definition phases :: "('c \<times> answer \<Rightarrow> phase) \<Rightarrow> 'c history \<Rightarrow> phase list" where
  "phases ph t = filter (\<lambda>p. p \<noteq> Elsewhere) (map ph t)"

lemma phases_simps [simp]:
  "phases ph [] = []" "phases ph (e # t) = (if ph e = Elsewhere then phases ph t else ph e # phases ph t)"
  by (simp_all add: phases_def)

lemma phases_append: "phases ph (t @ u) = phases ph t @ phases ph u"
  by (simp add: phases_def)

text \<open>
  A process that ends early, one that serves after what it has to do before, in order (the plan), and one
  that stops at a registration that fails.
\<close>

definition started :: "phase list \<Rightarrow> phase list \<Rightarrow> bool" where
  "started plan ps \<longleftrightarrow> ps = [] \<or> ps = plan @ [Joining] \<or>
     (\<exists>k<length plan. plan ! k = Registering True \<and> ps = take k plan @ [Registering False])"

lemma ends_at: "a \<notin> set xs \<Longrightarrow> t @ a # u = xs @ [a] \<Longrightarrow> t = xs \<and> u = []"
  by (induction t arbitrary: xs) (auto simp: Cons_eq_append_conv append_eq_Cons_conv)

locale service_process =
  fixes body :: "(('c, 'm) world_scheme, 'a) state"
    and ph :: "'c \<times> answer \<Rightarrow> phase"
    and plan :: "phase list"
  assumes starts: "yields (\<lambda>_ t. started plan (phases ph t)) body"
    and not_before: "Joining \<notin> set plan" "Registering False \<notin> set plan"
begin

lemma started_body: "started plan (phases ph (emitted body s))"
  using yields_emitted [OF starts] by blast

text \<open>The calls before the pool is joined: the whole plan; none of its kind is made afterwards.\<close>

lemma joined_after_plan:
  assumes t: "emitted body s = t @ e # u" and e: "ph e = Joining"
  shows "phases ph t = plan \<and> phases ph u = []"
proof -
  have split: "phases ph (emitted body s) = phases ph t @ Joining # phases ph u"
    using t e by (simp add: phases_append)
  then have "Joining \<in> set (phases ph (emitted body s))" by simp
  with started_body [of s] not_before(1) have "phases ph (emitted body s) = plan @ [Joining]"
    by (auto simp: started_def dest: in_set_takeD)
  with split have "phases ph t @ Joining # phases ph u = plan @ [Joining]" by simp
  with not_before(1) show ?thesis by (intro ends_at) simp_all
qed

lemma refused_last:
  assumes t: "emitted body s = t @ e # u" and e: "ph e = Registering False"
  shows "phases ph u = []"
proof -
  have split: "phases ph (emitted body s) = phases ph t @ Registering False # phases ph u"
    using t e by (simp add: phases_append)
  then have "Registering False \<in> set (phases ph (emitted body s))" by simp
  with started_body [of s] not_before(2) obtain k where "phases ph (emitted body s) = take k plan @ [Registering False]"
    by (auto simp: started_def)
  with split have "phases ph t @ Registering False # phases ph u = take k plan @ [Registering False]" by simp
  moreover have "Registering False \<notin> set (take k plan)" using not_before(2) by (auto dest: in_set_takeD)
  ultimately have "phases ph t = take k plan \<and> phases ph u = []" by (intro ends_at)
  then show ?thesis ..
qed

end

section \<open>The four processes\<close>

fun main_phase :: "main_call \<times> answer \<Rightarrow> phase" where
  "main_phase (Configure_rpc n b, _) = Configuring"
| "main_phase (Register_as_service i, Num r) = Registering (r = 0)"
| "main_phase (Join_rpc, _) = Joining"
| "main_phase _ = Elsewhere"

fun power_phase :: "service_call \<times> answer \<Rightarrow> phase" where
  "power_phase (Configure_thread_pool, _) = Configuring"
| "power_phase (Add_service n p, Num r) = Registering (r = 0)"
| "power_phase (Register_service, Num r) = Registering (r = 0)"
| "power_phase (Join_thread_pool, _) = Joining"
| "power_phase _ = Elsewhere"

lemma or_return_assoc: "or_return (or_return m f) g = or_return m (\<lambda>x. or_return (f x) g)"
  by (rule state_ext) (simp add: or_return_def split_beta split: sum.split)

lemma yields_or_abort:
  assumes "\<And>r. r \<noteq> 0 \<Longrightarrow> Q (Inl Aborted) [(c, Num r), (Abort, Void)]" and "yields (\<lambda>b u. Q b ((c, Num 0) # u)) (f ())"
  shows "yields Q (or_return (or_abort E c) f)"
  unfolding or_return_def or_abort_def
  by (intro yields_step_assoc yields_step_num yields_step_if yields_step_void yields_step_return)
    (use assms in \<open>auto intro!: yields_return\<close>)

lemma yields_register:
  assumes "\<And>r. r \<noteq> 0 \<Longrightarrow> Q (Inl (Returned code)) [(Register_as_service i, Num r)]"
    and "yields (\<lambda>b u. Q b ((Register_as_service i, Num 0) # u)) (f ())"
  shows "yields Q (or_return (register_or_exit E i code) f)"
  unfolding or_return_def register_or_exit_def
  by (intro yields_step_assoc yields_step_num yields_step_return)
    (use assms in \<open>auto intro!: yields_return split: sum.split\<close>)

text \<open>What the four calls that set the condition variable up did, with the value the process ended with.\<close>

definition cond_setup :: "main_call list" where
  "cond_setup = [Condattr_init, Condattr_setclock_monotonic, Cond_init, Condattr_destroy]"

fun set_up_or_abort :: "main_call list \<Rightarrow> exit \<Rightarrow> main_call history \<Rightarrow> bool" where
  "set_up_or_abort [] r t = (r = Returned 1 \<and> (Abort, Void) \<notin> set t)"
| "set_up_or_abort (c # cs) r ((c', Num n) # t) =
     (c' = c \<and> (if n = 0 then set_up_or_abort cs r t else t = [(Abort, Void)] \<and> r = Aborted))"
| "set_up_or_abort (c # cs) r t = False"

lemma set_up_or_abort_cases:
  "set_up_or_abort cs r t \<Longrightarrow>
     (\<exists>k<length cs. \<exists>n. n \<noteq> 0 \<and> t = map (\<lambda>c. (c, Num 0)) (take k cs) @ [(cs ! k, Num n), (Abort, Void)] \<and> r = Aborted) \<or>
     (\<exists>t'. t = map (\<lambda>c. (c, Num 0)) cs @ t' \<and> (Abort, Void) \<notin> set t' \<and> r = Returned 1)"
proof (induction cs r t rule: set_up_or_abort.induct)
  case (2 c cs r c' n t)
  show ?case
  proof (cases "n = 0")
    case False
    with 2 show ?thesis by (intro disjI1 exI [of _ 0]) auto
  next
    case True
    with 2 have "c' = c" and "(\<exists>k<length cs. \<exists>n. n \<noteq> 0 \<and> t = map (\<lambda>c. (c, Num 0)) (take k cs) @ [(cs ! k, Num n), (Abort, Void)] \<and> r = Aborted) \<or>
        (\<exists>t'. t = map (\<lambda>c. (c, Num 0)) cs @ t' \<and> (Abort, Void) \<notin> set t' \<and> r = Returned 1)"
      by auto
    with True show ?thesis by (elim disjE exE) (auto intro: exI [of _ "Suc _"])
  qed
qed auto

abbreviation usb_plan :: "phase list" where
  "usb_plan \<equiv> [Configuring, Registering True, Registering True]"

abbreviation dump_plan :: "phase list" where
  "dump_plan \<equiv> [Configuring, Registering True]"

text \<open>The service of the vendor's statistics first, the HIDL service last.\<close>

abbreviation power_plan :: "phase list" where
  "power_plan \<equiv> [Registering True, Configuring, Registering True]"

lemma started_plans [simp]:
  "started usb_plan ps \<longleftrightarrow> ps \<in> {[], usb_plan @ [Joining], [Configuring, Registering False],
     [Configuring, Registering True, Registering False]}"
  "started dump_plan ps \<longleftrightarrow> ps \<in> {[], dump_plan @ [Joining], [Configuring, Registering False]}"
  "started power_plan ps \<longleftrightarrow> ps \<in> {[], power_plan @ [Joining], [Registering False],
     [Registering True, Configuring, Registering False]}"
  by (simp_all add: started_def Ex_less_Suc disj_ac)

lemma usb_main_yields:
  "yields (\<lambda>r t. started usb_plan (phases main_phase t) \<and> set_up_or_abort cond_setup r t \<and>
     (r = Aborted \<longleftrightarrow> phases main_phase t = [])) (usb_main E)"
  unfolding usb_main_def construct_usb_def or_return_assoc
  by (intro yields_returned yields_or_abort yields_step_num yields_step_void yields_register yields_return)
    (simp_all add: cond_setup_def)

lemma dumpstate_main_yields:
  "yields (\<lambda>r t. started dump_plan (phases main_phase t) \<and>
     r = (if Joining \<in> set (phases main_phase t) then Returned 0 else Returned (-1))) (dumpstate_main E)"
  unfolding dumpstate_main_def
  by (intro yields_returned yields_step_void yields_register yields_return) simp_all

lemma powerstats_main_yields: "yields (\<lambda>r t. started power_plan (phases power_phase t) \<and> r = 1) (powerstats_main E)"
  unfolding powerstats_main_def add_debug_entities_def add_rpm_entity_def
  by (intro yields_steps) simp_all

interpretation usb_process: service_process "usb_main E" main_phase usb_plan
  by unfold_locales (rule yields_mono [OF usb_main_yields], simp_all)

interpretation dumpstate_process: service_process "dumpstate_main E" main_phase dump_plan
  by unfold_locales (rule yields_mono [OF dumpstate_main_yields], simp_all)

interpretation power_process: service_process "powerstats_main E" power_phase power_plan
  by unfold_locales (rule yields_mono [OF powerstats_main_yields], simp_all)


section \<open>Registered before served\<close>


definition calm :: "'c env" where
  "calm = \<lparr>e_num = \<lambda>h c. 0, e_flag = \<lambda>h c. False, e_text = \<lambda>h c. None, e_entries = \<lambda>h c. None\<rparr>"


end
