(* ===== verification/Dumpstate.thy ===== *)
theory Dumpstate
  imports CText
begin

text \<open>
  \<open>dumpstate/DumpstateDevice.cpp\<close>: the dumpstate HAL.  The functions of \<open>libdumpstateutil\<close> and
  \<open>android-base\<close> are calls; a property call answers the value with its default applied.  The loop that
  copies the archive of the modem logs runs as long as the reads deliver bytes, so it is a
  \<open>repeat_op\<close>: \<open>None\<close> is a dump that never returns.
\<close>

section \<open>Calls\<close>

datatype dump_call =
    Run_command int string "string list" "int option"   \<comment> \<open>descriptor, title, arguments, timeout of the options\<close>
  | Dump_file int string string
  | Get_property string
  | Get_bool string
  | Get_int string int                  \<comment> \<open>name, default\<close>
  | Set_property string string
  | Is_user_build
  | Access string
  | Scandir string                      \<comment> \<open>with \<open>alphasort\<close>: the names in order, \<open>None\<close> for a null list\<close>
  | Sleep_second
  | Open_archive string
  | Read_archive int                    \<comment> \<open>\<open>None\<close> for an error, \<open>[]\<close> at the end\<close>
  | Write_modem int string
  | Close_archive int
  | Add_exit_task                       \<comment> \<open>\<open>addPostCommandTask\<close> of \<open>exit(0)\<close>\<close>

type_synonym dump = "dump_call world"
type_synonym 'a dump_op = "(dump, 'a) state"

abbreviation BACKSLASH :: char where "BACKSLASH \<equiv> CHR 0x5C"

definition MODEM_LOG_PREFIX_PROPERTY :: string where "MODEM_LOG_PREFIX_PROPERTY = ''ro.radio.log_prefix''"
definition MODEM_LOG_LOC_PROPERTY :: string where "MODEM_LOG_LOC_PROPERTY = ''ro.radio.log_loc''"
definition MODEM_LOGGING_SWITCH :: string where "MODEM_LOGGING_SWITCH = ''persist.radio.smlog_switch''"
definition DIAG_MDLOG_PERSIST_PROPERTY :: string where "DIAG_MDLOG_PERSIST_PROPERTY = ''persist.sys.modem.diag.mdlog''"
definition DIAG_MDLOG_PROPERTY :: string where "DIAG_MDLOG_PROPERTY = ''sys.modem.diag.mdlog''"
definition DIAG_MDLOG_STATUS_PROPERTY :: string where "DIAG_MDLOG_STATUS_PROPERTY = ''sys.modem.diag.mdlog_on''"
definition DIAG_MDLOG_NUMBER_BUGREPORT :: string where "DIAG_MDLOG_NUMBER_BUGREPORT = ''persist.sys.modem.diag.mdlog_br_num''"
definition DIAG_LOG_PREFIX :: string where "DIAG_LOG_PREFIX = ''diag_log_''"

definition shell :: "string \<Rightarrow> string list" where
  "shell cmd = [''/vendor/bin/sh'', ''-c'', cmd]"

section \<open>Diagnostic logs\<close>

text \<open>One copy, and the loop over the entries from the last to the first.\<close>

definition copy_log :: "int \<Rightarrow> string \<Rightarrow> string \<Rightarrow> string \<Rightarrow> unit dump_op" where
  "copy_log fd srcDir destDir name =
     call_void (Run_command fd ''CP DIAG LOGS''
       (shell (''/vendor/bin/cp '' @ srcDir @ ''/'' @ name @ '' '' @ destDir @ ''/'' @ name)) (Some 120))"

fun copy_logs :: "int \<Rightarrow> string \<Rightarrow> string \<Rightarrow> int \<Rightarrow> int \<Rightarrow> string list \<Rightarrow> unit dump_op" where
  "copy_logs fd srcDir destDir maxFileNum copiedFiles [] = ret ()"
| "copy_logs fd srcDir destDir maxFileNum copiedFiles (name # names) =
     (if \<not> prefix DIAG_LOG_PREFIX name then copy_logs fd srcDir destDir maxFileNum copiedFiles names
      else if copiedFiles \<ge> maxFileNum \<and> maxFileNum \<noteq> -1 then copy_logs fd srcDir destDir maxFileNum copiedFiles names
      else do {
        copy_log fd srcDir destDir name;
        copy_logs fd srcDir destDir maxFileNum (copiedFiles + 1) names
      })"

definition dumpDiagLogs :: "dump_call env \<Rightarrow> int \<Rightarrow> string \<Rightarrow> string \<Rightarrow> unit dump_op" where
  "dumpDiagLogs E fd srcDir destDir = do {
     r \<leftarrow> call_entries E (Scandir srcDir);
     case r of
       None \<Rightarrow> ret ()
     | Some dirent_list \<Rightarrow>
         if dirent_list = [] then ret ()
         else do {
           maxFileNum \<leftarrow> call_num E (Get_int DIAG_MDLOG_NUMBER_BUGREPORT 100);
           copy_logs fd srcDir destDir maxFileNum 0 (rev (map fst dirent_list))
         }
   }"

section \<open>The modem\<close>

text \<open>\<open>GetProperty(name, "")\<close>.\<close>

definition get_property :: "dump_call env \<Rightarrow> string \<Rightarrow> string dump_op" where
  "get_property E name = do { r \<leftarrow> call_text E (Get_property name); ret (case r of None \<Rightarrow> [] | Some v \<Rightarrow> v) }"

text \<open>Waiting up to 30 seconds for \<open>diag_mdlog\<close> to stop.\<close>

fun wait_diag :: "dump_call env \<Rightarrow> nat \<Rightarrow> unit dump_op" where
  "wait_diag E 0 = ret ()"
| "wait_diag E (Suc n) = do {
     on \<leftarrow> call_flag E (Get_bool DIAG_MDLOG_STATUS_PROPERTY);
     call_void Sleep_second;
     if \<not> on then ret () else wait_diag E n
   }"

definition rilAndNetmgrLogs :: "string list" where
  "rilAndNetmgrLogs =
     [''/data/vendor/radio/ril_log'', ''/data/vendor/radio/ril_log_old'', ''/data/vendor/netmgr/netmgr_log'',
      ''/data/vendor/netmgr/netmgr_log_old'', ''/data/vendor/radio/omadm_logs.txt'',
      ''/data/vendor/radio/power_anomaly_data.txt'', ''/data/vendor/radio/diag_logs/diag_trace.txt'',
      ''/data/vendor/radio/diag_logs/diag_trace_old.txt'']"

definition diag_logs :: "dump_call env \<Rightarrow> int \<Rightarrow> string \<Rightarrow> unit dump_op" where
  "diag_logs E fd modemLogAllDir = do {
     diagLogStarted \<leftarrow> call_flag E (Get_bool DIAG_MDLOG_STATUS_PROPERTY);
     (if diagLogStarted then call_void (Set_property DIAG_MDLOG_PROPERTY ''false'') else ret ());
     wait_diag E 30;
     dumpDiagLogs E fd ''/data/vendor/radio/diag_logs/logs'' modemLogAllDir;
     (if diagLogStarted then call_void (Set_property DIAG_MDLOG_PROPERTY ''true'') else ret ())
   }"

text \<open>Collecting the logs in a directory.\<close>

definition collect_logs :: "dump_call env \<Rightarrow> int \<Rightarrow> string \<Rightarrow> unit dump_op" where
  "collect_logs E fd modemLogAllDir = do {
     call_void (Run_command fd ''MODEM DIAG SYSTEM PROPERTIES''
       [''/vendor/bin/sh'', ''-c'', ''getprop'', ''|'', ''grep'', ''sys.modem.diag''] (Some 120));
     call_void (Run_command fd ''MKDIR MODEM LOG'' (shell (''/vendor/bin/mkdir -p '' @ modemLogAllDir)) (Some 120));
     switch \<leftarrow> call_flag E (Get_bool MODEM_LOGGING_SWITCH);
     smlogEnabled \<leftarrow> (if switch then do { r \<leftarrow> call_num E (Access ''/vendor/bin/smlog_dump''); ret (r = 0) } else ret False);
     diagLogEnabled \<leftarrow> call_flag E (Get_bool DIAG_MDLOG_PERSIST_PROPERTY);
     (if smlogEnabled then
        call_void (Run_command fd ''SMLOG DUMP'' [''smlog_dump'', ''-d'', ''-o'', modemLogAllDir] (Some 120))
      else if diagLogEnabled then diag_logs E fd modemLogAllDir
      else ret ());
     for_each rilAndNetmgrLogs (\<lambda>logFile.
       call_void (Run_command fd ''CP MODEM LOG'' (shell (''/vendor/bin/cp '' @ logFile @ '' '' @ modemLogAllDir)) (Some 120)))
   }"

text \<open>One round of the copy loop; \<open>Some ()\<close> leaves it.\<close>

definition copy_chunk :: "dump_call env \<Rightarrow> int \<Rightarrow> int \<Rightarrow> unit option dump_op" where
  "copy_chunk E fdLog fdModem = do {
     r \<leftarrow> call_text E (Read_archive fdLog);
     case r of
       None \<Rightarrow> ret (Some ())
     | Some bytes \<Rightarrow>
         if bytes = [] then ret (Some ())
         else do {
           result \<leftarrow> call_num E (Write_modem fdModem bytes);
           ret (if result \<noteq> int (length bytes) then Some () else None)
         }
   }"

definition make_archive :: "dump_call env \<Rightarrow> int \<Rightarrow> string \<Rightarrow> string \<Rightarrow> int dump_op" where
  "make_archive E fd modemLogAllDir modemLogCombined = do {
     call_void (Run_command fd ''TAR LOG''
       (shell (''/vendor/bin/tar cvf '' @ modemLogCombined @ '' -C '' @ modemLogAllDir @ '' .'')) (Some 120));
     call_void (Run_command fd ''CHG PERM'' (shell (''/vendor/bin/chmod a+rw '' @ modemLogCombined)) (Some 120));
     call_num E (Open_archive modemLogCombined)
   }"

text \<open>The \<open>unique_fd\<close> closes the archive at the end of the block, after the archive was removed.\<close>

definition remove_archive :: "dump_call env \<Rightarrow> int \<Rightarrow> string \<Rightarrow> string \<Rightarrow> int \<Rightarrow> unit dump_op" where
  "remove_archive E fd modemLogAllDir modemLogCombined fdLog = do {
     call_void (Run_command fd ''RM MODEM DIR'' (shell (''/vendor/bin/rm -r '' @ modemLogAllDir)) (Some 120));
     call_void (Run_command fd ''RM LOG'' [''/vendor/bin/rm'', modemLogCombined] (Some 120));
     (if fdLog \<ge> 0 then call_void (Close_archive fdLog) else ret ())
   }"

definition send_archive ::
  "dump_call env \<Rightarrow> int \<Rightarrow> int \<Rightarrow> string \<Rightarrow> string \<Rightarrow> dump \<Rightarrow> (unit \<times> dump) option" where
  "send_archive E fd fdModem modemLogAllDir modemLogCombined s =
     (case run_state (make_archive E fd modemLogAllDir modemLogCombined) s of (fdLog, s) \<Rightarrow>
        Option.bind (if fdLog \<ge> 0 then repeat_op (copy_chunk E fdLog fdModem) s else Some ((), s)) (\<lambda>(_, s).
          Some (run_state (remove_archive E fd modemLogAllDir modemLogCombined fdLog) s)))"

text \<open>\<open>dumpModem\<close> up to the archive: its directory and the prefix of its name, if there is one to make.\<close>

definition prepare_archive :: "dump_call env \<Rightarrow> int \<Rightarrow> (string \<times> string) option dump_op" where
  "prepare_archive E fd = do {
     modemLogDir \<leftarrow> get_property E MODEM_LOG_LOC_PROPERTY;
     if modemLogDir = [] then ret None
     else do {
       user \<leftarrow> call_flag E Is_user_build;
       if user then ret None
       else do {
         collect_logs E fd (modemLogDir @ ''/modem_log'');
         filePrefix \<leftarrow> get_property E MODEM_LOG_PREFIX_PROPERTY;
         ret (if filePrefix = [] then None else Some (modemLogDir, filePrefix))
       }
     }
   }"

definition dumpModem :: "dump_call env \<Rightarrow> int \<Rightarrow> int \<Rightarrow> dump \<Rightarrow> (unit \<times> dump) option" where
  "dumpModem E fd fdModem s =
     (case run_state (prepare_archive E fd) s of
        (None, s) \<Rightarrow> Some ((), s)
      | (Some (modemLogDir, filePrefix), s) \<Rightarrow>
          send_archive E fd fdModem (modemLogDir @ ''/modem_log'') (modemLogDir @ ''/'' @ filePrefix @ ''all.tar'') s)"

section \<open>The board\<close>

datatype dump_item = Command string "string list" | File string string

definition dump_item :: "int \<Rightarrow> dump_item \<Rightarrow> unit dump_op" where
  "dump_item fd i = (case i of
     Command title args \<Rightarrow> call_void (Run_command fd title args None)
   | File title path \<Rightarrow> call_void (Dump_file fd title path))"

definition board_first :: "dump_item list" where
  \<open>board_first =
    [Command ''VENDOR PROPERTIES'' [''/vendor/bin/getprop''],
     File ''SoC serial number'' ''/sys/devices/soc0/serial_number'',
     File ''CPU present'' ''/sys/devices/system/cpu/present'',
     File ''CPU online'' ''/sys/devices/system/cpu/online'',
     File ''UFS model'' ''/sys/block/sda/device/model'',
     File ''UFS rev'' ''/sys/block/sda/device/rev'',
     File ''UFS size'' ''/sys/block/sda/size'',
     Command ''UFS health'' [''/vendor/bin/sh'', ''-c'', ''for f in $(find /sys/kernel/debug/ufshcd0 -type f); do if [[ -r $f && -f $f ]]; then echo --- $f; cat $f; fi; done''],
     File ''INTERRUPTS'' ''/proc/interrupts'']\<close>

definition power_items :: "dump_item list" where
  \<open>power_items =
    [Command ''Power Stats Times'' [''/vendor/bin/sh'', ''-c'', ''echo -n "Boot: " && /vendor/bin/uptime -s &&echo -n "Now: " && date''],
     File ''RPM Stats'' ''/d/rpm_stats'',
     File ''Power Management Stats'' ''/d/rpm_master_stats'',
     File ''WLAN Power Stats'' ''/d/wlan0/power_stats'']\<close>

definition board_middle :: "dump_item list" where
  \<open>board_middle =
    [File ''LL-Stats'' ''/d/wlan0/ll_stats'',
     File ''ICNSS Stats'' ''/d/icnss/stats'',
     File ''SMD Log'' ''/d/ipc_logging/smd/log'',
     Command ''ION HEAPS'' [''/vendor/bin/sh'', ''-c'', ''for d in $(ls -d /d/ion/*); do for f in $(ls $d); do echo --- $d/$f; cat $d/$f; done; done''],
     File ''dmabuf info'' ''/d/dma_buf/bufinfo'',
     Command ''Easel debug info'' [''/vendor/bin/sh'', ''-c'', ''for f in `ls /sys/bus/i2c/devices/9-0008/@(*curr|temperature|vbat|total_power)`; do echo "$f: `cat $f`" ; done; file=/sys/devices/virtual/misc/mnh_sm/state; echo "$file: `cat $file`"''],
     Command ''Temperatures'' [''/vendor/bin/sh'', ''-c'', ''for f in /sys/class/thermal/thermal* ; do type=`cat $f/type` ; temp=`cat $f/temp` ; echo "$type: $temp" ; done''],
     Command ''Cooling Device Current State'' [''/vendor/bin/sh'', ''-c'', ''for f in /sys/class/thermal/cooling* ; do type=`cat $f/type` ; temp=`cat $f/cur_state` ; echo "$type: $temp" ; done''],
     Command ''CPU time-in-state'' [''/vendor/bin/sh'', ''-c'', ''for cpu in /sys/devices/system/cpu/cpu*; do f=$cpu/cpufreq/stats/time_in_state; if [ ! -f $f ]; then continue; fi; echo $f:; cat $f; done''],
     Command ''CPU cpuidle'' [''/vendor/bin/sh'', ''-c'', ''for cpu in /sys/devices/system/cpu/cpu*; do for d in $cpu/cpuidle/state*; do if [ ! -d $d ]; then continue; fi; echo "$d: `cat $d/name` `cat $d/desc` `cat $d/time` `cat $d/usage`"; done; done''],
     File ''MDP xlogs'' ''/data/vendor/display/mdp_xlog'',
     File ''TCPM logs'' ''/d/tcpm/usbpd0'',
     File ''PD Engine'' ''/d/pd_engine/usbpd0'',
     File ''smblib-usb logs'' ''/d/ipc_logging/smblib/log'',
     File ''ipc-local-ports'' ''/d/msm_ipc_router/dump_local_ports'',
     File ''ipc-servers'' ''/d/msm_ipc_router/dump_servers'',
     Command ''ipc-logs'' [''/vendor/bin/sh'', ''-c'', ''for f in `ls /d/ipc_logging/*_IPCRTR/log` ; do echo "------ $f'' @ [BACKSLASH] @ ''n`cat $f`'' @ [BACKSLASH] @ ''n" ; done'']]\<close>

definition board_last :: "dump_item list" where
  \<open>board_last =
    [Command ''USB Device Descriptors'' [''/vendor/bin/sh'', ''-c'', ''cd /sys/bus/usb/devices/1-1 && cat product && cat bcdDevice; cat descriptors | od -t x1 -w16 -N96''],
     File ''Pixel trace'' ''/d/tracing/instances/pixel-trace/trace'',
     Command ''QSEE logs'' [''/vendor/bin/sh'', ''-c'', ''/vendor/bin/timeout 3 cat /d/tzdbg/qsee_log''],
     Command ''Power supply properties'' [''/vendor/bin/sh'', ''-c'', ''for f in /sys/class/power_supply/*/uevent ; do echo "'' @ [LF] @ ''------ $f" ; cat $f ; done''],
     File ''Battery cycle count'' ''/sys/class/power_supply/bms/device/cycle_counts_bins'',
     Command ''QCOM FG SRAM'' [''/vendor/bin/sh'', ''-c'', ''echo 0 > /d/fg/sram/address ; echo 500 > /d/fg/sram/count ; cat /d/fg/sram/data''],
     File ''WLAN FW Log Symbol Table'' ''/vendor/firmware/Data.msc'']\<close>

definition DumpPower :: "int \<Rightarrow> unit dump_op" where
  "DumpPower fd = for_each power_items (dump_item fd)"

definition DumpTouch :: "dump_call env \<Rightarrow> int \<Rightarrow> unit dump_op" where
  "DumpTouch E fd = do {
     r \<leftarrow> call_num E (Access ''/sys/android_touch'');
     (if r = 0 then do {
        dump_item fd (File ''Synaptics touch firmware version'' ''/sys/android_touch/vendor'');
        dump_item fd (File ''Synaptics touch firmware config'' ''/sys/android_touch/config'')
      } else ret ());
     r \<leftarrow> call_num E (Access ''/sys/class/input/ftm4_touch'');
     (if r = 0 then do {
        dump_item fd (File ''STM touch firmware config'' ''/sys/class/input/ftm4_touch/version'');
        dump_item fd (File ''STM touch VR Mode'' ''/sys/class/input/ftm4_touch/vrmode'')
      } else ret ())
   }"

text \<open>\<open>dumpstateBoard\<close> after the modem.\<close>

definition dump_board :: "dump_call env \<Rightarrow> int \<Rightarrow> unit dump_op" where
  "dump_board E fd = do {
     for_each board_first (dump_item fd);
     DumpPower fd;
     for_each board_middle (dump_item fd);
     DumpTouch E fd;
     for_each board_last (dump_item fd)
   }"

text \<open>The handle: \<open>None\<close> if it is null, otherwise the descriptors it carries.\<close>

definition dumpstateBoard :: "dump_call env \<Rightarrow> int list option \<Rightarrow> dump \<Rightarrow> (unit \<times> dump) option" where
  "dumpstateBoard E handle s =
     (case run_state (call_void Add_exit_task) s of (_, s) \<Rightarrow>
        (case handle of
           None \<Rightarrow> Some ((), s)
         | Some [] \<Rightarrow> Some ((), s)
         | Some (fd # fds) \<Rightarrow>
             if fd < 0 then Some ((), s)
             else Option.bind (case fds of [] \<Rightarrow> Some ((), s) | fdModem # _ \<Rightarrow> dumpModem E fd fdModem s) (\<lambda>(_, s).
               Some (run_state (dump_board E fd) s))))"

end
