(* ===== verification/DumpRuns.thy ===== *)
theory DumpRuns
  imports Dumpstate
begin

text \<open>
  What the dumpstate HAL does: which diagnostic logs it copies, that the archive of the modem logs reaches
  the modem descriptor, and where everything it dumps goes.
\<close>

section \<open>The newest logs\<close>

text \<open>The specification: the entries with the prefix, the last first, at most \<open>maxFileNum\<close> unless it is -1.\<close>

definition newest :: "int \<Rightarrow> string list \<Rightarrow> string list" where
  "newest maxFileNum names =
     (let logs = filter (prefix DIAG_LOG_PREFIX) (rev names)
      in if maxFileNum = -1 then logs else take (nat maxFileNum) logs)"

definition copy_command :: "int \<Rightarrow> string \<Rightarrow> string \<Rightarrow> string \<Rightarrow> dump_call \<times> answer" where
  "copy_command fd srcDir destDir name =
     (Run_command fd ''CP DIAG LOGS''
        (shell (''/vendor/bin/cp '' @ srcDir @ ''/'' @ name @ '' '' @ destDir @ ''/'' @ name)) (Some 120), Void)"

lemma copy_logs_run:
  assumes "0 \<le> copied"
  shows "run_state (copy_logs fd src dest maxFileNum copied names) s =
    ((), s\<lparr>hist := hist s @ map (copy_command fd src dest)
      (if maxFileNum = -1 then filter (prefix DIAG_LOG_PREFIX) names
       else take (nat (maxFileNum - copied)) (filter (prefix DIAG_LOG_PREFIX) names))\<rparr>)"
  using assms
proof (induction names arbitrary: copied s)
  case (Cons name names)
  let ?logs = "filter (prefix DIAG_LOG_PREFIX) names"
  consider "\<not> prefix DIAG_LOG_PREFIX name" | "prefix DIAG_LOG_PREFIX name" "maxFileNum \<le> copied" "maxFileNum \<noteq> -1"
    | "prefix DIAG_LOG_PREFIX name" "copied < maxFileNum \<or> maxFileNum = -1" by fastforce
  then show ?case
  proof cases
    case 1
    then show ?thesis using Cons by simp
  next
    case 2
    then have "nat (maxFileNum - copied) = 0" by simp
    with 2 Cons.IH [OF Cons.prems] show ?thesis by simp
  next
    case 3
    then have "maxFileNum \<noteq> -1 \<Longrightarrow> nat (maxFileNum - copied) = Suc (nat (maxFileNum - (copied + 1)))" by simp
    with 3 Cons.IH [of "copied + 1"] Cons.prems show ?thesis
      by (cases "maxFileNum = -1") (simp_all add: copy_log_def call_void_def copy_command_def)
  qed
qed simp

text \<open>
  C38. The diagnostic logs that are copied are the newest: of the entries of the directory with the prefix
  of the logs, the last in alphabetical order come first, each is copied once, and there are at most as many as the
  property allows, where -1 stands for all and any other negative number for none.
\<close>

theorem newest_logs_copied:
  "emitted (dumpDiagLogs E fd src dest) s =
     (let r = e_entries E (hist s) (Scandir src) in
      (Scandir src, Entries r) #
      (case r of
         None \<Rightarrow> []
       | Some entries \<Rightarrow>
           if entries = [] then []
           else let maxFileNum = e_num E (hist s @ [(Scandir src, Entries r)]) (Get_int DIAG_MDLOG_NUMBER_BUGREPORT 100) in
             (Get_int DIAG_MDLOG_NUMBER_BUGREPORT 100, Num maxFileNum) #
             map (copy_command fd src dest) (newest maxFileNum (map fst entries))))"
  by (rule hist_emitted)
    (auto simp: dumpDiagLogs_def run_calls copy_logs_run newest_def split: option.split)

section \<open>The archive\<close>

text \<open>What was read from the archive and what the modem descriptor took.\<close>

fun read_bytes :: "dump_call \<times> answer \<Rightarrow> string" where
  "read_bytes (Read_archive fd, Text (Some b)) = b"
| "read_bytes e = []"

fun taken_bytes :: "int \<Rightarrow> dump_call \<times> answer \<Rightarrow> string" where
  "taken_bytes f (Write_modem g b, Num n) = (if g = f then take (nat n) b else [])"
| "taken_bytes f e = []"

fun written_all :: "dump_call \<times> answer \<Rightarrow> bool" where
  "written_all (Write_modem g b, Num n) = (n = int (length b))"
| "written_all e = True"

abbreviation reads :: "dump_call history \<Rightarrow> nat" where
  "reads t \<equiv> length (filter (\<lambda>e. \<exists>f. fst e = Read_archive f) t)"

text \<open>
  A regular file: the successive reads deliver its chunks, none of them empty, and then the end.  How many
  reads there were is counted from the history \<open>h0\<close> at which the file was opened.
\<close>

definition delivers :: "dump_call env \<Rightarrow> int \<Rightarrow> dump_call history \<Rightarrow> string list \<Rightarrow> bool" where
  "delivers E fdLog h0 chunks \<longleftrightarrow> [] \<notin> set chunks \<and>
     (\<forall>t. e_text E (h0 @ t) (Read_archive fdLog) = Some (if reads t < length chunks then chunks ! reads t else []))"

text \<open>The state of the copy after \<open>t\<close>: so many whole chunks have been read and taken.\<close>

definition copied :: "int \<Rightarrow> string list \<Rightarrow> dump_call history \<Rightarrow> dump \<Rightarrow> dump \<Rightarrow> bool" where
  "copied g chunks t s0 s \<longleftrightarrow> hist s = hist s0 @ t \<and> reads t \<le> length chunks \<and>
     concat (map read_bytes t) = concat (take (reads t) chunks) \<and>
     concat (map (taken_bytes g) t) = concat (take (reads t) chunks) \<and> list_all written_all t"

text \<open>When the copy ends: the modem took everything, or what it took before a short or failed write.\<close>

definition copy_ended :: "int \<Rightarrow> string list \<Rightarrow> dump_call history \<Rightarrow> dump \<Rightarrow> dump \<Rightarrow> bool" where
  "copy_ended g chunks u s0 s \<longleftrightarrow> hist s = hist s0 @ u \<and> concat (map read_bytes u) = concat (take (reads u) chunks) \<and>
     (if list_all written_all u then concat (map (taken_bytes g) u) = concat chunks
      else prefix (concat (map (taken_bytes g) u)) (concat chunks))"

lemma prefix_take: "prefix (p @ take n b) (p @ b @ r)"
proof -
  have "b @ r = take n b @ (drop n b @ r)" by (simp flip: append_assoc)
  then have "prefix (take n b) (b @ r)" by (rule prefixI)
  then show ?thesis by simp
qed

text \<open>A write that does not take the whole chunk ends the copy.\<close>

lemma copy_cut:
  assumes prev: "copied g chunks t s0 s" and more: "reads t < length chunks"
    and cut: "n \<noteq> int (length (chunks ! reads t))"
    and u: "u = [(Read_archive fdLog, Text (Some (chunks ! reads t))), (Write_modem g (chunks ! reads t), Num n)]"
  shows "copy_ended g chunks (t @ u) s0 (s\<lparr>hist := hist s @ u\<rparr>)"
proof -
  let ?b = "chunks ! reads t"
  have more_read: "take (Suc (reads t)) chunks = take (reads t) chunks @ [?b]"
    using more by (rule take_Suc_conv_app_nth)
  have "concat chunks = concat (take (reads t) chunks) @ ?b @ concat (drop (Suc (reads t)) chunks)"
    using arg_cong [OF id_take_nth_drop [OF more], of concat] by simp
  then have part: "prefix (concat (take (reads t) chunks) @ take (nat n) ?b) (concat chunks)"
    by (simp only: prefix_take)
  have h: "hist (s\<lparr>hist := hist s @ u\<rparr>) = hist s0 @ t @ u" using prev by (simp add: copied_def)
  have r: "concat (map read_bytes (t @ u)) = concat (take (reads (t @ u)) chunks)"
    using prev by (simp add: copied_def more_read u)
  have w: "concat (map (taken_bytes g) (t @ u)) = concat (take (reads t) chunks) @ take (nat n) ?b"
    using prev by (simp add: copied_def u)
  have "\<not> list_all written_all (t @ u)" using cut by (simp add: u)
  with h r part show ?thesis by (simp only: copy_ended_def w if_False append_assoc)
qed

lemma copy_chunk_step:
  assumes "delivers E fdLog (hist s0) chunks" and "copied g chunks t s0 s"
  shows "case run_state (copy_chunk E fdLog g) s of
      (None, s') \<Rightarrow> reads t < length chunks \<and> (\<exists>t'. copied g chunks t' s0 s' \<and> reads t' = Suc (reads t))
    | (Some _, s') \<Rightarrow> \<exists>u. copy_ended g chunks u s0 s'"
proof (cases "reads t < length chunks")
  case False
  then have "e_text E (hist s) (Read_archive fdLog) = Some []" "reads t = length chunks"
    using assms by (auto simp: delivers_def copied_def)
  then have run: "run_state (copy_chunk E fdLog g) s =
      (Some (), s\<lparr>hist := hist s @ [(Read_archive fdLog, Text (Some []))]\<rparr>)"
    by (simp add: copy_chunk_def run_calls)
  have "copy_ended g chunks (t @ [(Read_archive fdLog, Text (Some []))]) s0
      (s\<lparr>hist := hist s @ [(Read_archive fdLog, Text (Some []))]\<rparr>)"
    using assms(2) \<open>reads t = length chunks\<close> by (simp add: copied_def copy_ended_def)
  then show ?thesis unfolding run by auto
next
  case True
  let ?b = "chunks ! reads t"
  let ?h = "hist s @ [(Read_archive fdLog, Text (Some ?b))]"
  let ?n = "e_num E ?h (Write_modem g ?b)"
  let ?u = "[(Read_archive fdLog, Text (Some ?b)), (Write_modem g ?b, Num ?n)]"
  have "e_text E (hist s) (Read_archive fdLog) = Some ?b" "?b \<noteq> []"
    using assms True by (auto simp: delivers_def copied_def in_set_conv_nth)
  then have run: "run_state (copy_chunk E fdLog g) s =
      (if ?n \<noteq> int (length ?b) then Some () else None, s\<lparr>hist := hist s @ ?u\<rparr>)"
    by (simp add: copy_chunk_def run_calls)
  have more: "take (Suc (reads t)) chunks = take (reads t) chunks @ [?b]"
    using True by (rule take_Suc_conv_app_nth)
  show ?thesis
  proof (cases "?n = int (length ?b)")
    case whole: True
    have "copied g chunks (t @ ?u) s0 (s\<lparr>hist := hist s @ ?u\<rparr>) \<and> reads (t @ ?u) = Suc (reads t)"
      using assms(2) True whole by (simp add: copied_def more)
    then show ?thesis
      unfolding run using True whole by auto
  next
    case False
    have "copy_ended g chunks (t @ ?u) s0 (s\<lparr>hist := hist s @ ?u\<rparr>)"
      by (rule copy_cut [OF assms(2) True False refl])
    then show ?thesis unfolding run using False by auto
  qed
qed

lemma copy_returns:
  assumes deliv: "delivers E fdLog (hist s0) chunks"
  shows "copied g chunks t s0 s \<Longrightarrow>
    \<exists>s' u. repeat_op (copy_chunk E fdLog g) s = Some ((), s') \<and> copy_ended g chunks u s0 s'"
proof (induction "length chunks - reads t" arbitrary: t s rule: less_induct)
  case less
  obtain r s1 where run: "run_state (copy_chunk E fdLog g) s = (r, s1)" by (cases "run_state (copy_chunk E fdLog g) s")
  show ?case
  proof (cases r)
    case None
    with copy_chunk_step [OF deliv less.prems] run obtain t' where
      "reads t < length chunks" "copied g chunks t' s0 s1" "reads t' = Suc (reads t)" by auto
    then have "length chunks - reads t' < length chunks - reads t" by simp
    from less.hyps [OF this] \<open>copied g chunks t' s0 s1\<close> obtain s' u where
      "repeat_op (copy_chunk E fdLog g) s1 = Some ((), s')" "copy_ended g chunks u s0 s'" by blast
    then show ?thesis by (subst repeat_op.simps) (auto simp: run None)
  next
    case (Some x)
    with copy_chunk_step [OF deliv less.prems] run obtain u where "copy_ended g chunks u s0 s1" by auto
    then show ?thesis by (subst repeat_op.simps) (auto simp: run Some)
  qed
qed

text \<open>
  C39. When the archive of the modem logs could be opened and its reads deliver a file, sending it always
  returns, and the modem descriptor has taken exactly the bytes of the file, or, if some write was short
  or failed, an initial part of them; then the logs are removed and the archive is closed.
\<close>

theorem archive_sent:
  assumes opened: "run_state (make_archive E fd dir tar) s = (fdLog, s1)" "0 \<le> fdLog"
    and deliv: "delivers E fdLog (hist s1) chunks"
  shows "\<exists>s2 u s'. send_archive E fd fdModem dir tar s = Some ((), s') \<and> copy_ended fdModem chunks u s1 s2 \<and>
    hist s' = hist s2 @ [(Run_command fd ''RM MODEM DIR'' (shell (''/vendor/bin/rm -r '' @ dir)) (Some 120), Void),
      (Run_command fd ''RM LOG'' [''/vendor/bin/rm'', tar] (Some 120), Void), (Close_archive fdLog, Void)]"
proof -
  have "copied fdModem chunks [] s1 s1" by (simp add: copied_def)
  from copy_returns [OF deliv this] obtain s2 u where
    "repeat_op (copy_chunk E fdLog fdModem) s1 = Some ((), s2)" "copy_ended fdModem chunks u s1 s2" by auto
  with opened show ?thesis by (auto simp: send_archive_def remove_archive_def call_void_def)
qed

text \<open>A file of two chunks, and a modem that takes everything.\<close>

definition archive_env :: "dump_call env" where
  "archive_env = \<lparr>e_num = (\<lambda>h c. case c of Write_modem g b \<Rightarrow> int (length b) | Open_archive p \<Rightarrow> 5 | _ \<Rightarrow> 0),
     e_flag = (\<lambda>_ _. True),
     e_text = (\<lambda>h c. case c of
        Read_archive f \<Rightarrow> Some (let n = reads h in if n = 0 then ''ab'' else if n = 1 then ''c'' else [])
      | _ \<Rightarrow> Some ''x''),
     e_entries = (\<lambda>_ _. None)\<rparr>"

theorem archive_sent_witness:
  "\<exists>s'. send_archive archive_env 3 4 ''/d'' ''/t'' \<lparr>hist = []\<rparr> = Some ((), s')"
proof -
  let ?s1 = "snd (run_state (make_archive archive_env 3 ''/d'' ''/t'') \<lparr>hist = []\<rparr>)"
  have run: "run_state (make_archive archive_env 3 ''/d'' ''/t'') \<lparr>hist = []\<rparr> = (5, ?s1)" "reads (hist ?s1) = 0"
    by (simp_all add: make_archive_def run_calls archive_env_def)
  have "delivers archive_env 5 (hist ?s1) [''ab'', ''c'']"
    unfolding delivers_def using run(2) by (auto simp: archive_env_def less_Suc_eq)
  from archive_sent [OF run(1) _ this, of 4] show ?thesis by auto
qed

section \<open>Where the dump goes\<close>

fun goes_to :: "int \<Rightarrow> int option \<Rightarrow> dump_call \<times> answer \<Rightarrow> bool" where
  "goes_to fd modem (Run_command f title args timeout, a) = (f = fd)"
| "goes_to fd modem (Dump_file f title path, a) = (f = fd)"
| "goes_to fd modem (Write_modem f b, a) = (modem = Some f)"
| "goes_to fd modem (Add_exit_task, a) = False"
| "goes_to fd modem e = True"

text \<open>What the property that controls \<open>diag_mdlog\<close> was set to.\<close>

fun diag_set :: "dump_call \<times> answer \<Rightarrow> bool" where
  "diag_set (Set_property p v, a) = (p = DIAG_MDLOG_PROPERTY)"
| "diag_set e = False"

definition diag_restarted :: "dump_call history \<Rightarrow> bool" where
  "diag_restarted t \<longleftrightarrow> filter diag_set t = [] \<or>
     filter diag_set t = [(Set_property DIAG_MDLOG_PROPERTY ''false'', Void), (Set_property DIAG_MDLOG_PROPERTY ''true'', Void)]"

lemmas dump_defs = get_property_def make_archive_def remove_archive_def copy_chunk_def dump_item_def
  dump_board_def DumpPower_def DumpTouch_def copy_log_def

lemma copy_logs_goes: "emits (\<lambda>e. goes_to fd m e \<and> \<not> diag_set e) (copy_logs fd src dest n c names)"
  by (induction fd src dest n c names rule: copy_logs.induct) (auto simp: copy_log_def intro!: emits_intros)

lemma dumpDiagLogs_goes: "emits (\<lambda>e. goes_to fd m e \<and> \<not> diag_set e) (dumpDiagLogs E fd src dest)"
  unfolding dumpDiagLogs_def by (intro emits_intros copy_logs_goes) simp_all

lemma wait_diag_goes: "emits (\<lambda>e. goes_to fd m e \<and> \<not> diag_set e) (wait_diag E n)"
  by (induction n) (auto intro!: emits_intros)

lemma diag_logs_goes: "emits (goes_to fd m) (diag_logs E fd dir)"
  unfolding diag_logs_def
  by (intro emits_intros emits_mono [OF dumpDiagLogs_goes] emits_mono [OF wait_diag_goes]) auto

lemma diag_logs_restart: "yields (\<lambda>r t. diag_restarted (filter diag_set t)) (diag_logs E fd dir)"
proof -
  have wait: "emits (\<lambda>e. \<not> diag_set e) (wait_diag E n)" for n
    by (rule emits_mono [OF wait_diag_goes [of fd None]]) simp
  have dump: "emits (\<lambda>e. \<not> diag_set e) (dumpDiagLogs E fd src dest)" for src dest
    by (rule emits_mono [OF dumpDiagLogs_goes [of fd None]]) simp
  show ?thesis
    unfolding diag_logs_def
    by (intro yields_steps; (simp, intro yields_quiet [OF wait] yields_quiet [OF dump] yields_steps)?)
      (auto simp: diag_restarted_def list_all_iff filter_empty_conv intro!: yields_call_void emits_yields [OF dump])
qed

lemma no_diag: "emits (\<lambda>e. \<not> diag_set e) m \<Longrightarrow> yields (\<lambda>r t. diag_restarted (filter diag_set t)) m"
  by (erule emits_yields) (simp add: diag_restarted_def list_all_iff filter_empty_conv)

lemma diag_restarted_filter: "diag_restarted (filter diag_set t) = diag_restarted t"
  by (simp add: diag_restarted_def)

text \<open>A part that sets nothing, after one that may.\<close>

lemma then_no_diag:
  assumes "yields (\<lambda>r t. diag_restarted (filter diag_set t)) m" and "\<And>a. emits (\<lambda>e. \<not> diag_set e) (f a)"
  shows "yields (\<lambda>r t. diag_restarted (filter diag_set t)) (State_Monad.bind m f)"
proof (rule yields_bind [OF assms(1)])
  fix a t assume "diag_restarted (filter diag_set t)"
  then show "yields (\<lambda>b u. diag_restarted (filter diag_set (t @ u))) (f a)"
    by (intro emits_yields [OF assms(2)]) (simp add: diag_restarted_def list_all_iff filter_empty_conv)
qed

lemma collect_logs_restart: "yields (\<lambda>r t. diag_restarted (filter diag_set t)) (collect_logs E fd dir)"
proof -
  have one: "yields (\<lambda>r t. diag_restarted (filter diag_set t))
      (if smlog then call_void (Run_command fd x y z) else if diag then diag_logs E fd dir else ret ())" for smlog diag x y z
    by (auto intro!: diag_logs_restart no_diag emits_intros)
  show ?thesis
    unfolding collect_logs_def
    by (intro yields_quiet then_no_diag [OF one] emits_intros) simp_all
qed

lemma prepare_archive_restart: "yields (\<lambda>r t. diag_restarted (filter diag_set t)) (prepare_archive E fd)"
proof -
  have tail: "emits (\<lambda>e. \<not> diag_set e) (get_property E p)" for p
    unfolding get_property_def by (intro emits_intros) simp_all
  show ?thesis
    unfolding prepare_archive_def
    by (intro yields_quiet [OF tail] yields_if then_no_diag [OF collect_logs_restart] yields_quiet no_diag emits_intros tail)
      simp_all
qed

lemma prepare_archive_goes: "emits (goes_to fd m) (prepare_archive E fd)"
  unfolding prepare_archive_def collect_logs_def get_property_def
  by (intro emits_intros diag_logs_goes) simp_all

text \<open>The other parts, all at once: their own descriptor and no property.\<close>

lemma parts_go:
  "emits (\<lambda>e. goes_to fd m e \<and> \<not> diag_set e) (make_archive E fd dir tar)"
  "emits (\<lambda>e. goes_to fd m e \<and> \<not> diag_set e) (remove_archive E fd dir tar fdLog)"
  "emits (\<lambda>e. goes_to fd (Some g) e \<and> \<not> diag_set e) (copy_chunk E fdLog g)"
  "emits (\<lambda>e. goes_to fd m e \<and> \<not> diag_set e) (dump_board E fd)"
  unfolding dump_defs
  by (intro emits_intros; simp split: dump_item.split; intro conjI allI impI emits_intros; simp)+

lemma send_archive_goes:
  assumes "send_archive E fd g dir tar s = Some ((), s')"
  shows "\<exists>t. hist s' = hist s @ t \<and> list_all (\<lambda>e. goes_to fd (Some g) e \<and> \<not> diag_set e) t"
proof -
  let ?P = "\<lambda>e. goes_to fd (Some g) e \<and> \<not> diag_set e"
  obtain fdLog s1 where 1: "run_state (make_archive E fd dir tar) s = (fdLog, s1)"
    by (cases "run_state (make_archive E fd dir tar) s")
  obtain s2 where 2: "(if fdLog \<ge> 0 then repeat_op (copy_chunk E fdLog g) s1 else Some ((), s1)) = Some ((), s2)"
    and 3: "run_state (remove_archive E fd dir tar fdLog) s2 = ((), s')"
    using assms 1 by (auto simp: send_archive_def bind_eq_Some_conv)
  obtain t1 where t1: "hist s1 = hist s @ t1" "list_all ?P t1" by (rule emitsE [OF parts_go(1) 1])
  obtain t2 where t2: "hist s2 = hist s1 @ t2" "list_all ?P t2"
  proof (cases "fdLog \<ge> 0")
    case True
    with 2 have "repeat_op (copy_chunk E fdLog g) s1 = Some ((), s2)" by simp
    from repeat_op_emits [OF this parts_go(3)] that show thesis by blast
  next
    case False
    with 2 that [of "[]"] show thesis by simp
  qed
  obtain t3 where t3: "hist s' = hist s2 @ t3" "list_all ?P t3" by (rule emitsE [OF parts_go(2) 3])
  from t1 t2 t3 show ?thesis by (intro exI [of _ "t1 @ t2 @ t3"]) simp
qed

lemma dumpModem_goes:
  assumes "dumpModem E fd g s = Some ((), s')"
  shows "\<exists>t. hist s' = hist s @ t \<and> list_all (goes_to fd (Some g)) t \<and> diag_restarted t"
proof -
  obtain r s1 where 1: "run_state (prepare_archive E fd) s = (r, s1)" by (cases "run_state (prepare_archive E fd) s")
  obtain t1 where t1: "hist s1 = hist s @ t1" "list_all (goes_to fd (Some g)) t1"
    by (rule emitsE [OF prepare_archive_goes 1])
  obtain u1 where "hist s1 = hist s @ u1" "diag_restarted (filter diag_set u1)"
    by (rule yieldsE [OF prepare_archive_restart 1])
  with t1 have d1: "diag_restarted t1" by (simp add: diag_restarted_filter)
  show ?thesis
  proof (cases r)
    case None
    with assms 1 t1 d1 show ?thesis by (simp add: dumpModem_def)
  next
    case (Some p)
    obtain dir pre where p: "p = (dir, pre)" by (cases p)
    from assms 1 Some p have "send_archive E fd g (dir @ ''/modem_log'') (dir @ ''/'' @ pre @ ''all.tar'') s1 = Some ((), s')"
      by (simp add: dumpModem_def)
    from send_archive_goes [OF this] obtain t2 where
      t2: "hist s' = hist s1 @ t2" "list_all (\<lambda>e. goes_to fd (Some g) e \<and> \<not> diag_set e) t2" by auto
    have "diag_restarted (t1 @ t2)"
      using d1 t2(2) by (simp add: diag_restarted_def list_all_iff filter_empty_conv)
    moreover have "list_all (goes_to fd (Some g)) (t1 @ t2)" using t1(2) t2(2) by (auto simp: list_all_iff)
    ultimately show ?thesis using t1(1) t2(1) by (intro exI [of _ "t1 @ t2"]) simp
  qed
qed

text \<open>
  C40. A dump first schedules the exit of the process.  With no descriptor or an invalid one it does nothing
  else; otherwise everything is dumped into the first descriptor, the whole board dump at the end, only the
  second descriptor, if there is one, is given the modem archive, and the diagnostic logging that was
  stopped for the dump is started again.
\<close>

theorem board_dump:
  assumes "dumpstateBoard E handle s = Some ((), s')"
  shows "\<exists>t. hist s' = hist s @ (Add_exit_task, Void) # t \<and>
    (case handle of
       Some (fd # fds) \<Rightarrow>
         if fd < 0 then t = []
         else list_all (goes_to fd (case fds of [] \<Rightarrow> None | g # _ \<Rightarrow> Some g)) t \<and> diag_restarted t \<and>
           (\<exists>s1. suffix (emitted (dump_board E fd) s1) t)
     | _ \<Rightarrow> t = [])"
proof (cases "\<exists>fd fds. handle = Some (fd # fds) \<and> 0 \<le> fd")
  case False
  then show ?thesis using assms
    by (auto simp: dumpstateBoard_def call_void_def split: option.splits list.splits if_splits)
next
  case True
  then obtain fd fds where h: "handle = Some (fd # fds)" "0 \<le> fd" by auto
  let ?m = "case fds of [] \<Rightarrow> None | g # _ \<Rightarrow> Some g"
  let ?s0 = "s\<lparr>hist := hist s @ [(Add_exit_task, Void)]\<rparr>"
  from assms h obtain s1 where
    modem: "(case fds of [] \<Rightarrow> Some ((), ?s0) | g # _ \<Rightarrow> dumpModem E fd g ?s0) = Some ((), s1)"
    and board: "run_state (dump_board E fd) s1 = ((), s')"
    by (auto simp: dumpstateBoard_def call_void_def bind_eq_Some_conv)
  obtain t1 where t1: "hist s1 = hist ?s0 @ t1" "list_all (goes_to fd ?m) t1" "diag_restarted t1"
  proof (cases fds)
    case Nil
    with modem that [of "[]"] show thesis by (simp add: diag_restarted_def)
  next
    case (Cons g gs)
    with modem have "dumpModem E fd g ?s0 = Some ((), s1)" by simp
    from dumpModem_goes [OF this] that Cons show thesis by auto
  qed
  have "list_all (\<lambda>e. goes_to fd ?m e \<and> \<not> diag_set e) (emitted (dump_board E fd) s1)"
    by (rule emits_all [OF parts_go(4)])
  moreover have "hist s' = hist s1 @ emitted (dump_board E fd) s1"
    using emits_hist [OF parts_go(4), of E fd s1] board by simp
  ultimately show ?thesis
    using t1 h
    by (intro exI [of _ "t1 @ emitted (dump_board E fd) s1"])
      (auto simp: list_all_iff diag_restarted_def filter_empty_conv suffix_def)
qed

theorem board_dump_witness:
  "\<exists>s' t. dumpstateBoard archive_env (Some [3]) \<lparr>hist = []\<rparr> = Some ((), s') \<and> hist s' = (Add_exit_task, Void) # t \<and>
     list_all (goes_to 3 None) t"
proof -
  obtain s' where run: "dumpstateBoard archive_env (Some [3]) \<lparr>hist = []\<rparr> = Some ((), s')"
  proof
    show "dumpstateBoard archive_env (Some [3]) \<lparr>hist = []\<rparr> =
        Some ((), snd (run_state (dump_board archive_env 3) \<lparr>hist = [(Add_exit_task, Void)]\<rparr>))"
      by (simp add: dumpstateBoard_def call_void_def prod_eq_iff)
  qed
  from board_dump [OF this] show ?thesis using run by auto
qed

end
