(* ===== verification/Spec2Isabelle.thy ===== *)
theory Spec2Isabelle
  imports GadgetRequests GadgetHandshakeRuns GadgetTeardown GadgetPaths InotifyDisplay UsbTypes UsbPatterns
    UsbHandshakeRuns UsbStopRuns HealthReboot LightDevices LightBattery FolioRuns EaselStats ServiceMains DumpRuns
begin

text \<open>
  Verification development for the vendor services of the wahoo devices.

  \<^bold>\<open>The program.\<close>  The repository holds the device configuration of two phones and the C and C++
  services written for them.  Each service is a process of its own between a HIDL (or HAL) client and
  nodes of the kernel: the USB type-C and USB gadget services (\<open>usb/\<close>), the health service (\<open>health/\<close>),
  the lights module (\<open>liblight/\<close>), the folio daemon (\<open>folio_daemon/\<close>), the power statistics service
  (\<open>powerstats/\<close>) and the dumpstate service (\<open>dumpstate/\<close>).  They do not call each other; what they share
  are conventions (sysfs and configfs nodes, properties, numbers written as text), which the shared
  theories hold.

  \<^bold>\<open>How code is modelled.\<close>  What a service calls outside the repository (the C library, the kernel,
  \<open>android-base\<close>, the HIDL runtime, its client) is an event of the component's own datatype, and the answers
  are a parameter, the environment, which may depend on all that happened before.  A function is a
  computation of the state monad over the component's record, an early return is a left summand, and a
  theorem holds for every environment unless it names what it relies on.  \<^theory_text>\<open>Wahoo_Base\<close> has the monad, the
  calls, four small logics over it (\<open>wp\<close>, \<open>emits\<close>, \<open>preserves\<close>, \<open>yields\<close>) with their collections, and the
  loops that may not end.  \<^theory_text>\<open>CText\<close> has the text functions of the C library (\<open>printf\<close>, \<open>sscanf\<close>, streams,
  \<open>strtok\<close>) and the locale \<open>text_codec\<close> of numbers stored as text.  \<^theory_text>\<open>Guarded\<close> has the locale \<open>guarded_ops\<close> of a service
  whose operations each hold one mutex from the first call to the last, interpreted for the lights requests
  and the Easel queries.  \<^theory_text>\<open>WaitProtocol\<close> has runs of step relations with the calls of their steps and the
  locale \<open>wait_protocol\<close>, the contract of a condition variable, interpreted for both handshakes of the USB service.
  \<^theory_text>\<open>StopProtocol\<close> has the locale \<open>stop_protocol\<close>, the contract of stopping and joining a thread, interpreted for
  the gadget's monitor, for the uevent thread, and for a uevent thread that has been woken (the last two for
  either thread for requests).

  \<^bold>\<open>Theories.\<close>
  \<^item> \<open>usb/UsbGadget.cpp\<close>: \<^theory_text>\<open>GadgetIds\<close> (vendor functions, \<open>validateAndSetVidPid\<close> and its table),
    \<^theory_text>\<open>GadgetMonitor\<close> (the thread \<open>monitorFfs\<close>), \<^theory_text>\<open>UsbGadget\<close> (the requests \<open>setCurrentUsbFunctions\<close>, \<open>reset\<close>,
    \<open>getCurrentUsbFunctions\<close>), \<^theory_text>\<open>GadgetLinks\<close> (which function directories are linked), \<^theory_text>\<open>GadgetRequests\<close>
    (threads, descriptors and answers over sequences of requests), \<^theory_text>\<open>GadgetHandshake\<close> (the interleavings of a
    request and its monitor thread as a step relation), \<^theory_text>\<open>GadgetHandshakeRuns\<close> (the code as paths of it),
    \<^theory_text>\<open>GadgetTeardown\<close> (the interleavings of a request with the monitor of the one before, which it stops and joins),
    \<^theory_text>\<open>GadgetPaths\<close> (the path buffers), \<^theory_text>\<open>InotifyDisplay\<close> (the messages of \<open>displayInotifyEvent\<close>).
  \<^item> \<open>usb/Usb.cpp\<close>: \<^theory_text>\<open>UsbRoles\<close> and \<^theory_text>\<open>UsbPorts\<close> (role nodes, port names, port status), \<^theory_text>\<open>Usb\<close> (the object and the
    role switch), \<^theory_text>\<open>UsbEvents\<close> (the uevent thread, callback registration), \<^theory_text>\<open>UsbSwitch\<close> (outcome of a switch),
    \<^theory_text>\<open>UsbLocks\<close> (lock order), \<^theory_text>\<open>UsbUevents\<close> (the walk over a uevent message), \<^theory_text>\<open>UsbHandshake\<close> (the interleavings of
    \<open>switchMode\<close> and the uevent thread as an inductive step relation), \<^theory_text>\<open>UsbHandshakeRuns\<close> (\<open>switchMode\<close> as paths of
    it), \<^theory_text>\<open>UsbTypes\<close> (the reported roles are values of their enums), \<^theory_text>\<open>UsbPatterns\<close> (the regular expressions of
    \<open>uevent_event\<close>, with a matcher by derivatives), \<^theory_text>\<open>UsbStop\<close> (registering and unregistering the callback on the two
    threads for requests against the uevent threads and their signals, as a step relation), \<^theory_text>\<open>UsbStopRuns\<close> (\<open>setCallback\<close> as paths of it).
  \<^item> \<open>usb/service.cpp\<close>, \<open>dumpstate/service.cpp\<close> and the other \<open>main\<close> functions: \<^theory_text>\<open>ServiceMains\<close>, with the locale
    \<open>service_process\<close> (requests are served only after the plan of the process: the pool configured, every interface registered),
    interpreted for three of them.
  \<^item> \<open>health/\<close>: \<^theory_text>\<open>Health\<close> (the state of the process and the locale \<open>backup_unit\<close>, the contract of
    \<open>Backup()\<close>), \<^theory_text>\<open>CycleCount\<close> and \<^theory_text>\<open>LearnedCapacity\<close> (the two classes, each an interpretation of both
    locales), \<^theory_text>\<open>HealthService\<close> (battery updates, storage information, disk statistics), \<^theory_text>\<open>HealthReboot\<close> (the whole
    service and its files over a restart; the locale \<open>persisted_unit\<close> extends \<open>backup_unit\<close>).
  \<^item> \<open>liblight/lights.c\<close>: \<^theory_text>\<open>Lights\<close> (the module and its brightness), \<^theory_text>\<open>LightWrites\<close> (a request as a list of node
    writes), \<^theory_text>\<open>LightRequests\<close> (sequences of requests, opening a device), \<^theory_text>\<open>LightDevices\<close> (the devices handed out and freed),
    \<^theory_text>\<open>LightBattery\<close> (the battery light, which a build may switch on).
  \<^item> \<open>folio_daemon/main.cpp\<close>: \<^theory_text>\<open>Folio\<close> and \<^theory_text>\<open>FolioRuns\<close>.
  \<^item> \<open>powerstats/\<close>: \<^theory_text>\<open>EaselStats\<close> and \<^theory_text>\<open>PowerStatsService\<close>.
  \<^item> \<open>dumpstate/DumpstateDevice.cpp\<close>: \<^theory_text>\<open>Dumpstate\<close> and \<^theory_text>\<open>DumpRuns\<close>.

  \<^bold>\<open>What is shown.\<close>  For the gadget: the ids of every configuration are those of a table, the links are
  the specified ones, each request is answered once, no thread or descriptor is lost, the monitor pulls the
  gadget up only after a round of checks, and in every interleaving the answer is success exactly if the monitor
  has raised its flag by then, which it does shortly after it has pulled the gadget up: the only wrong answer is
  an error in between; the join of the old monitor returns within a fixed number of steps, and what that
  monitor can leave behind is told exactly.  For type-C: role texts round-trip, a switch is
  answered once, with success exactly if the node took and showed the role or, for a mode, no wait for the
  partner timed out, the mutexes are taken in one order, the walk over a message
  stays in the buffer, records are classified by the patterns of the source, reported roles are values of
  their enums, except the accessory modes sent to a client of V1_0; in every interleaving a partner event that
  was handled has set its flag and woken a switch that waits (one that timed out does not look any more), and
  the code of a switch is a path of the relation of which that is proved.  Where registrations do not overlap
  there is at most one uevent thread, and unregistering the callback ends it within a bounded number of steps or
  is stuck until the next uevent, exactly when the signal fell between a test and a wait; where they overlap two
  threads can be left, which is shown by a run.  For health: restored counters are
  pointwise maxima, survive a reset of the gauge, and the stored text stays the text of the counters, which a restart of the service finds again;
  charge is neither lost nor counted twice.  For the lights: requests refine a list of node writes under the
  lock, the notification light shows the last notification dimmed for the device, and exactly which
  descriptors leak.  For the folio: each sensor event is reported before the next is read, retries are
  bounded, resources are released.  For the statistics: the report is the count of the samples.  For the
  dumps: the newest logs, the whole archive, each to its descriptor.

  \<^bold>\<open>Threads, bounds and fuel.\<close>  The gadget's monitor thread is a function of the results of its system
  calls and runs, in the composed model, where a request blocks on it (the join and the wait on the condition
  variable) and between requests; there a write of the UDC node and the critical section after it are one piece,
  which the relations take apart.  The interleavings of the role switch with the uevent thread and of a
  request with its monitor are steps of relations, and refinement theorems tie the code to them, as they do
  for the registration of the callback, where two calls may also overlap each other; the tear-down of the gadget
  is a relation of its own (calls of \<open>setCurrentUsbFunctions\<close> exclude each other by
  \<open>mLockSetCurrentFunction\<close>), whose bound of 392 steps comes from the 32 inotify records that the buffer of
  \<open>monitorFfs\<close> holds.  The Easel queries and the lights requests hold their mutex throughout and so are run one
  after the other.  The loops of the uevent thread and of the monitor consume a list of results of their
  blocking call.  The polling loop of the folio daemon is cut after any number of polls and events; its
  theorems hold for every cut, so nothing depends on a bound being large enough.  The wait for a partner
  and the copy of the archive are \<open>partial_function\<close>s in \<open>option\<close>, with theorems on when they return.

  \<^bold>\<open>Parameters.\<close>  The numbers of the HIDL interfaces and of \<open>hardware/lights.h\<close> and \<open>linux/input.h\<close>,
  \<open>android::base::Trim\<close> and \<open>Split\<close>, the order in which an \<open>unordered_map\<close> is enumerated, and what \<open>sscanf\<close>
  stores for a number outside \<open>int\<close>.

  \<^bold>\<open>Not modelled.\<close>  \<open>bluetooth/bdroid_buildcfg.h\<close> (constants for another repository), log messages except where
  their rate is the point and in \<open>displayInotifyEvent\<close>, which only logs, the contents of the headers of HIDL
  interfaces (declarations without code), and everything of the repository that is not
  code: policies, overlays, build files, init scripts and configuration data.
\<close>

end
